(* ===== verification/CBase.thy ===== *)
theory CBase
  imports Main "HOL-Library.Word"
begin

text \<open>
  The prelude: how C data and the parts of the C library the gateway calls are read in HOL,
  and the lemmas on lists, strings and numbers that the components share.

  \<^item> A byte is a \<open>char\<close>; a byte buffer is a \<open>string\<close> holding its valid bytes.
  \<^item> A \<open>char\<close> array that the code only uses through the \<open>str\<close> functions is the C string in it,
    that is, the bytes before the first NUL (\<open>cstr\<close>).
  \<^item> A pointer that the code compares with \<open>NULL\<close> is an \<open>option\<close>, \<open>None\<close> for \<open>NULL\<close>.
  \<^item> An output parameter is passed in and returned (state passing), so that "unchanged" and
    "cleared" on failure can be stated.
  \<^item> \<open>unsigned long\<close> and \<open>size_t\<close> counters are 64-bit words or \<open>nat\<close>, \<open>uint32_t\<close> is a
    32-bit word, \<open>int\<close> and \<open>time_t\<close> values that cannot overflow are \<open>int\<close>.
\<close>

named_theorems csimps \<open>rewrite rules for the C library model\<close>
named_theorems len_intros \<open>lengths of what a formatted print can produce\<close>

type_synonym u16 = "16 word"
type_synonym u32 = "32 word"
type_synonym u64 = "64 word"

abbreviation NUL :: char where "NUL \<equiv> CHR 0x00"
abbreviation TAB :: char where "TAB \<equiv> CHR 0x09"
abbreviation LF :: char where "LF \<equiv> CHR 0x0A"
abbreviation CR :: char where "CR \<equiv> CHR 0x0D"
abbreviation QUOTE :: char where "QUOTE \<equiv> CHR 0x22"
abbreviation BSLASH :: char where "BSLASH \<equiv> CHR 0x5C"

section \<open>C strings\<close>

definition cstr :: "string \<Rightarrow> string" where
  "cstr s = takeWhile (\<lambda>c. c \<noteq> NUL) s"

definition is_cstr :: "string \<Rightarrow> bool" where
  "is_cstr s = (NUL \<notin> set s)"

lemma cstr_no_nul [simp]: "NUL \<notin> set (cstr s)"
  by (auto simp: cstr_def dest: set_takeWhileD)

lemma is_cstr_cstr [simp]: "is_cstr (cstr s)"
  by (simp add: is_cstr_def)

lemma cstr_id [simp]: "NUL \<notin> set s \<Longrightarrow> cstr s = s"
  by (auto simp: cstr_def)

lemma cstr_Nil [simp]: "cstr [] = []"
  by (simp add: cstr_def)

lemma cstr_length: "length (cstr s) \<le> length s"
  by (simp add: cstr_def length_takeWhile_le)

lemma cstr_append: "NUL \<notin> set s \<Longrightarrow> cstr (s @ t) = s @ cstr t"
  unfolding cstr_def by (rule takeWhile_append2) auto

lemma set_cstr_subset: "set (cstr s) \<subseteq> set s"
  by (auto simp: cstr_def dest: set_takeWhileD)

section \<open>Decimal and hexadecimal text\<close>

text \<open>The digit characters and \<open>printf\<close>'s \<open>%u\<close>, \<open>%d\<close>, \<open>%06u\<close> and \<open>%04X\<close>.\<close>

definition digit_char :: "nat \<Rightarrow> char" where
  "digit_char d = char_of (48 + d)"

definition is_digit :: "char \<Rightarrow> bool" where
  "is_digit c = (48 \<le> (of_char c :: nat) \<and> (of_char c :: nat) \<le> 57)"

definition digit_val :: "char \<Rightarrow> nat" where
  "digit_val c = of_char c - 48"

fun print_u :: "nat \<Rightarrow> string" where
  "print_u n = (if n < 10 then [digit_char n] else print_u (n div 10) @ [digit_char (n mod 10)])"

declare print_u.simps [simp del]

definition print_d :: "int \<Rightarrow> string" where
  "print_d i = (if i < 0 then CHR ''-'' # print_u (nat (- i)) else print_u (nat i))"

definition pad0 :: "nat \<Rightarrow> string \<Rightarrow> string" where
  "pad0 w s = replicate (w - length s) (CHR ''0'') @ s"

definition print_06u :: "nat \<Rightarrow> string" where
  "print_06u n = pad0 6 (print_u n)"

definition hex_digit :: "nat \<Rightarrow> char" where
  "hex_digit d = (if d < 10 then char_of (48 + d) else char_of (55 + d))"

definition print_04X :: "u16 \<Rightarrow> string" where
  "print_04X w = (let n = unat w in
     [hex_digit (n div 4096), hex_digit (n div 256 mod 16), hex_digit (n div 16 mod 16),
      hex_digit (n mod 16)])"

text \<open>The value of a string of decimal digits, most significant first.\<close>

definition dec_value :: "string \<Rightarrow> nat" where
  "dec_value s = foldl (\<lambda>v c. v * 10 + digit_val c) 0 s"

lemma dec_value_Nil [simp]: "dec_value [] = 0"
  by (simp add: dec_value_def)

lemma dec_value_snoc [simp]: "dec_value (s @ [c]) = dec_value s * 10 + digit_val c"
  by (simp add: dec_value_def)

lemma digit_char_code [simp]: "d < 10 \<Longrightarrow> (of_char (digit_char d) :: nat) = 48 + d"
  by (simp add: digit_char_def)

lemma is_digit_digit_char [simp]: "d < 10 \<Longrightarrow> is_digit (digit_char d)"
  by (simp add: is_digit_def)

lemma digit_val_digit_char [simp]: "d < 10 \<Longrightarrow> digit_val (digit_char d) = d"
  by (simp add: digit_val_def)

lemma print_u_nonempty [simp]: "print_u n \<noteq> []"
  by (subst print_u.simps) simp

lemma print_u_digits: "c \<in> set (print_u n) \<Longrightarrow> is_digit c"
proof (induction n rule: print_u.induct)
  case (1 n)
  then show ?case
    by (subst (asm) (2) print_u.simps) (auto split: if_splits)
qed

lemma dec_value_print_u [simp]: "dec_value (print_u n) = n"
proof (induction n rule: print_u.induct)
  case (1 n)
  show ?case
  proof (cases "n < 10")
    case True
    then show ?thesis
      by (subst print_u.simps) (simp add: dec_value_def)
  next
    case False
    with 1 show ?thesis
      by (subst print_u.simps) simp
  qed
qed

lemma print_u_length: "n < 10 ^ k \<Longrightarrow> 0 < k \<Longrightarrow> length (print_u n) \<le> k"
proof (induction k arbitrary: n)
  case 0
  then show ?case by simp
next
  case (Suc k)
  show ?case
  proof (cases "n < 10")
    case True
    then show ?thesis by (subst print_u.simps) simp
  next
    case False
    have "n div 10 < 10 ^ k"
      using Suc.prems by (simp add: less_mult_imp_div_less mult.commute)
    moreover have "0 < k"
      using False Suc.prems by (cases k) auto
    ultimately have "length (print_u (n div 10)) \<le> k"
      by (rule Suc.IH)
    with False show ?thesis by (subst print_u.simps) simp
  qed
qed

lemma foldl_zeros: "foldl (\<lambda>v c. v * 10 + digit_val c) 0 (replicate k (CHR ''0'')) = 0"
  by (induction k) (auto simp: digit_val_def)

lemma dec_value_pad0 [simp]: "dec_value (pad0 w s) = dec_value s"
  by (simp add: pad0_def dec_value_def foldl_zeros)

lemma pad0_digits: "(\<forall>c \<in> set s. is_digit c) \<Longrightarrow> c \<in> set (pad0 w s) \<Longrightarrow> is_digit c"
  by (auto simp: pad0_def is_digit_def)

lemma length_pad0 [simp]: "length (pad0 w s) = max w (length s)"
  by (simp add: pad0_def)

lemma print_06u_digits: "c \<in> set (print_06u n) \<Longrightarrow> is_digit c"
  unfolding print_06u_def by (rule pad0_digits [rotated]) (auto dest: print_u_digits)

lemma length_print_06u [simp]: "n < 1000000 \<Longrightarrow> length (print_06u n) = 6"
  using print_u_length [of n 6] by (simp add: print_06u_def)

lemma dec_value_print_06u [simp]: "dec_value (print_06u n) = n"
  by (simp add: print_06u_def)

lemma is_digit_cases:
  "is_digit c \<Longrightarrow> c \<noteq> NUL \<and> c \<noteq> CR \<and> c \<noteq> LF \<and> c \<noteq> QUOTE \<and> c \<noteq> BSLASH \<and> c \<noteq> TAB
     \<and> c \<noteq> CHR '','' \<and> c \<noteq> CHR ''@'' \<and> c \<noteq> CHR ''*'' \<and> c \<noteq> CHR ''='' \<and> c \<noteq> CHR '' ''
     \<and> c \<noteq> CHR ''+'' \<and> c \<noteq> CHR ''-'' \<and> c \<noteq> CHR ''}'' \<and> c \<noteq> CHR '':''"
  by (auto simp: is_digit_def)

text \<open>Concrete prints, for the witnesses.\<close>

lemma digit_chars:
  "digit_char 0 = CHR ''0''" "digit_char 1 = CHR ''1''" "digit_char 2 = CHR ''2''" "digit_char 3 = CHR ''3''"
  "digit_char 4 = CHR ''4''" "digit_char 5 = CHR ''5''" "digit_char 6 = CHR ''6''" "digit_char 7 = CHR ''7''"
  "digit_char 8 = CHR ''8''" "digit_char 9 = CHR ''9''" "digit_char (Suc 0) = CHR ''1''"
  by (simp_all add: digit_char_def char_of_def bit_0)

lemma pad0_Cons: "length s < w \<Longrightarrow> pad0 w s = CHR ''0'' # pad0 (w - 1) s"
  by (simp add: pad0_def flip: replicate_Suc)

lemma pad0_full: "w \<le> length s \<Longrightarrow> pad0 w s = s"
  by (simp add: pad0_def)

lemmas print_compute = print_d_def print_06u_def pad0_Cons pad0_full print_u.simps digit_chars

section \<open>The formatted print, tokens and number parsing of the C library\<close>

text \<open>
  \<open>snprintf(buf, n, ...)\<close> with \<open>0 < n\<close> stores the first \<open>n - 1\<close> characters of the
  text and returns the length of the whole text.
\<close>

definition snprintf :: "nat \<Rightarrow> string \<Rightarrow> string \<times> nat" where
  "snprintf n s = (take (n - 1) s, length s)"

text \<open>
  \<open>strtok_all d s\<close> is the list of tokens that a loop over \<open>strtok_r\<close> with the single delimiter
  \<open>d\<close> meets: the non-empty pieces of \<open>s\<close> between delimiters.
\<close>

fun split_on :: "char \<Rightarrow> string \<Rightarrow> string list" where
  "split_on d [] = [[]]"
| "split_on d (c # cs) =
     (if c = d then [] # split_on d cs
      else (case split_on d cs of [] \<Rightarrow> [[c]] | t # ts \<Rightarrow> (c # t) # ts))"

definition strtok_all :: "char \<Rightarrow> string \<Rightarrow> string list" where
  "strtok_all d s = filter (\<lambda>t. t \<noteq> []) (split_on d s)"

text \<open>
  \<open>strtoul\<close> and \<open>strtol\<close> in base 10 on an LP64 platform: skip white space, read an optional sign
  and the digits; the result is the value, what is left, and whether \<open>errno\<close> was set to
  \<open>ERANGE\<close>. Without a digit nothing is consumed.
\<close>

definition is_space :: "char \<Rightarrow> bool" where
  "is_space c = (c = CHR '' '' \<or> (9 \<le> (of_char c :: nat) \<and> (of_char c :: nat) \<le> 13))"

definition strip_sign :: "string \<Rightarrow> bool \<times> string" where
  "strip_sign s = (case s of [] \<Rightarrow> (False, [])
     | c # cs \<Rightarrow> if c = CHR ''-'' then (True, cs) else if c = CHR ''+'' then (False, cs) else (False, s))"

definition strtoul10 :: "string \<Rightarrow> nat \<times> string \<times> bool" where
  "strtoul10 s =
     (let (neg, t) = strip_sign (dropWhile is_space s);
          ds = takeWhile is_digit t; rest = dropWhile is_digit t; v = dec_value ds
      in if ds = [] then (0, s, False)
         else if 2 ^ 64 \<le> v then (2 ^ 64 - 1, rest, True)
         else (if neg \<and> v \<noteq> 0 then 2 ^ 64 - v else v, rest, False))"

definition strtol10 :: "string \<Rightarrow> int \<times> string \<times> bool" where
  "strtol10 s =
     (let (neg, t) = strip_sign (dropWhile is_space s);
          ds = takeWhile is_digit t; rest = dropWhile is_digit t; v = int (dec_value ds)
      in if ds = [] then (0, s, False)
         else if neg then (if 2 ^ 63 < v then (- (2 ^ 63), rest, True) else (- v, rest, False))
         else (if 2 ^ 63 \<le> v then (2 ^ 63 - 1, rest, True) else (v, rest, False)))"

lemma split_on_nonempty [simp]: "split_on d s \<noteq> []"
  by (induction s) (auto split: list.splits)

lemma split_on_none [csimps]: "d \<notin> set s \<Longrightarrow> split_on d s = [s]"
  by (induction s) auto

lemma split_on_append [csimps]: "d \<notin> set s \<Longrightarrow> split_on d (s @ d # t) = s # split_on d t"
  by (induction s) auto

lemma strtok_all_none [csimps]: "d \<notin> set s \<Longrightarrow> s \<noteq> [] \<Longrightarrow> strtok_all d s = [s]"
  by (simp add: strtok_all_def split_on_none)

lemma strtok_all_append [csimps]:
  "d \<notin> set s \<Longrightarrow> s \<noteq> [] \<Longrightarrow> strtok_all d (s @ d # t) = s # strtok_all d t"
  by (simp add: strtok_all_def split_on_append)

lemma split_on_parts: "t \<in> set (split_on d s) \<Longrightarrow> set t \<subseteq> set s - {d}"
proof (induction s arbitrary: t)
  case Nil
  then show ?case by simp
next
  case (Cons c cs)
  then show ?case
    by (cases "split_on d cs") (fastforce split: if_splits)+
qed

lemma strtok_all_parts: "t \<in> set (strtok_all d s) \<Longrightarrow> t \<noteq> [] \<and> set t \<subseteq> set s - {d}"
  using split_on_parts [of t d s] by (auto simp: strtok_all_def)

lemma is_digit_not_space: "is_digit c \<Longrightarrow> \<not> is_space c"
  by (auto simp: is_digit_def is_space_def)

lemma all_digits_split:
  "\<forall>c \<in> set s. is_digit c \<Longrightarrow> takeWhile is_digit s = s"
  "\<forall>c \<in> set s. is_digit c \<Longrightarrow> dropWhile is_digit s = []"
  by simp_all

lemma strtoul10_digits:
  assumes "s \<noteq> []" and "\<forall>c \<in> set s. is_digit c" and "dec_value s < 2 ^ 64"
  shows "strtoul10 s = (dec_value s, [], False)"
proof -
  obtain c cs where s: "s = c # cs" using assms(1) by (cases s) auto
  have "\<not> is_space c" "c \<noteq> CHR ''-''" "c \<noteq> CHR ''+''"
    using assms(2) s is_digit_not_space is_digit_cases by auto
  then have "strip_sign (dropWhile is_space s) = (False, s)"
    by (simp add: s strip_sign_def)
  then show ?thesis
    using assms(1,3) by (simp add: strtoul10_def Let_def all_digits_split [OF assms(2)])
qed

lemma strtol10_digits:
  assumes "s \<noteq> []" and "\<forall>c \<in> set s. is_digit c" and "dec_value s < 2 ^ 63"
  shows "strtol10 s = (int (dec_value s), [], False)"
proof -
  obtain c cs where s: "s = c # cs" using assms(1) by (cases s) auto
  have "\<not> is_space c" "c \<noteq> CHR ''-''" "c \<noteq> CHR ''+''"
    using assms(2) s is_digit_not_space is_digit_cases by auto
  then have "strip_sign (dropWhile is_space s) = (False, s)"
    by (simp add: s strip_sign_def)
  moreover have "int (dec_value s) < 2 ^ 63"
    using assms(3) by (simp only: of_nat_less_iff [symmetric, where 'a = int]) simp
  ultimately show ?thesis
    using assms(1) by (simp add: strtol10_def Let_def all_digits_split [OF assms(2)])
qed

section \<open>Arrays used as rings\<close>

text \<open>
  The contents of a ring buffer of capacity \<open>cap\<close> that starts at \<open>h\<close> and holds \<open>n\<close> items,
  oldest first. The two ring buffers of the gateway (the upstream message queue and the command
  queue of each device) share these lemmas.
\<close>

definition ring_contents :: "nat \<Rightarrow> 'a list \<Rightarrow> nat \<Rightarrow> nat \<Rightarrow> 'a list" where
  "ring_contents cap items h n = map (\<lambda>i. items ! ((h + i) mod cap)) [0..<n]"

lemma ring_contents_0 [simp]: "ring_contents cap items h 0 = []"
  by (simp add: ring_contents_def)

lemma length_ring_contents [simp]: "length (ring_contents cap items h n) = n"
  by (simp add: ring_contents_def)

lemma ring_slot_distinct:
  fixes h :: nat assumes "i < n" "n < cap" shows "(h + i) mod cap \<noteq> (h + n) mod cap"
proof
  assume eq: "(h + i) mod cap = (h + n) mod cap"
  have "(h + n) - (h + i) = n - i" by simp
  moreover have "cap dvd (h + n) - (h + i)"
    using eq assms mod_eq_dvd_iff_nat [of "h + i" "h + n" cap] by auto
  ultimately have "cap dvd n - i" by simp
  moreover have "0 < n - i" "n - i < cap" using assms by auto
  ultimately show False using nat_dvd_not_less by blast
qed

lemma ring_enqueue:
  assumes "n < cap" "length items = cap"
  shows "ring_contents cap (items[(h + n) mod cap := x]) h (Suc n) = ring_contents cap items h n @ [x]"
proof -
  have "(h + n) mod cap < length items" using assms by auto
  moreover have "\<forall>i < n. (h + n) mod cap \<noteq> (h + i) mod cap"
    using ring_slot_distinct [OF _ assms(1), of _ h] by metis
  ultimately show ?thesis by (auto simp: ring_contents_def)
qed

lemma ring_dequeue:
  assumes "0 < n" "h < cap"
  shows "ring_contents cap items h n = items ! h # ring_contents cap items ((h + 1) mod cap) (n - 1)"
proof -
  obtain m where n: "n = Suc m" using assms(1) by (cases n) auto
  have "[0..<Suc m] = 0 # map Suc [0..<m]" by (simp add: map_Suc_upt upt_conv_Cons)
  then show ?thesis
    using assms(2) by (simp add: n ring_contents_def mod_simps comp_def)
qed

lemma ring_tail_dequeue: "0 < n \<Longrightarrow> (h + n) mod cap = ((h + 1) mod cap + (n - 1)) mod (cap :: nat)"
  by (cases n) (simp_all add: mod_simps)

section \<open>Folds that may stop: searching an array for the first hit\<close>

text \<open>
  A \<open>for\<close> loop that returns the first index satisfying a condition. It is used by every table
  of the program (device registry, node store, command table).
\<close>

fun find_index :: "('a \<Rightarrow> bool) \<Rightarrow> 'a list \<Rightarrow> nat option" where
  "find_index P [] = None"
| "find_index P (x # xs) = (if P x then Some 0 else map_option Suc (find_index P xs))"

lemma find_index_None: "find_index P xs = None \<longleftrightarrow> (\<forall>x \<in> set xs. \<not> P x)"
  by (induction xs) auto

lemma find_index_SomeD:
  "find_index P xs = Some i \<Longrightarrow> i < length xs \<and> P (xs ! i) \<and> (\<forall>j < i. \<not> P (xs ! j))"
proof (induction xs arbitrary: i)
  case Nil
  then show ?case by simp
next
  case (Cons x xs)
  then show ?case
    by (auto simp: less_Suc_eq_0_disj split: if_splits)
qed

lemma find_index_SomeI:
  "i < length xs \<Longrightarrow> P (xs ! i) \<Longrightarrow> (\<forall>j < i. \<not> P (xs ! j)) \<Longrightarrow> find_index P xs = Some i"
proof (induction xs arbitrary: i)
  case Nil
  then show ?case by simp
next
  case (Cons x xs)
  show ?case
  proof (cases i)
    case 0
    with Cons.prems show ?thesis by simp
  next
    case (Suc k)
    have "\<forall>j < k. \<not> P (xs ! j)" "\<not> P x"
      using Cons.prems(3) Suc by (auto dest: spec [of _ "Suc _"] spec [of _ 0])
    with Cons Suc show ?thesis by simp
  qed
qed

text \<open>In a table with distinct keys the hit is the entry with the key, wherever it is.\<close>

lemma find_index_key:
  assumes "distinct (map key xs)" "i < length xs"
  shows "find_index (\<lambda>x. key x = key (xs ! i)) xs = Some i"
  using assms by (intro find_index_SomeI) (auto simp: distinct_conv_nth)

section \<open>Counting in an array\<close>

definition count_where :: "('a \<Rightarrow> bool) \<Rightarrow> 'a list \<Rightarrow> nat" where
  "count_where P xs = length (filter P xs)"

lemma count_where_update:
  "i < length xs \<Longrightarrow>
   count_where P (xs[i := y]) + (if P (xs ! i) then 1 else 0) = count_where P xs + (if P y then 1 else 0)"
proof (induction xs arbitrary: i)
  case Nil
  then show ?case by simp
next
  case (Cons x xs)
  then show ?case by (cases i) (auto simp: count_where_def)
qed

lemma count_where_pos: "0 < count_where P xs \<longleftrightarrow> (\<exists>x \<in> set xs. P x)"
  by (auto simp: count_where_def filter_empty_conv)

lemma count_where_le: "count_where P xs \<le> length xs"
  by (simp add: count_where_def)

section \<open>Tables: an array of entries with a key, read as a map\<close>

definition table_map :: "('a \<Rightarrow> 'k) \<Rightarrow> ('a \<Rightarrow> 'v) \<Rightarrow> 'a list \<Rightarrow> 'k \<Rightarrow> 'v option" where
  "table_map key val xs = map_of (map (\<lambda>x. (key x, val x)) xs)"

lemma dom_table_map: "dom (table_map key val xs) = key ` set xs"
  by (simp add: table_map_def dom_map_of_conv_image_fst image_image)

lemma card_table_map: "distinct (map key xs) \<Longrightarrow> card (dom (table_map key val xs)) = length xs"
  by (metis dom_table_map distinct_card length_map list.set_map)

lemma table_map_None: "find_index (\<lambda>x. key x = k) xs = None \<longleftrightarrow> table_map key val xs k = None"
  by (auto simp: find_index_None table_map_def map_of_eq_None_iff image_image)

lemma table_map_Some: "find_index (\<lambda>x. key x = k) xs = Some i \<Longrightarrow> table_map key val xs k = Some (val (xs ! i))"
proof (induction xs arbitrary: i)
  case Nil
  then show ?case by simp
next
  case (Cons x xs)
  then show ?case by (auto simp: table_map_def split: if_splits)
qed

lemma table_map_update:
  assumes "distinct (map key xs)" "find_index (\<lambda>x. key x = k) xs = Some i" "key y = k"
  shows "table_map key val (xs[i := y]) = (table_map key val xs)(k \<mapsto> val y)"
  using assms
proof (induction xs arbitrary: i)
  case Nil
  then show ?case by simp
next
  case (Cons x xs)
  show ?case
  proof (cases "key x = k")
    case True
    with Cons.prems show ?thesis by (auto simp: table_map_def)
  next
    case False
    then obtain j where j: "find_index (\<lambda>x. key x = k) xs = Some j" "i = Suc j"
      using Cons.prems(2) by auto
    from Cons.IH [OF _ j(1)] Cons.prems False show ?thesis
      by (auto simp: table_map_def j(2) fun_upd_twist)
  qed
qed

lemma table_map_append:
  "key y \<notin> key ` set xs \<Longrightarrow> table_map key val (xs @ [y]) = (table_map key val xs)(key y \<mapsto> val y)"
proof (induction xs)
  case Nil
  then show ?case by (simp add: table_map_def)
next
  case (Cons x xs)
  then show ?case by (auto simp: table_map_def)
qed

lemma table_map_remove:
  assumes "distinct (map key xs)" "find_index (\<lambda>x. key x = k) xs = Some i"
  shows "table_map key val (take i xs @ drop (i + 1) xs) = (table_map key val xs)(k := None)"
  using assms
proof (induction xs arbitrary: i)
  case Nil
  then show ?case by simp
next
  case (Cons x xs)
  show ?case
  proof (cases "key x = k")
    case True
    with Cons.prems have "table_map key val xs k = None" "i = 0"
      by (auto simp: table_map_def map_of_eq_None_iff)
    with True show ?thesis by (auto simp: table_map_def)
  next
    case False
    then obtain j where j: "find_index (\<lambda>x. key x = k) xs = Some j" "i = Suc j"
      using Cons.prems(2) by auto
    from Cons.IH [OF _ j(1)] Cons.prems False show ?thesis
      by (auto simp: table_map_def j(2) fun_upd_twist)
  qed
qed

lemma distinct_keys_update:
  assumes "distinct (map key xs)" "find_index (\<lambda>x. key x = k) xs = Some i" "key y = k"
  shows "map key (xs[i := y]) = map key xs"
  using find_index_SomeD [OF assms(2)] assms(3) by (simp add: map_update list_update_same_conv)

lemma distinct_keys_remove:
  "distinct (map key xs) \<Longrightarrow> distinct (map key (take i xs @ drop (i + 1) xs))"
  by (simp add: take_map [symmetric] drop_map [symmetric] set_take_disj_set_drop_if_distinct)

end
