(* ===== verification/Interfaces.thy ===== *)
theory Interfaces
  imports CBase
begin

text \<open>
  The interfaces the components share, as locales, with the lemmas of their clients proved once.

  \<^item> \<open>chunked\<close>: a consumer of a byte stream. TCP and the serial line have no message
    boundaries, so what it does may not depend on how the bytes are cut into reads.
  \<^item> \<open>bounded_fifo\<close>: a queue of bounded capacity. Whatever the interleaving of its
    operations, what comes out is what went in, in order.

  Each is interpreted on the model of the code in the theory of the component that provides it.
\<close>

section \<open>Consumers of a byte stream\<close>

locale chunked =
  fixes ready :: "'s \<Rightarrow> bool"
    and feed :: "'s \<Rightarrow> 'b list \<Rightarrow> 's"
  assumes feed_ready: "ready s \<Longrightarrow> ready (feed s xs)"
    and feed_Nil: "ready s \<Longrightarrow> feed s [] = s"
    and feed_append: "ready s \<Longrightarrow> feed s (xs @ ys) = feed (feed s xs) ys"
begin

lemma feed_chunks: "ready s \<Longrightarrow> foldl feed s css = feed s (concat css)"
  by (induction css arbitrary: s) (simp_all add: feed_Nil feed_append feed_ready)

lemma chunking_irrelevant:
  "ready s \<Longrightarrow> concat css = concat dss \<Longrightarrow> foldl feed s css = foldl feed s dss"
  by (simp add: feed_chunks)

lemma feed_bytewise:
  assumes "ready s" shows "foldl (\<lambda>s b. feed s [b]) s bs = feed s bs"
proof -
  have "foldl (\<lambda>s b. feed s [b]) s bs = foldl feed s (map (\<lambda>b. [b]) bs)"
    by (induction bs arbitrary: s) simp_all
  then show ?thesis using assms by (simp add: feed_chunks)
qed

end

section \<open>Bounded queues\<close>

datatype 'a fifo_op = Enq 'a | Deq

text \<open>
  A history of a queue: an \<open>Enq\<close> on a full queue and a \<open>Deq\<close> on an empty one have no effect
  (the caller waits or is refused). The result is the last state, what was accepted and what was
  delivered.
\<close>

fun fifo_run :: "nat \<Rightarrow> ('q \<Rightarrow> nat) \<Rightarrow> ('a \<Rightarrow> 'q \<Rightarrow> 'q) \<Rightarrow> ('q \<Rightarrow> 'a \<times> 'q) \<Rightarrow> 'a fifo_op list \<Rightarrow> 'q
    \<Rightarrow> 'q \<times> 'a list \<times> 'a list" where
  "fifo_run cap sz enq deq [] q = (q, [], [])"
| "fifo_run cap sz enq deq (Enq x # ops) q =
     (if sz q < cap
      then (let (q', acc, del) = fifo_run cap sz enq deq ops (enq x q) in (q', x # acc, del))
      else fifo_run cap sz enq deq ops q)"
| "fifo_run cap sz enq deq (Deq # ops) q =
     (if sz q = 0 then fifo_run cap sz enq deq ops q
      else (let (x, q1) = deq q; (q', acc, del) = fifo_run cap sz enq deq ops q1 in (q', acc, x # del)))"

locale bounded_fifo =
  fixes inv :: "'q \<Rightarrow> bool"
    and contents :: "'q \<Rightarrow> 'a list"
    and size_of :: "'q \<Rightarrow> nat"
    and cap :: nat
    and enq :: "'a \<Rightarrow> 'q \<Rightarrow> 'q"
    and deq :: "'q \<Rightarrow> 'a \<times> 'q"
  assumes size_contents: "inv q \<Longrightarrow> size_of q = length (contents q)"
    and size_bound: "inv q \<Longrightarrow> size_of q \<le> cap"
    and enq_inv: "inv q \<Longrightarrow> size_of q < cap \<Longrightarrow> inv (enq x q)"
    and enq_contents: "inv q \<Longrightarrow> size_of q < cap \<Longrightarrow> contents (enq x q) = contents q @ [x]"
    and deq_inv: "inv q \<Longrightarrow> 0 < size_of q \<Longrightarrow> inv (snd (deq q))"
    and deq_contents: "inv q \<Longrightarrow> 0 < size_of q \<Longrightarrow> contents q = fst (deq q) # contents (snd (deq q))"
begin

lemma run_inv: "inv q \<Longrightarrow> inv (fst (fifo_run cap size_of enq deq ops q))"
proof (induction ops arbitrary: q)
  case Nil
  then show ?case by simp
next
  case (Cons op ops)
  show ?case
  proof (cases op)
    case (Enq x)
    with Cons show ?thesis
      by (simp add: enq_inv split_def Let_def)
  next
    case Deq
    with Cons deq_inv [of q] show ?thesis
      by (simp add: split_def Let_def)
  qed
qed

lemma run_conserves:
  "inv q \<Longrightarrow> fifo_run cap size_of enq deq ops q = (q', acc, del) \<Longrightarrow> del @ contents q' = contents q @ acc"
proof (induction ops arbitrary: q acc del)
  case Nil
  then show ?case by simp
next
  case (Cons op ops)
  show ?case
  proof (cases op)
    case (Enq x)
    with Cons.prems Cons.IH [of "enq x q"] Cons.IH [of q] show ?thesis
      by (auto simp: enq_inv enq_contents split: if_splits prod.splits)
  next
    case Deq
    show ?thesis
    proof (cases "size_of q = 0")
      case True
      with Cons Deq show ?thesis by simp
    next
      case False
      obtain x q1 where d: "deq q = (x, q1)" by (cases "deq q")
      obtain acc1 del1 where r: "fifo_run cap size_of enq deq ops q1 = (q', acc1, del1)"
        and eqs: "acc = acc1" "del = x # del1"
        using Cons.prems(2) Deq False d by (auto split: prod.splits)
      have "inv q1" using Cons.prems(1) False deq_inv [of q] d by simp
      from Cons.IH [OF this r] show ?thesis
        using deq_contents [of q] Cons.prems(1) False d eqs by simp
    qed
  qed
qed

end

end
