(* ===== verification/Crc16.thy ===== *)
theory Crc16
  imports CBase
begin

unbundle bit_operations_syntax

text \<open>
  \<^verbatim>\<open>common/crc16.c\<close>: the CRC-16/CCITT-FALSE of a byte buffer. \<open>crc16_shift\<close> is one turn of the
  inner loop (one bit), \<open>crc16_byte\<close> one turn of the outer loop (one byte) and
  \<open>crc16_ccitt_false\<close> the function with its NULL check. The lemmas: the CRC can be computed
  incrementally, each step is a bijection of the register and linear, so every corruption
  confined to one byte or to two neighbouring bytes changes the CRC.
\<close>

definition crc16_shift :: "u16 \<Rightarrow> u16" where
  "crc16_shift crc =
     (if crc AND 0x8000 \<noteq> 0 then push_bit 1 crc XOR 0x1021 else push_bit 1 crc)"

definition crc16_byte :: "u16 \<Rightarrow> char \<Rightarrow> u16" where
  "crc16_byte crc b = (crc16_shift ^^ 8) (crc XOR push_bit 8 (of_char b))"

definition crc16_bytes :: "u16 \<Rightarrow> string \<Rightarrow> u16" where
  "crc16_bytes crc bs = foldl crc16_byte crc bs"

definition crc16_ccitt_false :: "string option \<Rightarrow> nat \<Rightarrow> u16" where
  "crc16_ccitt_false data n =
     (case data of
        None \<Rightarrow> (if n \<noteq> 0 then 0 else 0xFFFF)
      | Some bs \<Rightarrow> crc16_bytes 0xFFFF (take n bs))"

section \<open>Incremental computation\<close>

lemma crc16_bytes_Nil: "crc16_bytes crc [] = crc"
  and crc16_bytes_Cons: "crc16_bytes crc (b # bs) = crc16_bytes (crc16_byte crc b) bs"
  by (simp_all add: crc16_bytes_def)

lemmas crc16_bytes_simps = crc16_bytes_Nil crc16_bytes_Cons

lemma crc16_bytes_append: "crc16_bytes crc (xs @ ys) = crc16_bytes (crc16_bytes crc xs) ys"
  by (simp add: crc16_bytes_def)

section \<open>The step is a linear bijection of the register\<close>

lemma bit_poly: "bit (0x1021 :: u16) n \<longleftrightarrow> n = 0 \<or> n = 5 \<or> n = 12"
proof (cases "n < 16")
  case True
  then have "n \<in> {..<16}" by simp
  then have "n \<in> set [0..<16]" by auto
  moreover have "list_all (\<lambda>n. bit (0x1021 :: u16) n \<longleftrightarrow> n = 0 \<or> n = 5 \<or> n = 12) [0..<16]"
    by (simp add: upt_rec)
  ultimately show ?thesis by (simp only: list_all_iff)
next
  case False
  then show ?thesis by (auto dest: bit_imp_le_length)
qed

lemma top_bit: "crc AND 0x8000 \<noteq> 0 \<longleftrightarrow> bit (crc :: u16) 15"
  using and_exp_eq_0_iff_not_bit [of crc 15] by simp

lemma bit_push_bit1: "bit (push_bit 1 (x :: u16)) n \<longleftrightarrow> 0 < n \<and> n < 16 \<and> bit x (n - 1)"
  by (simp only: bit_push_bit_iff) auto

text \<open>One bit of the shifted register, in terms of the bits before.\<close>

lemma bit_crc16_shift:
  "bit (crc16_shift x) n \<longleftrightarrow>
     n < 16 \<and> ((0 < n \<and> bit x (n - 1)) \<noteq> (bit x 15 \<and> (n = 0 \<or> n = 5 \<or> n = 12)))"
proof (cases "bit x 15")
  case True
  then have "crc16_shift x = push_bit 1 x XOR 0x1021"
    by (simp only: crc16_shift_def top_bit if_True)
  then show ?thesis by (simp only: bit_xor_iff bit_push_bit1 bit_poly) (use True in auto)
next
  case False
  then have "crc16_shift x = push_bit 1 x"
    by (simp only: crc16_shift_def top_bit if_False)
  then show ?thesis by (simp only: bit_push_bit1) (use False in auto)
qed

lemma crc16_shift_xor: "crc16_shift (x XOR y) = crc16_shift x XOR crc16_shift y"
  by (rule bit_word_eqI) (auto simp: bit_crc16_shift bit_xor_iff)

lemma crc16_shift_inj: "crc16_shift x = crc16_shift y \<Longrightarrow> x = y"
proof (rule bit_word_eqI)
  fix n
  assume eq: "crc16_shift x = crc16_shift y" and n: "n < LENGTH(16)"
  have bits: "bit (crc16_shift x) k = bit (crc16_shift y) k" for k by (simp add: eq)
  from bits [of 0] have top: "bit x 15 = bit y 15" by (simp add: bit_crc16_shift)
  show "bit x n = bit y n"
  proof (cases "n = 15")
    case True
    with top show ?thesis by simp
  next
    case False
    with n have "Suc n < 16" by simp
    with bits [of "Suc n"] top show ?thesis by (simp add: bit_crc16_shift) blast
  qed
qed

lemma crc16_shifts_xor:
  "(crc16_shift ^^ k) (x XOR y) = (crc16_shift ^^ k) x XOR (crc16_shift ^^ k) y"
  by (induction k) (simp_all add: crc16_shift_xor)

lemma crc16_shifts_inj: "(crc16_shift ^^ k) x = (crc16_shift ^^ k) y \<Longrightarrow> x = y"
  by (induction k) (auto dest: crc16_shift_inj)

lemma crc16_shift8:
  "(crc16_shift ^^ 8) x = crc16_shift (crc16_shift (crc16_shift (crc16_shift
     (crc16_shift (crc16_shift (crc16_shift (crc16_shift x)))))))"
  by (simp add: eval_nat_numeral)

text \<open>
  A non-zero byte fed into a zero register leaves a non-zero low byte, so a second byte, which
  only reaches the high byte of the register, cannot cancel it.
\<close>

lemma crc16_low_byte:
  assumes low: "\<forall>n < 8. \<not> bit ((crc16_shift ^^ 8) (push_bit 8 d)) n" and d: "\<forall>n \<ge> 8. \<not> bit d n"
  shows "d = (0 :: u16)"
proof -
  let ?r = "(crc16_shift ^^ 8) (push_bit 8 d)"
  have b: "\<not> bit ?r 0" "\<not> bit ?r 1" "\<not> bit ?r 2" "\<not> bit ?r 3"
    "\<not> bit ?r 4" "\<not> bit ?r 5" "\<not> bit ?r 6" "\<not> bit ?r 7"
    using low by auto
  have "\<not> bit d 0 \<and> \<not> bit d 1 \<and> \<not> bit d 2 \<and> \<not> bit d 3 \<and> \<not> bit d 4 \<and> \<not> bit d 5 \<and> \<not> bit d 6 \<and> \<not> bit d 7"
    using b by (simp add: crc16_shift8 bit_crc16_shift bit_push_bit_iff)
  then have "\<not> bit d n" for n
  proof (cases "n < 8")
    case True
    then have "n \<in> {0, 1, 2, 3, 4, 5, 6, 7}" by auto
    with \<open>\<not> bit d 0 \<and> _\<close> show ?thesis by auto
  next
    case False
    with d show ?thesis by simp
  qed
  then show ?thesis by (intro bit_word_eqI) simp
qed

lemma xor_cancel: "x XOR c = y XOR c \<Longrightarrow> x = (y :: u16)"
proof (rule bit_word_eqI)
  fix n
  assume eq: "x XOR c = y XOR c"
  have "bit (x XOR c) n = bit (y XOR c) n" by (simp only: eq)
  then show "bit x n = bit y n" by (auto simp: bit_xor_iff)
qed

lemma crc16_byte_inj_reg: "crc16_byte x b = crc16_byte y b \<Longrightarrow> x = y"
  unfolding crc16_byte_def by (blast dest: crc16_shifts_inj xor_cancel)

lemma crc16_bytes_inj_reg: "crc16_bytes x bs = crc16_bytes y bs \<Longrightarrow> x = y"
  by (induction bs arbitrary: x y) (auto simp: crc16_bytes_simps dest: crc16_byte_inj_reg)

section \<open>Corruptions the CRC detects\<close>

definition char_bits :: "char \<Rightarrow> bool list" where
  "char_bits c = [digit0 c, digit1 c, digit2 c, digit3 c, digit4 c, digit5 c, digit6 c, digit7 c]"

lemma bit_of_char_iff: "bit (of_char c :: u16) n \<longleftrightarrow> n < 8 \<and> char_bits c ! n"
proof -
  have "(of_char c :: u16) = horner_sum of_bool 2 (char_bits c)"
    by (simp only: of_char_def char_bits_def)
  then have "bit (of_char c :: u16) n \<longleftrightarrow> possible_bit TYPE(u16) n \<and> n < length (char_bits c) \<and> char_bits c ! n"
    by (simp only: bit_horner_sum_bit_iff)
  then show ?thesis by (auto simp: char_bits_def)
qed

lemma bit_of_char: "bit (of_char c :: u16) n \<Longrightarrow> n < 8"
  by (simp add: bit_of_char_iff)

lemma char_bits_inj: "char_bits c = char_bits d \<Longrightarrow> c = d"
  by (cases c, cases d) (simp add: char_bits_def)

lemma of_char_u16_inj:
  assumes "(of_char c :: u16) = of_char d" shows "c = d"
proof (rule char_bits_inj, rule nth_equalityI)
  fix i
  assume "i < length (char_bits c)"
  then have "i < 8" by (simp add: char_bits_def)
  moreover have "bit (of_char c :: u16) i = bit (of_char d :: u16) i" by (simp only: assms)
  ultimately show "char_bits c ! i = char_bits d ! i" by (simp only: bit_of_char_iff) simp
qed (simp add: char_bits_def)

lemma xor_move: 
  assumes "(x XOR s) XOR b = (x XOR s') XOR b'" shows "s XOR s' = b XOR (b' :: u16)"
proof (rule bit_word_eqI)
  fix n
  have "bit ((x XOR s) XOR b) n = bit ((x XOR s') XOR b') n" by (simp only: assms)
  then show "bit (s XOR s') n = bit (b XOR b') n" by (auto simp: bit_xor_iff)
qed

lemma xor_zero: "x XOR y = 0 \<Longrightarrow> x = (y :: u16)"
proof (rule bit_word_eqI)
  fix n
  assume eq: "x XOR y = 0"
  have "bit (x XOR y) n = bit (0 :: u16) n" by (simp only: eq)
  then show "bit x n = bit y n" by (auto simp: bit_xor_iff)
qed

text \<open>
  Two pairs of bytes that drive the register from the same value to the same value are equal:
  by linearity the difference of the first bytes would be cancelled by the second.
\<close>

lemma crc16_two_bytes_inj:
  assumes "crc16_bytes r [a, b] = crc16_bytes r [a', b']"
  shows "a = a' \<and> b = b'"
proof -
  let ?d = "of_char a XOR of_char a' :: u16" and ?e = "of_char b XOR of_char b' :: u16"
  let ?S = "crc16_shift ^^ 8"
  have pushx: "push_bit 8 x XOR push_bit 8 y = push_bit 8 (x XOR y)" for x y :: u16
    by (simp add: push_bit_xor)
  from assms have "?S (r XOR push_bit 8 (of_char a)) XOR push_bit 8 (of_char b)
      = ?S (r XOR push_bit 8 (of_char a')) XOR push_bit 8 (of_char b')"
    by (auto simp: crc16_bytes_simps crc16_byte_def dest: crc16_shifts_inj)
  then have "?S (push_bit 8 (of_char a)) XOR ?S (push_bit 8 (of_char a'))
      = push_bit 8 (of_char b) XOR push_bit 8 (of_char b')"
    unfolding crc16_shifts_xor by (rule xor_move)
  then have eq: "?S (push_bit 8 ?d) = push_bit 8 ?e"
    by (simp only: crc16_shifts_xor [symmetric] pushx)
  have "?d = 0"
  proof (rule crc16_low_byte)
    show "\<forall>n < 8. \<not> bit (?S (push_bit 8 ?d)) n"
      unfolding eq by (simp only: bit_push_bit_iff) auto
    show "\<forall>n \<ge> 8. \<not> bit ?d n"
      using bit_of_char by (fastforce simp: bit_xor_iff)
  qed
  then have a: "a = a'"
    by (blast dest: xor_zero of_char_u16_inj)
  have "crc16_byte (crc16_byte r a) b = crc16_byte (crc16_byte r a) b'"
    using assms a by (simp add: crc16_bytes_simps)
  then have "push_bit 8 (of_char b :: u16) XOR crc16_byte r a = push_bit 8 (of_char b') XOR crc16_byte r a"
    unfolding crc16_byte_def [of _ b] crc16_byte_def [of _ b']
    by (metis crc16_shifts_inj xor.commute)
  then have p: "push_bit 8 (of_char b :: u16) = push_bit 8 (of_char b')"
    by (rule xor_cancel)
  have "(of_char b :: u16) = of_char b'"
  proof (rule bit_word_eqI)
    fix n
    have "bit (push_bit 8 (of_char b :: u16)) (n + 8) = bit (push_bit 8 (of_char b' :: u16)) (n + 8)"
      by (simp only: p)
    then show "bit (of_char b :: u16) n = bit (of_char b' :: u16) n"
      using bit_of_char [of b n] bit_of_char [of b' n] by (auto simp: bit_push_bit_iff)
  qed
  with a show ?thesis using of_char_u16_inj by blast
qed

text \<open>
  The detection lemma for whole buffers: two messages that agree outside two neighbouring bytes
  and have the same CRC are the same message.
\<close>

lemma crc16_burst:
  assumes "crc16_bytes r (p @ [a, b] @ s) = crc16_bytes r (p @ [a', b'] @ s)"
  shows "a = a' \<and> b = b'"
proof -
  have "crc16_bytes (crc16_bytes r p) [a, b] = crc16_bytes (crc16_bytes r p) [a', b']"
    using assms unfolding crc16_bytes_append by (rule crc16_bytes_inj_reg)
  then show ?thesis by (rule crc16_two_bytes_inj)
qed

lemma crc16_single:
  assumes "crc16_bytes r (p @ [a] @ s) = crc16_bytes r (p @ [a'] @ s)" shows "a = a'"
proof -
  have "crc16_bytes (crc16_bytes r p) [a] = crc16_bytes (crc16_bytes r p) [a']"
    using assms unfolding crc16_bytes_append by (rule crc16_bytes_inj_reg)
  then have "crc16_bytes (crc16_bytes r p) [a, NUL] = crc16_bytes (crc16_bytes r p) [a', NUL]"
    by (simp add: crc16_bytes_simps)
  then show ?thesis by (blast dest: crc16_two_bytes_inj)
qed

text \<open>The CRC of the code detects every burst error of up to two bytes: two messages of the
  same length that agree before and after two neighbouring bytes get the same CRC from
  \<open>crc16_ccitt_false\<close> only if those two bytes are equal as well, so no such corruption of a frame
  passes the check.\<close>
theorem crc16_detects_two_byte_burst:
  "crc16_ccitt_false (Some (p @ [a, b] @ s)) (length p + 2 + length s)
     = crc16_ccitt_false (Some (p @ [a', b'] @ s)) (length p + 2 + length s)
   \<longleftrightarrow> a = a' \<and> b = b'"
  using crc16_burst [of "0xFFFF" p a b s a' b'] by (auto simp: crc16_ccitt_false_def)

section \<open>Evaluation on natural numbers\<close>

text \<open>
  The same computation on \<open>nat\<close>, where the simplifier evaluates numerals fast; concrete CRCs (in
  the check value below and in the witnesses of other theories) are computed this way.
\<close>

definition crc_nat_shift :: "nat \<Rightarrow> nat" where
  "crc_nat_shift n = (if 32768 \<le> n then (2 * n - 65536) XOR 4129 else 2 * n)"

definition crc_nat_byte :: "nat \<Rightarrow> nat \<Rightarrow> nat" where
  "crc_nat_byte n b = (crc_nat_shift ^^ 8) (n XOR (256 * b))"

lemma top_bit_nat: "bit (w :: u16) 15 \<longleftrightarrow> 32768 \<le> unat w"
proof -
  have "unat w < 65536" using unsigned_less [of w, where 'a = nat] by simp
  moreover have "bit w 15 \<longleftrightarrow> bit (unat w) 15"
    by (simp add: bit_unsigned_iff)
  then have "bit w 15 \<longleftrightarrow> odd (unat w div 32768)"
    by (simp add: bit_iff_odd)
  moreover have "32768 \<le> unat w \<Longrightarrow> unat w < 65536 \<Longrightarrow> unat w div 32768 = 1"
    by (rule div_nat_eqI) simp_all
  ultimately show ?thesis by (cases "32768 \<le> unat w") simp_all
qed

lemma unat_crc16_shift: "unat (crc16_shift w) = crc_nat_shift (unat w)"
proof -
  have lt: "unat w < 65536" using unsigned_less [of w, where 'a = nat] by simp
  have push: "unat (push_bit 1 w) = (2 * unat w) mod 65536"
    by (simp add: unat_word_ariths mult.commute)
  show ?thesis
  proof (cases "bit w 15")
    case True
    then have "32768 \<le> unat w" by (simp only: top_bit_nat)
    moreover have "(2 * unat w) mod 65536 = 2 * unat w - 65536"
      using lt \<open>32768 \<le> unat w\<close> by (simp add: mod_if)
    moreover have "unat (push_bit 1 w XOR 0x1021) = unat (push_bit 1 w) XOR 4129"
      unfolding unsigned_xor_eq by simp
    ultimately show ?thesis
      using True by (simp only: crc16_shift_def top_bit crc_nat_shift_def push if_True)
  next
    case False
    then have lt2: "unat w < 32768" by (simp add: top_bit_nat)
    have "crc16_shift w = push_bit 1 w"
      using False by (simp only: crc16_shift_def top_bit if_False)
    moreover have "crc_nat_shift (unat w) = 2 * unat w"
      using lt2 by (simp add: crc_nat_shift_def)
    ultimately show ?thesis
      using lt2 by (simp only: push) simp
  qed
qed

lemma unat_crc16_shifts: "unat ((crc16_shift ^^ k) w) = (crc_nat_shift ^^ k) (unat w)"
  by (induction k) (simp_all add: unat_crc16_shift)

lemma unat_of_char: "unat (of_char c :: u16) = of_char c"
  by (cases c) (simp add: of_char_def)

lemma unat_crc16_byte: "unat (crc16_byte w c) = crc_nat_byte (unat w) (of_char c)"
proof -
  have "(of_char c :: nat) < 256" by simp
  then have "unat (push_bit 8 (of_char c :: u16)) = 256 * of_char c"
    unfolding unsigned_push_bit_eq unat_of_char by (simp add: push_bit_eq_mult take_bit_eq_mod)
  then have "unat (w XOR push_bit 8 (of_char c)) = unat w XOR (256 * of_char c)"
    by (simp only: unsigned_xor_eq)
  then show ?thesis
    by (simp only: crc16_byte_def crc_nat_byte_def unat_crc16_shifts)
qed

lemma unat_crc16_bytes: "unat (crc16_bytes w bs) = foldl crc_nat_byte (unat w) (map of_char bs)"
  by (induction bs arbitrary: w) (simp_all add: crc16_bytes_simps unat_crc16_byte)

lemma crc_nat_shift8:
  "(crc_nat_shift ^^ 8) x = crc_nat_shift (crc_nat_shift (crc_nat_shift (crc_nat_shift
     (crc_nat_shift (crc_nat_shift (crc_nat_shift (crc_nat_shift x)))))))"
  by (simp add: eval_nat_numeral)

lemma crc16_eval: "crc16_bytes 0xFFFF bs = of_nat (foldl crc_nat_byte 65535 (map of_char bs))"
proof -
  have "crc16_bytes 0xFFFF bs = of_nat (unat (crc16_bytes 0xFFFF bs))" by simp
  then show ?thesis by (simp only: unat_crc16_bytes) simp
qed

lemmas crc_compute = crc16_ccitt_false_def crc16_eval crc_nat_byte_def crc_nat_shift8 crc_nat_shift_def

lemma crc16_check_value: "crc16_ccitt_false (Some ''123456789'') 9 = 0x29B1"
  by (simp add: crc_compute)

end
