(* ===== verification/Line_Parser.thy ===== *)
theory Line_Parser
  imports Interfaces
begin

text \<open>
  \<^verbatim>\<open>common/line_parser.c\<close>: taking complete lines out of an accumulation buffer. The buffer is the
  list of its valid bytes; the callback is a function on the caller's state \<open>'u\<close> (the C
  \<open>user_data\<close>). \<open>line_parser_loop\<close> is the \<open>while\<close> loop, \<open>line_parser_feed\<close> the function with its
  argument checks. The lemmas: the loop computes exactly the \<open>LF\<close>-separated pieces of the buffer,
  and what is delivered does not depend on how the stream was cut into reads.
\<close>

definition strip_cr :: "string \<Rightarrow> string" where
  "strip_cr line = (if line \<noteq> [] \<and> last line = CR then butlast line else line)"

function line_parser_loop :: "(string \<Rightarrow> 'u \<Rightarrow> 'u) option \<Rightarrow> string \<Rightarrow> 'u \<Rightarrow> nat \<Rightarrow> string \<times> 'u \<times> nat" where
  "line_parser_loop callback buffer u n =
     (case find_index (\<lambda>c. c = LF) buffer of
        None \<Rightarrow> (buffer, u, n)
      | Some i \<Rightarrow>
          line_parser_loop callback (drop (i + 1) buffer)
            (case callback of None \<Rightarrow> u | Some f \<Rightarrow> f (strip_cr (take i buffer)) u) (n + 1))"
  by pat_completeness auto
termination
  by (relation "measure (\<lambda>(callback, buffer, u, n). length buffer)")
    (auto dest!: find_index_SomeD)

declare line_parser_loop.simps [simp del]

definition line_parser_feed :: "string option \<Rightarrow> nat \<Rightarrow> (string \<Rightarrow> 'u \<Rightarrow> 'u) option \<Rightarrow> 'u
    \<Rightarrow> string option \<times> 'u \<times> nat" where
  "line_parser_feed buffer capacity callback u =
     (case buffer of
        None \<Rightarrow> (None, u, 0)
      | Some bytes \<Rightarrow>
          if capacity = 0 then (Some bytes, u, 0)
          else (let (rest, u', n) = line_parser_loop callback bytes u 0 in (Some rest, u', n)))"

section \<open>What the loop computes\<close>

lemma find_LF_split:
  assumes "find_index (\<lambda>c. c = LF) s = Some i"
  shows "s = take i s @ LF # drop (i + 1) s" and "LF \<notin> set (take i s)"
proof -
  from find_index_SomeD [OF assms] have i: "i < length s" "s ! i = LF" "\<forall>j < i. s ! j \<noteq> LF"
    by auto
  then show "s = take i s @ LF # drop (i + 1) s"
    using id_take_nth_drop [of i s] by simp
  show "LF \<notin> set (take i s)"
    using i by (auto simp: in_set_conv_nth)
qed

definition line_call :: "(string \<Rightarrow> 'u \<Rightarrow> 'u) option \<Rightarrow> string \<Rightarrow> 'u \<Rightarrow> 'u" where
  "line_call callback line u = (case callback of None \<Rightarrow> u | Some f \<Rightarrow> f (strip_cr line) u)"

lemma line_parser_loop_pieces:
  "line_parser_loop callback s u n =
     (last (split_on LF s),
      fold (line_call callback) (butlast (split_on LF s)) u,
      n + length (butlast (split_on LF s)))"
proof (induction callback s u n rule: line_parser_loop.induct)
  case (1 callback s u n)
  show ?case
  proof (cases "find_index (\<lambda>c. c = LF) s")
    case None
    then have "split_on LF s = [s]" by (intro split_on_none) (auto simp: find_index_None)
    with None show ?thesis by (simp add: line_parser_loop.simps [of _ s])
  next
    case (Some i)
    have sp: "split_on LF s = take i s # split_on LF (drop (i + 1) s)"
      by (subst find_LF_split(1) [OF Some]) (rule split_on_append [OF find_LF_split(2) [OF Some]])
    show ?thesis
      unfolding sp using "1.IH" [OF Some] Some
      by (simp add: line_parser_loop.simps [of _ s] line_call_def)
  qed
qed

text \<open>What every call of the callback keeps, a feed keeps.\<close>

lemma line_parser_feed_keeps:
  assumes "\<And>l u. P u \<Longrightarrow> P (callback l u)" "P u"
  shows "P (fst (snd (line_parser_feed data capacity (Some callback) u)))"
proof -
  have "P (fold (line_call (Some callback)) ls u)" for ls
    using assms(2) by (induction ls arbitrary: u) (simp_all add: assms(1) line_call_def)
  then show ?thesis
    using assms(2) by (simp add: line_parser_feed_def line_parser_loop_pieces split: option.split)
qed

lemma line_parser_rest_length:
  "length (the (fst (line_parser_feed (Some s) capacity callback u))) \<le> length s"
proof -
  have "length (last (split_on LF s)) \<le> length s"
    by (induction s) (auto simp: last_tl split: list.split)
  then show ?thesis by (simp add: line_parser_feed_def line_parser_loop_pieces)
qed

lemma line_parser_rest_no_LF: "LF \<notin> set (fst (line_parser_loop callback s u n))"
proof -
  have "last (split_on LF s) \<in> set (split_on LF s)" by (rule last_in_set) simp
  from split_on_parts [OF this] show ?thesis by (auto simp: line_parser_loop_pieces)
qed

lemma split_on_snoc_pieces:
  "split_on d (s @ t) = butlast (split_on d s) @ split_on d (last (split_on d s) @ t)"
proof (induction s)
  case Nil
  then show ?case by simp
next
  case (Cons c s)
  show ?case
  proof (cases "c = d")
    case True
    with Cons show ?thesis by simp
  next
    case False
    then show ?thesis
      using Cons by (cases "split_on d s"; cases "tl (split_on d s)") auto
  qed
qed

lemma line_parser_loop_append:
  "line_parser_loop callback (s @ t) u n =
     (let (rest, u', n') = line_parser_loop callback s u n
      in line_parser_loop callback (rest @ t) u' n')"
  by (simp add: line_parser_loop_pieces split_on_snoc_pieces [of LF s t] butlast_append)

section \<open>Independence of the chunking\<close>

text \<open>
  The state of a receiver: the unconsumed bytes, the caller's state and the number of lines
  delivered so far. A read appends its bytes and calls the parser.
\<close>

fun line_receive :: "(string \<Rightarrow> 'u \<Rightarrow> 'u) option \<Rightarrow> string \<times> 'u \<times> nat \<Rightarrow> string \<Rightarrow> string \<times> 'u \<times> nat" where
  "line_receive callback (buffer, u, n) bytes = line_parser_loop callback (buffer @ bytes) u n"

definition line_ready :: "string \<times> 'u \<times> nat \<Rightarrow> bool" where
  "line_ready s = (LF \<notin> set (fst s))"

interpretation line_stream: chunked line_ready "line_receive callback"
  for callback :: "(string \<Rightarrow> 'u \<Rightarrow> 'u) option"
proof
  fix s :: "string \<times> 'u \<times> nat" and xs ys
  obtain b u n where s: "s = (b, u, n)" by (cases s)
  show "line_ready (line_receive callback s xs)"
    using line_parser_rest_no_LF [of callback "b @ xs" u n] by (simp add: s line_ready_def)
  show "line_receive callback s (xs @ ys) = line_receive callback (line_receive callback s xs) ys"
    using line_parser_loop_append [of callback "b @ xs" ys u n] by (simp add: s split_def Let_def
      flip: append_assoc) (metis line_receive.simps prod.collapse)
  assume "line_ready s"
  then have "find_index (\<lambda>c. c = LF) b = None" by (auto simp: s line_ready_def find_index_None)
  then show "line_receive callback s [] = s"
    by (simp add: s line_parser_loop.simps)
qed

text \<open>\<open>line_parser_feed\<close> delivers exactly the complete lines of the buffer: it calls the callback
  once per line feed, in order, with the bytes before it less one trailing carriage return, keeps
  exactly the unterminated rest in the buffer and returns the number of lines. A NULL buffer or a
  zero capacity leaves everything unchanged and returns 0.\<close>
theorem line_parser_feed_spec:
  "line_parser_feed buffer capacity callback u =
     (case buffer of
        None \<Rightarrow> (None, u, 0)
      | Some bytes \<Rightarrow>
          if capacity = 0 then (Some bytes, u, 0)
          else (Some (last (split_on LF bytes)),
                fold (\<lambda>line v. case callback of None \<Rightarrow> v | Some f \<Rightarrow> f (strip_cr line) v)
                  (butlast (split_on LF bytes)) u,
                length (split_on LF bytes) - 1))"
proof -
  have "line_call callback = (\<lambda>line v. case callback of None \<Rightarrow> v | Some f \<Rightarrow> f (strip_cr line) v)"
    by (intro ext) (simp add: line_call_def)
  then show ?thesis
    by (simp add: line_parser_feed_def line_parser_loop_pieces split: option.split)
qed

text \<open>What the receivers built on the line parser deliver does not depend on how TCP cut the byte
  stream into reads: two sequences of reads with the same concatenation leave the same rest, the
  same caller state and the same line count.\<close>
theorem line_receive_chunking:
  assumes "LF \<notin> set buffer" and "concat reads = concat reads'"
  shows "foldl (line_receive callback) (buffer, u, n) reads
       = foldl (line_receive callback) (buffer, u, n) reads'"
  using assms by (intro line_stream.chunking_irrelevant) (simp add: line_ready_def)

theorem line_receive_chunking_witness:
  "foldl (line_receive (Some (\<lambda>l ls. ls @ [l]))) ([], [], 0) [''ab'', [LF], ''c'']
     = foldl (line_receive (Some (\<lambda>l ls. ls @ [l]))) ([], [], 0) [''a'', ''b'' @ [LF] @ ''c'']"
  using line_receive_chunking [of "[]" "[''ab'', [LF], ''c'']" "[''a'', ''b'' @ [LF] @ ''c'']"]
  by simp

end
