(* ===== verification/Frame.thy ===== *)
theory Frame
  imports Crc16
begin

text \<open>
  \<^verbatim>\<open>common/frame.c\<close>, \<^verbatim>\<open>common/frame.h\<close>: building the frames that travel over the serial link,
  \<open>@<payload>*<CRC>\r\n\<close>. A C string argument is an \<open>option\<close> (\<open>None\<close> for NULL), the output buffer
  is the C string in it and is passed in and returned. The functions return the length of the
  frame (\<open>Inr\<close>) or an error code (\<open>Inl\<close>). The lemmas: exactly when a frame is built, which
  frame that is, which error is reported otherwise, and what the output buffer then holds.
\<close>

section \<open>Key-value fields and device types\<close>

record frame_kv =
  kv_key :: string
  kv_value :: string

datatype frame_error = FRAME_ERR_PARAM | FRAME_ERR_TOO_LONG | FRAME_ERR_NODE_ID

datatype frame_device_type =
  FRAME_DEVICE_UNKNOWN | FRAME_DEVICE_THSENSOR | FRAME_DEVICE_RELAY | FRAME_DEVICE_MOTOR

definition FRAME_MAX_LEN :: nat where "FRAME_MAX_LEN = 256"
definition FRAME_KV_KEY_MAX :: nat where "FRAME_KV_KEY_MAX = 16"
definition FRAME_KV_VALUE_MAX :: nat where "FRAME_KV_VALUE_MAX = 32"
definition FRAME_DATA_MAX_FIELDS :: nat where "FRAME_DATA_MAX_FIELDS = 16"

lemmas frame_consts = FRAME_MAX_LEN_def FRAME_KV_KEY_MAX_def FRAME_KV_VALUE_MAX_def
  FRAME_DATA_MAX_FIELDS_def

definition frame_device_type_from_text :: "string option \<Rightarrow> frame_device_type" where
  "frame_device_type_from_text text =
     (case text of
        None \<Rightarrow> FRAME_DEVICE_UNKNOWN
      | Some s \<Rightarrow>
          if s = ''1'' then FRAME_DEVICE_THSENSOR
          else if s = ''2'' then FRAME_DEVICE_RELAY
          else if s = ''3'' then FRAME_DEVICE_MOTOR
          else FRAME_DEVICE_UNKNOWN)"

fun frame_device_type_name :: "frame_device_type \<Rightarrow> string" where
  "frame_device_type_name FRAME_DEVICE_THSENSOR = ''THSENSOR''"
| "frame_device_type_name FRAME_DEVICE_RELAY = ''RELAY''"
| "frame_device_type_name FRAME_DEVICE_MOTOR = ''MOTOR''"
| "frame_device_type_name FRAME_DEVICE_UNKNOWN = ''UNKNOWN''"

section \<open>Reserved characters\<close>

definition id_char_ok :: "char \<Rightarrow> bool" where
  "id_char_ok c = (c \<noteq> CHR ''@'' \<and> c \<noteq> CHR ''*'' \<and> c \<noteq> CHR '','' \<and> c \<noteq> CR \<and> c \<noteq> LF)"

definition field_char_ok :: "char \<Rightarrow> bool" where
  "field_char_ok c =
     (c \<noteq> CHR ''@'' \<and> c \<noteq> CHR ''*'' \<and> c \<noteq> CHR '','' \<and> c \<noteq> CHR ''='' \<and> c \<noteq> CR \<and> c \<noteq> LF)"

definition node_id_is_valid :: "string option \<Rightarrow> bool" where
  "node_id_is_valid node_id =
     (case node_id of None \<Rightarrow> False | Some s \<Rightarrow> s \<noteq> [] \<and> list_all id_char_ok s)"

definition field_text_is_valid :: "string option \<Rightarrow> bool" where
  "field_text_is_valid text =
     (case text of None \<Rightarrow> False | Some s \<Rightarrow> s \<noteq> [] \<and> list_all field_char_ok s)"

section \<open>Building a frame\<close>

text \<open>The loop that appends the \<open>,KEY=VALUE\<close> fields to the \<open>crc_data\<close> written so far.\<close>

fun append_fields :: "frame_kv list \<Rightarrow> string \<Rightarrow> frame_error + string" where
  "append_fields [] crc_data = Inr crc_data"
| "append_fields (f # fs) crc_data =
     (let key = kv_key f; value = kv_value f; pos = length crc_data in
      if key = [] \<or> value = [] \<or> \<not> field_text_is_valid (Some key) \<or> \<not> field_text_is_valid (Some value)
      then Inl FRAME_ERR_PARAM
      else if FRAME_MAX_LEN \<le> pos then Inl FRAME_ERR_TOO_LONG
      else (let (stored, written) = snprintf (FRAME_MAX_LEN - pos) ('','' @ key @ ''='' @ value) in
            if FRAME_MAX_LEN - pos \<le> written then Inl FRAME_ERR_TOO_LONG
            else append_fields fs (crc_data @ stored)))"

text \<open>The last step of both builders: the CRC of the data, then the whole frame into \<open>out\<close>.\<close>

definition finish_frame :: "nat \<Rightarrow> string \<Rightarrow> (frame_error + nat) \<times> string option" where
  "finish_frame out_size crc_data =
     (let crc = crc16_ccitt_false (Some crc_data) (length crc_data);
          (stored, frame_len) =
            snprintf out_size (''@'' @ crc_data @ ''*'' @ print_04X crc @ [CR, LF])
      in if out_size \<le> frame_len then (Inl FRAME_ERR_TOO_LONG, Some [])
         else (Inr frame_len, Some stored))"

definition build_kv_frame :: "string option \<Rightarrow> nat \<Rightarrow> string option \<Rightarrow> u32 \<Rightarrow> string
    \<Rightarrow> frame_kv list option \<Rightarrow> nat \<Rightarrow> (frame_error + nat) \<times> string option" where
  "build_kv_frame out out_size node_id sequence type kvs field_count =
     (if out = None \<or> out_size = 0 \<or> node_id = None then (Inl FRAME_ERR_PARAM, out)
      else if kvs = None \<and> 0 < field_count then (Inl FRAME_ERR_PARAM, out)
      else if FRAME_DATA_MAX_FIELDS < field_count then (Inl FRAME_ERR_PARAM, out)
      else if \<not> node_id_is_valid node_id then (Inl FRAME_ERR_NODE_ID, Some [])
      else
        (let sequence' = sequence mod 1000000;
             (crc_data, pos) = snprintf FRAME_MAX_LEN
               (''1,'' @ the node_id @ '','' @ print_06u (unat sequence') @ '','' @ type)
         in if FRAME_MAX_LEN \<le> pos then (Inl FRAME_ERR_TOO_LONG, Some [])
            else (case append_fields (take field_count (case kvs of None \<Rightarrow> [] | Some fs \<Rightarrow> fs)) crc_data of
                    Inl e \<Rightarrow> (Inl e, Some [])
                  | Inr crc_data' \<Rightarrow> finish_frame out_size crc_data')))"

definition frame_build_data_kv :: "string option \<Rightarrow> nat \<Rightarrow> string option \<Rightarrow> u32
    \<Rightarrow> frame_kv list option \<Rightarrow> nat \<Rightarrow> (frame_error + nat) \<times> string option" where
  "frame_build_data_kv out out_size node_id sequence kvs field_count =
     build_kv_frame out out_size node_id sequence ''DATA'' kvs field_count"

definition frame_build_data :: "string option \<Rightarrow> nat \<Rightarrow> string option \<Rightarrow> u32 \<Rightarrow> int \<Rightarrow> int
    \<Rightarrow> (frame_error + nat) \<times> string option" where
  "frame_build_data out out_size node_id sequence temperature_x10 humidity_x10 =
     frame_build_data_kv out out_size node_id sequence
       (Some [\<lparr>kv_key = ''T'', kv_value = print_d temperature_x10\<rparr>,
              \<lparr>kv_key = ''H'', kv_value = print_d humidity_x10\<rparr>]) 2"

definition frame_build_command_kv :: "string option \<Rightarrow> nat \<Rightarrow> string option \<Rightarrow> u32
    \<Rightarrow> frame_kv list option \<Rightarrow> nat \<Rightarrow> (frame_error + nat) \<times> string option" where
  "frame_build_command_kv out out_size sender sequence kvs field_count =
     build_kv_frame out out_size sender sequence ''CMD'' kvs field_count"

definition frame_build_command :: "string option \<Rightarrow> nat \<Rightarrow> string option \<Rightarrow> u32 \<Rightarrow> int
    \<Rightarrow> (frame_error + nat) \<times> string option" where
  "frame_build_command out out_size sender sequence led_value =
     frame_build_command_kv out out_size sender sequence
       (Some [\<lparr>kv_key = ''LED'', kv_value = print_d led_value\<rparr>]) 1"

definition frame_build_ack_kv :: "string option \<Rightarrow> nat \<Rightarrow> string option \<Rightarrow> u32
    \<Rightarrow> frame_kv list option \<Rightarrow> nat \<Rightarrow> (frame_error + nat) \<times> string option" where
  "frame_build_ack_kv out out_size node_id sequence kvs field_count =
     build_kv_frame out out_size node_id sequence ''ACK'' kvs field_count"

definition frame_build_ack :: "string option \<Rightarrow> nat \<Rightarrow> string option \<Rightarrow> u32 \<Rightarrow> int
    \<Rightarrow> (frame_error + nat) \<times> string option" where
  "frame_build_ack out out_size node_id sequence led_value =
     frame_build_ack_kv out out_size node_id sequence
       (Some [\<lparr>kv_key = ''LED'', kv_value = print_d led_value\<rparr>]) 1"

definition frame_build_nack :: "string option \<Rightarrow> nat \<Rightarrow> string option \<Rightarrow> u32 \<Rightarrow> string option
    \<Rightarrow> (frame_error + nat) \<times> string option" where
  "frame_build_nack out out_size node_id sequence error =
     (if out = None \<or> out_size = 0 \<or> node_id = None \<or> error = None then (Inl FRAME_ERR_PARAM, out)
      else if \<not> node_id_is_valid node_id then (Inl FRAME_ERR_NODE_ID, Some [])
      else if \<not> node_id_is_valid error then (Inl FRAME_ERR_PARAM, Some [])
      else
        (let sequence' = sequence mod 1000000;
             (crc_nack, crc_nack_len) = snprintf FRAME_MAX_LEN
               (''1,'' @ the node_id @ '','' @ print_06u (unat sequence') @ '',NACK,ERR='' @ the error)
         in if FRAME_MAX_LEN \<le> crc_nack_len then (Inl FRAME_ERR_TOO_LONG, Some [])
            else finish_frame out_size crc_nack))"

section \<open>What the builders produce\<close>

text \<open>
  The format itself: the payload of a key-value frame, the payload of a NACK frame, and the
  frame around a payload.
\<close>

definition kv_text :: "frame_kv \<Rightarrow> string" where
  "kv_text f = kv_key f @ ''='' @ kv_value f"

definition kv_payload :: "string \<Rightarrow> nat \<Rightarrow> string \<Rightarrow> frame_kv list \<Rightarrow> string" where
  "kv_payload node_id sequence type kvs =
     ''1,'' @ node_id @ '','' @ print_06u sequence @ '','' @ type @ concat (map (\<lambda>f. '','' @ kv_text f) kvs)"

definition nack_payload :: "string \<Rightarrow> nat \<Rightarrow> string \<Rightarrow> string" where
  "nack_payload node_id sequence error =
     ''1,'' @ node_id @ '','' @ print_06u sequence @ '',NACK,ERR='' @ error"

definition frame_of :: "string \<Rightarrow> string" where
  "frame_of payload = ''@'' @ payload @ ''*'' @ print_04X (crc16_bytes 0xFFFF payload) @ [CR, LF]"

definition field_ok :: "frame_kv \<Rightarrow> bool" where
  "field_ok f = (field_text_is_valid (Some (kv_key f)) \<and> field_text_is_valid (Some (kv_value f)))"

lemma length_print_04X [simp]: "length (print_04X w) = 4"
  by (simp add: print_04X_def Let_def)

lemma length_frame_of [simp]: "length (frame_of p) = length p + 8"
  by (simp add: frame_of_def)

lemma snprintf_fits: "length s < n \<Longrightarrow> snprintf n s = (s, length s)"
  by (simp add: snprintf_def)

lemma finish_frame_eq:
  "finish_frame out_size p =
     (if length p + 8 < out_size then (Inr (length p + 8), Some (frame_of p))
      else (Inl FRAME_ERR_TOO_LONG, Some []))"
  by (simp add: finish_frame_def snprintf_def Let_def crc16_ccitt_false_def frame_of_def)

text \<open>The fields are appended in order: the first one that is not well formed ends the loop with
  \<open>FRAME_ERR_PARAM\<close>, unless the buffer was full before it.\<close>

lemma append_fields_Cons:
  "length crc_data < FRAME_MAX_LEN \<Longrightarrow>
   append_fields (f # fs) crc_data =
     (if \<not> field_ok f then Inl FRAME_ERR_PARAM
      else if FRAME_MAX_LEN \<le> length (crc_data @ '','' @ kv_text f) then Inl FRAME_ERR_TOO_LONG
      else append_fields fs (crc_data @ '','' @ kv_text f))"
  by (auto simp: snprintf_def Let_def kv_text_def field_ok_def field_text_is_valid_def)

lemma append_fields_eq:
  "length crc_data < FRAME_MAX_LEN \<Longrightarrow>
   append_fields fs crc_data =
     (if FRAME_MAX_LEN \<le> length (crc_data @ concat (map (\<lambda>f. '','' @ kv_text f) (takeWhile field_ok fs)))
      then Inl FRAME_ERR_TOO_LONG
      else if \<not> list_all field_ok fs then Inl FRAME_ERR_PARAM
      else Inr (crc_data @ concat (map (\<lambda>f. '','' @ kv_text f) fs)))"
proof (induction fs arbitrary: crc_data)
  case Nil
  then show ?case by simp
next
  case (Cons f fs)
  then show ?case
    by (simp add: append_fields_Cons Cons.IH [of "crc_data @ '','' @ kv_text f"] del: append_fields.simps)
qed

lemma takeWhile_list_all: "list_all P xs \<Longrightarrow> takeWhile P xs = xs"
  by (simp add: list_all_iff takeWhile_eq_all_conv)

lemma append_fields_Inr:
  "length crc_data < FRAME_MAX_LEN \<Longrightarrow>
   append_fields fs crc_data = Inr r \<longleftrightarrow>
     list_all field_ok fs \<and> r = crc_data @ concat (map (\<lambda>f. '','' @ kv_text f) fs)
     \<and> length r < FRAME_MAX_LEN"
  by (auto simp: append_fields_eq takeWhile_list_all)

lemma build_kv_frame_valid:
  assumes "0 < out_size" "length fs \<le> FRAME_DATA_MAX_FIELDS" "node_id_is_valid (Some i)"
  shows "build_kv_frame (Some old) out_size (Some i) sequence type (Some fs) (length fs) =
     (let p = kv_payload i (unat (sequence mod 1000000)) type [] in
      if FRAME_MAX_LEN \<le> length p then (Inl FRAME_ERR_TOO_LONG, Some [])
      else case append_fields fs p of Inl e \<Rightarrow> (Inl e, Some []) | Inr r \<Rightarrow> finish_frame out_size r)"
  using assms by (auto simp: build_kv_frame_def kv_payload_def snprintf_def Let_def split: sum.splits)

lemma kv_payload_append:
  "kv_payload i n type fs = kv_payload i n type [] @ concat (map (\<lambda>f. '','' @ kv_text f) fs)"
  by (simp add: kv_payload_def)

lemma build_kv_frame_Inr:
  "build_kv_frame (Some old) out_size (Some i) sequence type (Some fs) (length fs) = (Inr n, out) \<longleftrightarrow>
     (let p = kv_payload i (unat (sequence mod 1000000)) type fs in
      length fs \<le> FRAME_DATA_MAX_FIELDS \<and> node_id_is_valid (Some i) \<and> list_all field_ok fs
      \<and> length p < FRAME_MAX_LEN \<and> length p + 8 < out_size \<and> n = length p + 8 \<and> out = Some (frame_of p))"
proof (cases "0 < out_size \<and> length fs \<le> FRAME_DATA_MAX_FIELDS \<and> node_id_is_valid (Some i)")
  case True
  define h where "h = kv_payload i (unat (sequence mod 1000000)) type []"
  have p: "kv_payload i (unat (sequence mod 1000000)) type fs = h @ concat (map (\<lambda>f. '','' @ kv_text f) fs)"
    unfolding h_def by (rule kv_payload_append)
  note b = build_kv_frame_valid [of out_size fs i old sequence type, folded h_def]
  show ?thesis
  proof (cases "length h < FRAME_MAX_LEN")
    case False
    with True show ?thesis by (simp add: b p)
  next
    case lt: True
    show ?thesis
    proof (cases "append_fields fs h")
      case (Inl e)
      then have "\<not> (list_all field_ok fs \<and> length (h @ concat (map (\<lambda>f. '','' @ kv_text f) fs)) < FRAME_MAX_LEN)"
        using append_fields_Inr [OF lt, of fs] by auto
      with True lt Inl show ?thesis by (auto simp: b p)
    next
      case (Inr r)
      then have "list_all field_ok fs \<and> r = h @ concat (map (\<lambda>f. '','' @ kv_text f) fs) \<and> length r < FRAME_MAX_LEN"
        using append_fields_Inr [OF lt, of fs] by auto
      with True lt Inr show ?thesis by (auto simp: b p finish_frame_eq)
    qed
  qed
next
  case False
  then show ?thesis by (auto simp: build_kv_frame_def Let_def)
qed

lemma frame_build_nack_Inr:
  "frame_build_nack (Some old) out_size (Some i) sequence (Some error) = (Inr n, out) \<longleftrightarrow>
     (let p = nack_payload i (unat (sequence mod 1000000)) error in
      node_id_is_valid (Some i) \<and> node_id_is_valid (Some error)
      \<and> length p < FRAME_MAX_LEN \<and> length p + 8 < out_size \<and> n = length p + 8 \<and> out = Some (frame_of p))"
  by (auto simp: frame_build_nack_def nack_payload_def snprintf_def finish_frame_eq Let_def)

text \<open>C21: What \<open>build_kv_frame\<close>, the shared builder of DATA, CMD and ACK frames, returns and leaves in
  \<open>out\<close> for all arguments that are not NULL, errors included and in the order of the checks: a size of 0
  or more than 16 fields is refused with \<open>FRAME_ERR_PARAM\<close> and \<open>out\<close> is not touched; an invalid id
  is \<open>FRAME_ERR_NODE_ID\<close>; if the payload reaches 256 bytes in front of the first field whose key or
  value is empty or has a reserved character, it is \<open>FRAME_ERR_TOO_LONG\<close>; such a field otherwise is
  \<open>FRAME_ERR_PARAM\<close>; a frame that does not fit \<open>out\<close> with its NUL is \<open>FRAME_ERR_TOO_LONG\<close>; each of these
  empties \<open>out\<close>. Otherwise the result is the length of the frame and \<open>out\<close> holds
  \<open>@<payload>*<CRC>\r\n\<close>, with the sequence number reduced modulo 10^6.\<close>
theorem build_kv_frame_spec:
  "build_kv_frame (Some old) out_size (Some i) sequence type (Some fs) (length fs) =
     (let payload = kv_payload i (unat (sequence mod 1000000)) type in
      if out_size = 0 \<or> 16 < length fs then (Inl FRAME_ERR_PARAM, Some old)
      else if \<not> node_id_is_valid (Some i) then (Inl FRAME_ERR_NODE_ID, Some [])
      else if 256 \<le> length (payload (takeWhile field_ok fs)) then (Inl FRAME_ERR_TOO_LONG, Some [])
      else if \<not> list_all field_ok fs then (Inl FRAME_ERR_PARAM, Some [])
      else if out_size \<le> length (payload fs) + 8 then (Inl FRAME_ERR_TOO_LONG, Some [])
      else (Inr (length (payload fs) + 8), Some (frame_of (payload fs))))"
proof (cases "0 < out_size \<and> length fs \<le> FRAME_DATA_MAX_FIELDS \<and> node_id_is_valid (Some i)")
  case True
  define h where "h = kv_payload i (unat (sequence mod 1000000)) type []"
  have p: "kv_payload i (unat (sequence mod 1000000)) type kvs = h @ concat (map (\<lambda>f. '','' @ kv_text f) kvs)" for kvs
    unfolding h_def by (rule kv_payload_append)
  note b = build_kv_frame_valid [of out_size fs i old sequence type, folded h_def]
  show ?thesis
  proof (cases "length h < FRAME_MAX_LEN")
    case True
    with \<open>0 < out_size \<and> _\<close> show ?thesis
      by (simp add: b p append_fields_eq finish_frame_eq takeWhile_list_all frame_consts del: length_concat)
  next
    case False
    with \<open>0 < out_size \<and> _\<close> show ?thesis by (simp add: b p frame_consts)
  qed
next
  case False
  then show ?thesis by (auto simp: build_kv_frame_def Let_def frame_consts)
qed

end
