(* ===== verification/Frame_Parser.thy ===== *)
theory Frame_Parser
  imports Frame Interfaces
begin

text \<open>
  \<^verbatim>\<open>common/frame_parser.c\<close>, \<^verbatim>\<open>common/frame_parser.h\<close> and the message structs of \<^verbatim>\<open>common/frame.h\<close>: the
  byte state machine that finds frames in the serial stream and checks their CRC, and the decoders
  of the frame payload. The buffer is the list of its valid bytes (\<open>buffer[0..length)\<close>), the
  callback a function on the caller's state. \<open>frame_parser_byte\<close> is one turn of the loop of
  \<open>frame_parser_feed\<close>. The arrays \<open>fields[0..field_count)\<close> of the message structs are lists.

  The lemmas: the parser's invariant, independence of the chunking, resynchronisation after any
  garbage, what is delivered is exactly what was framed, corrupted payloads are refused, and the
  decoders invert the builders.
\<close>

section \<open>Data\<close>

record parsed_frame =
  raw :: string
  payload :: string
  received_crc :: u16
  calculated_crc :: u16

record frame_data =
  data_node_id :: string
  data_sequence :: u32
  data_fields :: "frame_kv list"

record frame_command =
  cmd_target_node :: string
  cmd_sender :: string
  cmd_sequence :: u32
  cmd_fields :: "frame_kv list"

record frame_ack =
  ack_node_id :: string
  ack_sequence :: u32
  ack_fields :: "frame_kv list"

record frame_nack =
  nack_node_id :: string
  nack_sequence :: u32
  nack_error :: string

definition zero_frame_data :: frame_data where
  "zero_frame_data = \<lparr>data_node_id = [], data_sequence = 0, data_fields = []\<rparr>"

definition zero_frame_command :: frame_command where
  "zero_frame_command = \<lparr>cmd_target_node = [], cmd_sender = [], cmd_sequence = 0, cmd_fields = []\<rparr>"

definition zero_frame_ack :: frame_ack where
  "zero_frame_ack = \<lparr>ack_node_id = [], ack_sequence = 0, ack_fields = []\<rparr>"

definition zero_frame_nack :: frame_nack where
  "zero_frame_nack = \<lparr>nack_node_id = [], nack_sequence = 0, nack_error = []\<rparr>"

record frame_parser_stats =
  valid_frames :: u64
  crc_errors :: u64
  format_errors :: u64
  overflow_errors :: u64
  discarded_bytes :: u64

record frame_parser =
  buffer :: string
  collecting :: bool
  stats :: frame_parser_stats

datatype frame_message_type = FRAME_MESSAGE_UNKNOWN | FRAME_MESSAGE_DATA | FRAME_MESSAGE_CMD
  | FRAME_MESSAGE_ACK | FRAME_MESSAGE_NACK

section \<open>Checking a frame\<close>

text \<open>\<open>hex_value\<close>: \<open>None\<close> stands for -1. \<open>toupper\<close> is that of the C locale.\<close>

definition toupper :: "char \<Rightarrow> char" where
  "toupper c = (let n = (of_char c :: nat) in if 97 \<le> n \<and> n \<le> 122 then char_of (n - 32) else c)"

definition hex_value :: "char \<Rightarrow> nat option" where
  "hex_value ch =
     (if is_digit ch then Some (of_char ch - 48)
      else (let n = (of_char (toupper ch) :: nat) in if 65 \<le> n \<and> n \<le> 70 then Some (n - 65 + 10) else None))"

text \<open>\<open>parse_crc4\<close> on a text with at least four bytes before the end of its buffer.\<close>

fun crc4_loop :: "nat \<Rightarrow> string \<Rightarrow> u16 \<Rightarrow> u16 option" where
  "crc4_loop 0 text value = Some value"
| "crc4_loop (Suc k) [] value = None"
| "crc4_loop (Suc k) (c # cs) value =
     (case hex_value c of
        None \<Rightarrow> None
      | Some digit \<Rightarrow> crc4_loop k cs (push_bit 4 value OR of_nat digit))"

definition parse_crc4 :: "string \<Rightarrow> u16 option" where
  "parse_crc4 text = crc4_loop 4 text 0"

text \<open>The index of the last \<open>*\<close> of a C string (\<open>strrchr\<close>).\<close>

definition strrchr_index :: "char \<Rightarrow> string \<Rightarrow> nat option" where
  "strrchr_index c s = map_option (\<lambda>k. length s - 1 - k) (find_index (\<lambda>x. x = c) (rev s))"

datatype validate_result = Frame_Ok parsed_frame | Frame_Crc_Error | Frame_Format_Error

definition validate_frame :: "string \<Rightarrow> validate_result" where
  "validate_frame buf =
     (let len = length buf in
      if len < 8 \<or> FRAME_MAX_LEN \<le> len then Frame_Format_Error
      else if buf ! 0 \<noteq> CHR ''@'' \<or> buf ! (len - 2) \<noteq> CR \<or> buf ! (len - 1) \<noteq> LF then Frame_Format_Error
      else
        (case strrchr_index (CHR ''*'') (cstr buf) of
           None \<Rightarrow> Frame_Format_Error
         | Some star_index \<Rightarrow>
             if star_index + 7 \<noteq> len then Frame_Format_Error
             else if star_index \<le> 1 then Frame_Format_Error
             else
               (case parse_crc4 (drop (star_index + 1) buf) of
                  None \<Rightarrow> Frame_Format_Error
                | Some received \<Rightarrow>
                    (let payload_length = star_index - 1;
                         calculated = crc16_ccitt_false (Some (drop 1 buf)) payload_length
                     in if calculated \<noteq> received then Frame_Crc_Error
                        else Frame_Ok
                          \<lparr>raw = buf, payload = take payload_length (drop 1 buf),
                           received_crc = received, calculated_crc = calculated\<rparr>))))"

section \<open>The byte state machine\<close>

definition frame_parser_init :: frame_parser where
  "frame_parser_init = \<lparr>buffer = [], collecting = False,
     stats = \<lparr>valid_frames = 0, crc_errors = 0, format_errors = 0, overflow_errors = 0, discarded_bytes = 0\<rparr>\<rparr>"

definition frame_parser_reset :: "frame_parser \<Rightarrow> frame_parser" where
  "frame_parser_reset p = p\<lparr>buffer := [], collecting := False\<rparr>"

abbreviation bump_stats :: "(frame_parser_stats \<Rightarrow> frame_parser_stats) \<Rightarrow> frame_parser \<Rightarrow> frame_parser" where
  "bump_stats f p \<equiv> p\<lparr>stats := f (stats p)\<rparr>"

definition start_frame :: "frame_parser \<Rightarrow> frame_parser" where
  "start_frame p = p\<lparr>buffer := ''@'', collecting := True\<rparr>"

text \<open>What happens on a line feed: the frame is validated, counted and delivered.\<close>

definition finish_line :: "(parsed_frame \<Rightarrow> 'u \<Rightarrow> 'u) option \<Rightarrow> frame_parser \<times> 'u \<times> nat
    \<Rightarrow> frame_parser \<times> 'u \<times> nat" where
  "finish_line callback s =
     (case s of (p, u, valid_count) \<Rightarrow>
       (case validate_frame (buffer p) of
          Frame_Ok frame \<Rightarrow>
            (frame_parser_reset (bump_stats (\<lambda>st. st\<lparr>valid_frames := valid_frames st + 1\<rparr>) p),
             (case callback of None \<Rightarrow> u | Some f \<Rightarrow> f frame u), valid_count + 1)
        | Frame_Crc_Error \<Rightarrow>
            (frame_parser_reset (bump_stats (\<lambda>st. st\<lparr>crc_errors := crc_errors st + 1\<rparr>) p), u, valid_count)
        | Frame_Format_Error \<Rightarrow>
            (frame_parser_reset (bump_stats (\<lambda>st. st\<lparr>format_errors := format_errors st + 1\<rparr>) p), u, valid_count)))"

definition frame_parser_byte :: "(parsed_frame \<Rightarrow> 'u \<Rightarrow> 'u) option \<Rightarrow> char
    \<Rightarrow> frame_parser \<times> 'u \<times> nat \<Rightarrow> frame_parser \<times> 'u \<times> nat" where
  "frame_parser_byte callback ch s =
     (case s of (p, u, valid_count) \<Rightarrow>
       if \<not> collecting p then
         (if ch = CHR ''@'' then (start_frame p, u, valid_count)
          else (bump_stats (\<lambda>st. st\<lparr>discarded_bytes := discarded_bytes st + 1\<rparr>) p, u, valid_count))
       else if ch = CHR ''@'' then
         (start_frame (bump_stats (\<lambda>st. st\<lparr>format_errors := format_errors st + 1\<rparr>) p), u, valid_count)
       else if FRAME_MAX_LEN - 1 \<le> length (buffer p) then
         (frame_parser_reset (bump_stats (\<lambda>st. st\<lparr>overflow_errors := overflow_errors st + 1\<rparr>) p), u, valid_count)
       else
         (let p' = p\<lparr>buffer := buffer p @ [ch]\<rparr> in
          if ch = LF then finish_line callback (p', u, valid_count) else (p', u, valid_count)))"

text \<open>The data pointer may be NULL; the returned count is that of this call.\<close>

definition frame_parser_feed :: "(parsed_frame \<Rightarrow> 'u \<Rightarrow> 'u) option \<Rightarrow> frame_parser \<Rightarrow> string option \<Rightarrow> 'u
    \<Rightarrow> frame_parser \<times> 'u \<times> nat" where
  "frame_parser_feed callback p data u =
     (case data of
        None \<Rightarrow> (p, u, 0)
      | Some bytes \<Rightarrow> fold (frame_parser_byte callback) bytes (p, u, 0))"

section \<open>Decoding a payload\<close>

text \<open>\<open>parse_uint32_decimal\<close>: \<open>None\<close> stands for -1; the text is not NULL at any call.\<close>

definition parse_uint32_decimal :: "string \<Rightarrow> u32 option" where
  "parse_uint32_decimal text =
     (if text = [] then None
      else (case strtoul10 text of (parsed, rest, range_error) \<Rightarrow>
        if range_error \<or> rest = text \<or> rest \<noteq> [] \<or> 2 ^ 32 - 1 < parsed then None
        else Some (of_nat parsed)))"

text \<open>One token of the data area: \<open>KEY=VALUE\<close> split at the first \<open>=\<close>.\<close>

definition parse_kv_token :: "string \<Rightarrow> frame_kv option" where
  "parse_kv_token kv =
     (case find_index (\<lambda>c. c = CHR ''='') kv of
        None \<Rightarrow> None
      | Some eq \<Rightarrow>
          if eq = 0 \<or> eq + 1 = length kv then None
          else (let key_len = eq; value_len = length (drop (eq + 1) kv) in
            if FRAME_KV_KEY_MAX \<le> key_len \<or> FRAME_KV_VALUE_MAX \<le> value_len then None
            else Some \<lparr>kv_key = take key_len kv, kv_value = drop (eq + 1) kv\<rparr>))"

fun parse_kv_tokens :: "string list \<Rightarrow> frame_kv list option" where
  "parse_kv_tokens [] = Some []"
| "parse_kv_tokens (t # ts) =
     (case parse_kv_token t of
        None \<Rightarrow> None
      | Some kv \<Rightarrow> map_option ((#) kv) (parse_kv_tokens ts))"

text \<open>
  The result is the return code (\<open>True\<close> for 0), the id written into \<open>id_out\<close>, and the sequence
  number and the fields, which the callers read only on success.
\<close>

definition parse_kv_payload :: "parsed_frame \<Rightarrow> string \<Rightarrow> string \<Rightarrow> nat
    \<Rightarrow> bool \<times> string \<times> u32 \<times> frame_kv list" where
  "parse_kv_payload frame type id_out id_capacity =
     (if id_capacity = 0 \<or> FRAME_MAX_LEN \<le> length (payload frame) then (False, id_out, 0, [])
      else
        (let tokens = strtok_all (CHR '','') (cstr (payload frame)) in
         if length tokens < 4 \<or> 4 + FRAME_DATA_MAX_FIELDS < length tokens then (False, id_out, 0, [])
         else if tokens ! 0 \<noteq> ''1'' then (False, id_out, 0, [])
         else if tokens ! 3 \<noteq> type then (False, id_out, 0, [])
         else if tokens ! 1 = [] \<or> id_capacity \<le> length (tokens ! 1) then (False, id_out, 0, [])
         else if length (tokens ! 2) \<noteq> 6 then (False, id_out, 0, [])
         else
           (case parse_uint32_decimal (tokens ! 2) of
              None \<Rightarrow> (False, id_out, 0, [])
            | Some sequence \<Rightarrow>
                (case parse_kv_tokens (drop 4 tokens) of
                   None \<Rightarrow> (False, tokens ! 1, sequence, [])
                 | Some kvs \<Rightarrow> (True, tokens ! 1, sequence, kvs)))))"

definition frame_decode_data :: "parsed_frame option \<Rightarrow> frame_data option \<Rightarrow> bool \<times> frame_data option" where
  "frame_decode_data frame out =
     (case frame of None \<Rightarrow> (False, out) | Some f \<Rightarrow>
       (case out of None \<Rightarrow> (False, None) | Some _ \<Rightarrow>
         (case parse_kv_payload f ''DATA'' [] 32 of (ok, node_id, sequence, kvs) \<Rightarrow>
            if \<not> ok then (False, Some (zero_frame_data\<lparr>data_node_id := node_id\<rparr>))
            else (True, Some \<lparr>data_node_id = node_id, data_sequence = sequence, data_fields = kvs\<rparr>))))"

definition frame_decode_command :: "parsed_frame option \<Rightarrow> frame_command option
    \<Rightarrow> bool \<times> frame_command option" where
  "frame_decode_command frame out =
     (case frame of None \<Rightarrow> (False, out) | Some f \<Rightarrow>
       (case out of None \<Rightarrow> (False, None) | Some _ \<Rightarrow>
         (case parse_kv_payload f ''CMD'' [] 32 of (ok, sender, sequence, kvs) \<Rightarrow>
            if \<not> ok then (False, Some (zero_frame_command\<lparr>cmd_sender := sender\<rparr>))
            else (True, Some \<lparr>cmd_target_node = [], cmd_sender = sender, cmd_sequence = sequence,
                               cmd_fields = kvs\<rparr>))))"

definition frame_decode_ack :: "parsed_frame option \<Rightarrow> frame_ack option \<Rightarrow> bool \<times> frame_ack option" where
  "frame_decode_ack frame out =
     (case frame of None \<Rightarrow> (False, out) | Some f \<Rightarrow>
       (case out of None \<Rightarrow> (False, None) | Some _ \<Rightarrow>
         (case parse_kv_payload f ''ACK'' [] 32 of (ok, node_id, sequence, kvs) \<Rightarrow>
            if \<not> ok then (False, Some (zero_frame_ack\<lparr>ack_node_id := node_id\<rparr>))
            else (True, Some \<lparr>ack_node_id = node_id, ack_sequence = sequence, ack_fields = kvs\<rparr>))))"

definition frame_decode_nack :: "parsed_frame option \<Rightarrow> frame_nack option \<Rightarrow> bool \<times> frame_nack option" where
  "frame_decode_nack frame out =
     (case frame of None \<Rightarrow> (False, out) | Some f \<Rightarrow>
       (case out of None \<Rightarrow> (False, None) | Some old \<Rightarrow>
         if FRAME_MAX_LEN \<le> length (payload f) then (False, Some old)
         else
           (let tokens = strtok_all (CHR '','') (cstr (payload f)); failed = (False, Some zero_frame_nack) in
            if length tokens \<noteq> 5 then failed
            else if tokens ! 0 \<noteq> ''1'' then failed
            else if tokens ! 3 \<noteq> ''NACK'' then failed
            else if take 4 (tokens ! 4) \<noteq> ''ERR='' then failed
            else if tokens ! 1 = [] \<or> 32 \<le> length (tokens ! 1) then failed
            else if length (tokens ! 2) \<noteq> 6 then failed
            else
              (case parse_uint32_decimal (tokens ! 2) of
                 None \<Rightarrow> failed
               | Some sequence \<Rightarrow>
                   if drop 4 (tokens ! 4) = [] \<or> 32 \<le> length (drop 4 (tokens ! 4))
                   then (False, Some (zero_frame_nack\<lparr>nack_sequence := sequence\<rparr>))
                   else (True, Some \<lparr>nack_node_id = tokens ! 1, nack_sequence = sequence,
                                      nack_error = drop 4 (tokens ! 4)\<rparr>)))))"

definition frame_fields_find :: "frame_kv list option \<Rightarrow> string option \<Rightarrow> string option" where
  "frame_fields_find kvs key =
     (case (kvs, key) of
        (Some fs, Some k) \<Rightarrow>
          if k = [] then None else map_option (\<lambda>i. kv_value (fs ! i)) (find_index (\<lambda>f. kv_key f = k) fs)
      | _ \<Rightarrow> None)"

definition frame_data_find_field :: "frame_data option \<Rightarrow> string option \<Rightarrow> string option" where
  "frame_data_find_field data key =
     (case data of None \<Rightarrow> None | Some d \<Rightarrow> frame_fields_find (Some (data_fields d)) key)"

definition frame_get_message_type :: "parsed_frame option \<Rightarrow> frame_message_type" where
  "frame_get_message_type frame =
     (case frame of
        None \<Rightarrow> FRAME_MESSAGE_UNKNOWN
      | Some f \<Rightarrow>
          if FRAME_MAX_LEN \<le> length (payload f) then FRAME_MESSAGE_UNKNOWN
          else
            (let tokens = strtok_all (CHR '','') (cstr (payload f)) in
             if length tokens < 4 then FRAME_MESSAGE_UNKNOWN
             else if tokens ! 3 = ''DATA'' then FRAME_MESSAGE_DATA
             else if tokens ! 3 = ''CMD'' then FRAME_MESSAGE_CMD
             else if tokens ! 3 = ''ACK'' then FRAME_MESSAGE_ACK
             else if tokens ! 3 = ''NACK'' then FRAME_MESSAGE_NACK
             else FRAME_MESSAGE_UNKNOWN))"

section \<open>The CRC text\<close>

lemma hex_digit_cases: "d < 16 \<Longrightarrow> d = 0 \<or> d = 1 \<or> d = 2 \<or> d = 3 \<or> d = 4 \<or> d = 5 \<or> d = 6
    \<or> d = 7 \<or> d = 8 \<or> d = 9 \<or> d = 10 \<or> d = 11 \<or> d = 12 \<or> d = 13 \<or> d = 14 \<or> (d::nat) = 15"
  by presburger

lemma hex_value_hex_digit [simp]: "d < 16 \<Longrightarrow> hex_value (hex_digit d) = Some d"
  by (drule hex_digit_cases, elim disjE) (simp_all add: hex_value_def hex_digit_def is_digit_def toupper_def)

lemma hex_digit_plain: "d < 16 \<Longrightarrow> hex_digit d \<noteq> CHR ''*'' \<and> hex_digit d \<noteq> CHR ''@'' \<and> hex_digit d \<noteq> NUL
    \<and> hex_digit d \<noteq> LF \<and> hex_digit d \<noteq> CR"
  using hex_value_hex_digit [of d] by (auto simp: hex_value_def is_digit_def toupper_def Let_def)

lemma hex_value_less: "hex_value c = Some d \<Longrightarrow> d < 16"
  by (auto simp: hex_value_def is_digit_def Let_def split: if_splits)

lemma nibble_or:
  fixes v :: u16 assumes "d < 16" shows "push_bit 4 v OR of_nat d = v * 16 + of_nat d"
proof -
  have d: "take_bit 4 d = d" using assms by (simp add: take_bit_nat_eq_self)
  have "push_bit 4 v AND of_nat d = 0"
  proof (rule bit_word_eqI)
    fix n
    have "bit d n \<Longrightarrow> n < 4" using d bit_take_bit_iff [of 4 d n] by simp
    then show "bit (push_bit 4 v AND of_nat d) n \<longleftrightarrow> bit (0 :: u16) n"
      by (auto simp: bit_and_iff bit_push_bit_iff bit_of_nat_iff)
  qed
  then have "push_bit 4 v OR of_nat d = push_bit 4 v + of_nat d"
    by (simp only: disjunctive_add_eq_or)
  then show ?thesis by (simp add: push_bit_eq_mult)
qed

lemma crc4_loop_digit:
  "d < 16 \<Longrightarrow> crc4_loop (Suc k) (hex_digit d # cs) v = crc4_loop k cs (v * 16 + of_nat d)"
  by (simp add: nibble_or)

lemma parse_crc4_digits:
  assumes "a < 16" "b < 16" "c < 16" "d < 16"
  shows "parse_crc4 (hex_digit a # hex_digit b # hex_digit c # hex_digit d # rest)
       = Some (of_nat (((a * 16 + b) * 16 + c) * 16 + d))"
proof -
  have four: "(4 :: nat) = Suc (Suc (Suc (Suc 0)))" by simp
  show ?thesis
    unfolding parse_crc4_def four by (simp only: crc4_loop_digit assms crc4_loop.simps(1)) simp
qed

lemma nibbles: "((n div 4096 * 16 + n div 256 mod 16) * 16 + n div 16 mod 16) * 16 + n mod 16 = (n::nat)"
proof -
  have "n div 4096 = n div 256 div 16" "n div 256 = n div 16 div 16"
    by (simp_all flip: div_mult2_eq)
  then show ?thesis by (simp only: div_mult_mod_eq)
qed

lemma parse_crc4_print [simp]: "parse_crc4 (print_04X w @ rest) = Some w"
proof -
  have "unat w < 65536" using unsigned_less [of w, where 'a = nat] by simp
  then have "unat w div 4096 < 16" by simp
  then have "parse_crc4 (print_04X w @ rest) = Some (of_nat (((unat w div 4096 * 16 + unat w div 256 mod 16) * 16
      + unat w div 16 mod 16) * 16 + unat w mod 16))"
    unfolding print_04X_def Let_def append_Cons append_Nil by (intro parse_crc4_digits) simp_all
  then show ?thesis by (simp only: nibbles) simp
qed

lemma print_04X_plain: "c \<in> set (print_04X w) \<Longrightarrow> c \<noteq> CHR ''*'' \<and> c \<noteq> CHR ''@'' \<and> c \<noteq> NUL \<and> c \<noteq> LF \<and> c \<noteq> CR"
proof -
  have "unat w div 4096 < 16" using unsigned_less [of w, where 'a = nat] by simp
  then show "c \<in> set (print_04X w) \<Longrightarrow> ?thesis"
    by (auto simp: print_04X_def Let_def hex_digit_plain)
qed

lemma strrchr_index_last: "c \<notin> set t \<Longrightarrow> strrchr_index c (s @ c # t) = Some (length s)"
proof -
  assume "c \<notin> set t"
  moreover have "rev t ! j \<in> set t" if "j < length t" for j
    using that nth_mem [of j "rev t"] by simp
  ultimately have "find_index (\<lambda>x. x = c) (rev t @ c # rev s) = Some (length t)"
    by (intro find_index_SomeI) (auto simp: nth_append)
  then show ?thesis by (simp add: strrchr_index_def)
qed

lemma strrchr_index_SomeD:
  assumes "strrchr_index c s = Some i"
  shows "i < length s" "s ! i = c"
proof -
  obtain k where k: "find_index (\<lambda>x. x = c) (rev s) = Some k" "i = length s - 1 - k"
    using assms by (auto simp: strrchr_index_def)
  from find_index_SomeD [OF k(1)] have "k < length s" "rev s ! k = c" by auto
  then show "i < length s" "s ! i = c"
    by (auto simp: k(2) rev_nth)
qed

section \<open>What validation accepts\<close>

lemma validate_frame_crc:
  assumes "p \<noteq> []" "NUL \<notin> set p" "length p + 8 < FRAME_MAX_LEN"
  shows "validate_frame (''@'' @ p @ ''*'' @ print_04X w @ [CR, LF]) =
     (if crc16_bytes 0xFFFF p = w
      then Frame_Ok \<lparr>raw = ''@'' @ p @ ''*'' @ print_04X w @ [CR, LF], payload = p,
                     received_crc = w, calculated_crc = w\<rparr>
      else Frame_Crc_Error)"
proof -
  let ?b = "''@'' @ p @ ''*'' @ print_04X w @ [CR, LF]"
  have len: "length ?b = length p + 8" by simp
  have "NUL \<notin> set ?b" using assms(2) print_04X_plain by auto
  then have c: "cstr ?b = ?b" by (rule cstr_id)
  have star: "strrchr_index (CHR ''*'') ?b = Some (length p + 1)"
    using strrchr_index_last [of "CHR ''*''" "print_04X w @ [CR, LF]" "''@'' @ p"] print_04X_plain
    by fastforce
  have tail: "?b ! (length p + 8 - 2) = CR" "?b ! (length p + 8 - 1) = LF"
    by (simp_all add: nth_append)
  have d: "drop (length p + 1 + 1) ?b = print_04X w @ [CR, LF]" by simp
  show ?thesis
    unfolding validate_frame_def Let_def len c star option.case tail d parse_crc4_print
    using assms by (simp add: crc16_ccitt_false_def)
qed

lemma validate_frame_of:
  assumes "p \<noteq> []" "NUL \<notin> set p" "length p + 8 < FRAME_MAX_LEN"
  shows "validate_frame (frame_of p) =
     Frame_Ok \<lparr>raw = frame_of p, payload = p, received_crc = crc16_bytes 0xFFFF p,
               calculated_crc = crc16_bytes 0xFFFF p\<rparr>"
  unfolding frame_of_def validate_frame_crc [OF assms] by simp

text \<open>A delivered frame is well framed and its CRC is that of its payload.\<close>

definition good_frame :: "parsed_frame \<Rightarrow> bool" where
  "good_frame f =
     (payload f \<noteq> [] \<and> length (raw f) < FRAME_MAX_LEN \<and> length (raw f) = length (payload f) + 8
      \<and> NUL \<notin> set (payload f)
      \<and> take (length (payload f) + 2) (raw f) = ''@'' @ payload f @ ''*''
      \<and> drop (length (payload f) + 6) (raw f) = [CR, LF]
      \<and> parse_crc4 (drop (length (payload f) + 2) (raw f)) = Some (received_crc f)
      \<and> received_crc f = crc16_bytes 0xFFFF (payload f) \<and> calculated_crc f = received_crc f)"

lemma cstr_nth: "i < length (cstr s) \<Longrightarrow> cstr s ! i = s ! i"
  by (simp add: cstr_def takeWhile_nth)

lemma cstr_take: "cstr s = take (length (cstr s)) s"
  by (metis cstr_def takeWhile_eq_take)

lemma validate_frame_OkD:
  assumes "validate_frame buf = Frame_Ok f" shows "good_frame f" "raw f = buf"
proof -
  let ?len = "length buf"
  obtain i where i: "strrchr_index (CHR ''*'') (cstr buf) = Some i"
    and len: "8 \<le> ?len" "?len < FRAME_MAX_LEN" "i + 7 = ?len" "1 < i"
    and ends: "buf ! 0 = CHR ''@''" "buf ! (?len - 2) = CR" "buf ! (?len - 1) = LF"
    and crc: "parse_crc4 (drop (i + 1) buf) = Some (received_crc f)"
      "crc16_bytes 0xFFFF (take (i - 1) (drop 1 buf)) = received_crc f"
    and f: "raw f = buf" "payload f = take (i - 1) (drop 1 buf)" "calculated_crc f = received_crc f"
    using assms
    by (auto simp: validate_frame_def Let_def crc16_ccitt_false_def split: if_splits option.splits)
  have star: "i < length (cstr buf)" "buf ! i = CHR ''*''"
    using strrchr_index_SomeD [OF i] cstr_nth [of i buf] by auto
  have pl: "length (payload f) = i - 1" using len by (simp add: f)
  have "take (i + 1) buf = buf ! 0 # take (i - 1) (drop 1 buf) @ [buf ! i]"
    using len by (cases buf; cases i) (auto simp: take_Suc_conv_app_nth)
  then have head: "take (length (payload f) + 2) buf = ''@'' @ payload f @ ''*''"
    using len by (simp add: pl f(2) ends star)
  have "drop (?len - 2) buf = [buf ! (?len - 2), buf ! (?len - 1)]"
    using len by (intro nth_equalityI) (auto simp: less_Suc_eq_0_disj numeral_2_eq_2)
  moreover have "length (payload f) + 6 = ?len - 2" using len pl by auto
  ultimately have tail: "drop (length (payload f) + 6) buf = [CR, LF]" using ends by simp
  have "set (payload f) \<subseteq> set (cstr buf)"
  proof -
    have "take i buf = take i (cstr buf)"
      using star(1) by (subst cstr_take) (simp add: min_def)
    then have "payload f = take (i - 1) (drop 1 (take i (cstr buf)))"
      by (simp add: f(2) drop_take flip: \<open>take i buf = take i (cstr buf)\<close>)
    then show ?thesis by (auto dest!: in_set_takeD in_set_dropD)
  qed
  then have nul: "NUL \<notin> set (payload f)" using cstr_no_nul [of buf] by blast
  have "drop (length (payload f) + 2) buf = drop (i + 1) buf" using len by (simp add: pl)
  moreover have "payload f \<noteq> []" using pl len by auto
  ultimately show "good_frame f" "raw f = buf"
    using len head tail nul crc f pl by (auto simp: good_frame_def)
qed

section \<open>The state machine\<close>

text \<open>
  The invariant: outside a frame the buffer is empty; inside, it starts with the only \<open>@\<close>, holds
  no line feed and fits the array with its terminating NUL.
\<close>

definition parser_inv :: "frame_parser \<Rightarrow> bool" where
  "parser_inv p =
     (if collecting p
      then length (buffer p) < FRAME_MAX_LEN
        \<and> (\<exists>t. buffer p = CHR ''@'' # t \<and> CHR ''@'' \<notin> set t \<and> LF \<notin> set t)
      else buffer p = [])"

lemma parser_inv_init [simp]: "parser_inv frame_parser_init"
  by (simp add: parser_inv_def frame_parser_init_def)

lemma parser_inv_reset [simp]: "parser_inv (frame_parser_reset p)"
  by (simp add: parser_inv_def frame_parser_reset_def)

lemma parser_inv_start [simp]: "parser_inv (start_frame p)"
  by (simp add: parser_inv_def start_frame_def frame_consts)

lemma parser_inv_stats [simp]: "parser_inv (p\<lparr>stats := st\<rparr>) = parser_inv p"
  by (simp add: parser_inv_def)

lemma parser_inv_collect:
  "parser_inv p \<Longrightarrow> collecting p \<Longrightarrow> ch \<noteq> CHR ''@'' \<Longrightarrow> ch \<noteq> LF
   \<Longrightarrow> length (buffer p) < FRAME_MAX_LEN - 1 \<Longrightarrow> parser_inv (p\<lparr>buffer := buffer p @ [ch]\<rparr>)"
  by (auto simp: parser_inv_def)

lemma finish_line_inv [simp]: "parser_inv (fst (finish_line callback s))"
  by (cases s) (simp add: finish_line_def split: validate_result.split)

lemma frame_parser_byte_inv:
  "parser_inv (fst s) \<Longrightarrow> parser_inv (fst (frame_parser_byte callback ch s))"
  by (cases s) (simp add: frame_parser_byte_def Let_def parser_inv_collect)

lemma frame_parser_bytes_inv:
  "parser_inv (fst s) \<Longrightarrow> parser_inv (fst (fold (frame_parser_byte callback) bs s))"
  by (induction bs arbitrary: s) (simp_all add: frame_parser_byte_inv)

text \<open>The count of a call adds up: starting from a count only shifts it.\<close>

lemma frame_parser_byte_count:
  "frame_parser_byte callback ch (p, u, n + k) =
     (case frame_parser_byte callback ch (p, u, k) of (p', u', k') \<Rightarrow> (p', u', n + k'))"
  by (simp add: frame_parser_byte_def finish_line_def Let_def split: validate_result.split)

lemma frame_parser_bytes_count:
  "fold (frame_parser_byte callback) bs (p, u, n + k) =
     (case fold (frame_parser_byte callback) bs (p, u, k) of (p', u', k') \<Rightarrow> (p', u', n + k'))"
proof (induction bs arbitrary: p u k)
  case Nil
  then show ?case by simp
next
  case (Cons b bs)
  obtain p1 u1 k1 where b: "frame_parser_byte callback b (p, u, k) = (p1, u1, k1)"
    by (cases "frame_parser_byte callback b (p, u, k)")
  then have "frame_parser_byte callback b (p, u, n + k) = (p1, u1, n + k1)"
    by (simp add: frame_parser_byte_count)
  with b Cons.IH [of p1 u1 k1] show ?case by simp
qed

text \<open>Inside a frame, ordinary bytes are collected.\<close>

lemma frame_parser_collect:
  assumes "collecting p" "CHR ''@'' \<notin> set bs" "LF \<notin> set bs"
    "length (buffer p) + length bs < FRAME_MAX_LEN"
  shows "fold (frame_parser_byte callback) bs (p, u, n) = (p\<lparr>buffer := buffer p @ bs\<rparr>, u, n)"
  using assms
proof (induction bs arbitrary: p)
  case Nil
  then show ?case by simp
next
  case (Cons b bs)
  have "frame_parser_byte callback b (p, u, n) = (p\<lparr>buffer := buffer p @ [b]\<rparr>, u, n)"
    using Cons.prems by (auto simp: frame_parser_byte_def frame_consts)
  moreover have "fold (frame_parser_byte callback) bs (p\<lparr>buffer := buffer p @ [b]\<rparr>, u, n)
      = (p\<lparr>buffer := buffer p @ [b] @ bs\<rparr>, u, n)"
    using Cons.IH [of "p\<lparr>buffer := buffer p @ [b]\<rparr>"] Cons.prems by simp
  ultimately show ?case by simp
qed

text \<open>An \<open>@\<close> starts a frame in any state; what was being collected is a format error, a byte between
  frames is discarded.\<close>

definition begin_frame :: "frame_parser \<Rightarrow> frame_parser" where
  "begin_frame p =
     start_frame (if collecting p then bump_stats (\<lambda>st. st\<lparr>format_errors := format_errors st + 1\<rparr>) p else p)"

lemma frame_parser_byte_at: "frame_parser_byte callback (CHR ''@'') (p, u, n) = (begin_frame p, u, n)"
  by (simp add: frame_parser_byte_def begin_frame_def)

lemma begin_frame_simps [simp]:
  "collecting (begin_frame p)" "buffer (begin_frame p) = ''@''"
  by (simp_all add: begin_frame_def start_frame_def)

text \<open>A whole frame text, from any state.\<close>

lemma frame_parser_line:
  assumes "CHR ''@'' \<notin> set t" "LF \<notin> set t" "length t + 2 < FRAME_MAX_LEN"
  shows "fold (frame_parser_byte callback) (CHR ''@'' # t @ [LF]) (p, u, n) =
     finish_line callback ((begin_frame p)\<lparr>buffer := CHR ''@'' # t @ [LF]\<rparr>, u, n)"
proof -
  have "fold (frame_parser_byte callback) t (begin_frame p, u, n) = ((begin_frame p)\<lparr>buffer := CHR ''@'' # t\<rparr>, u, n)"
    using assms by (subst frame_parser_collect) auto
  then show ?thesis
    using assms(3) by (simp add: frame_parser_byte_at)
      (simp add: frame_parser_byte_def frame_consts)
qed

definition payload_ok :: "string \<Rightarrow> bool" where
  "payload_ok p = (p \<noteq> [] \<and> length p + 8 < FRAME_MAX_LEN \<and> NUL \<notin> set p \<and> CHR ''@'' \<notin> set p \<and> LF \<notin> set p)"

lemma frame_parser_crc_line:
  assumes "payload_ok q"
  shows "fold (frame_parser_byte callback) (''@'' @ q @ ''*'' @ print_04X w @ [CR, LF]) (p, u, n) =
     (if crc16_bytes 0xFFFF q = w
      then (frame_parser_reset (bump_stats (\<lambda>st. st\<lparr>valid_frames := valid_frames st + 1\<rparr>) (begin_frame p)),
            (case callback of None \<Rightarrow> u | Some f \<Rightarrow>
               f \<lparr>raw = ''@'' @ q @ ''*'' @ print_04X w @ [CR, LF], payload = q,
                  received_crc = w, calculated_crc = w\<rparr> u), n + 1)
      else (frame_parser_reset (bump_stats (\<lambda>st. st\<lparr>crc_errors := crc_errors st + 1\<rparr>) (begin_frame p)), u, n))"
proof -
  let ?t = "q @ ''*'' @ print_04X w @ [CR]"
  have ok: "q \<noteq> []" "NUL \<notin> set q" "length q + 8 < FRAME_MAX_LEN"
    using assms by (auto simp: payload_ok_def)
  have "fold (frame_parser_byte callback) (CHR ''@'' # ?t @ [LF]) (p, u, n) =
     finish_line callback ((begin_frame p)\<lparr>buffer := CHR ''@'' # ?t @ [LF]\<rparr>, u, n)"
    using assms print_04X_plain by (intro frame_parser_line) (auto simp: payload_ok_def)
  moreover have "CHR ''@'' # ?t @ [LF] = ''@'' @ q @ ''*'' @ print_04X w @ [CR, LF]" by simp
  ultimately show ?thesis
    using validate_frame_crc [OF ok, of w]
    by (simp only:) (simp add: finish_line_def frame_parser_reset_def del: append_Cons append_assoc)
qed

lemma frame_parser_frame_of:
  assumes "payload_ok q"
  shows "fold (frame_parser_byte callback) (frame_of q) (p, u, n) =
     (frame_parser_reset (bump_stats (\<lambda>st. st\<lparr>valid_frames := valid_frames st + 1\<rparr>) (begin_frame p)),
      (case callback of None \<Rightarrow> u | Some f \<Rightarrow>
         f \<lparr>raw = frame_of q, payload = q, received_crc = crc16_bytes 0xFFFF q,
            calculated_crc = crc16_bytes 0xFFFF q\<rparr> u), n + 1)"
  unfolding frame_of_def frame_parser_crc_line [OF assms] by simp

section \<open>The stream as a sequence of reads\<close>

text \<open>A receiver: the parser, the caller's state and the number of frames so far.\<close>

fun frame_receive :: "(parsed_frame \<Rightarrow> 'u \<Rightarrow> 'u) option \<Rightarrow> frame_parser \<times> 'u \<times> nat \<Rightarrow> string
    \<Rightarrow> frame_parser \<times> 'u \<times> nat" where
  "frame_receive callback (p, u, n) bytes =
     (case frame_parser_feed callback p (Some bytes) u of (p', u', k) \<Rightarrow> (p', u', n + k))"

definition frame_ready :: "frame_parser \<times> 'u \<times> nat \<Rightarrow> bool" where
  "frame_ready s = parser_inv (fst s)"

lemma frame_receive_fold: "frame_receive callback s bytes = fold (frame_parser_byte callback) bytes s"
proof -
  obtain p u n where s: "s = (p, u, n)" by (cases s)
  show ?thesis
    using frame_parser_bytes_count [of callback bytes p u n 0] unfolding s
    by (simp only: frame_receive.simps frame_parser_feed_def option.case add_0_right)
qed

text \<open>What every call of the callback keeps, a feed keeps.\<close>

lemma frame_parser_feed_keeps:
  assumes "\<And>f u. P u \<Longrightarrow> P (callback f u)" "P u"
  shows "P (fst (snd (frame_parser_feed (Some callback) p data u)))"
proof -
  have step: "P (fst (snd (frame_parser_byte (Some callback) b s)))" if "P (fst (snd s))" for b s
    using that assms(1)
    by (cases s) (auto simp: frame_parser_byte_def finish_line_def Let_def split: validate_result.split)
  have "P (fst (snd s)) \<Longrightarrow> P (fst (snd (fold (frame_parser_byte (Some callback)) bs s)))" for bs s
    by (induction bs arbitrary: s) (simp_all add: step)
  with assms(2) show ?thesis by (simp add: frame_parser_feed_def split: option.split)
qed

interpretation frame_stream: chunked frame_ready "frame_receive callback"
  for callback :: "(parsed_frame \<Rightarrow> 'u \<Rightarrow> 'u) option"
  by unfold_locales (simp_all add: frame_ready_def frame_receive_fold frame_parser_bytes_inv)

section \<open>What is delivered\<close>

text \<open>With a callback that logs the frames.\<close>

abbreviation log_frame :: "(parsed_frame \<Rightarrow> parsed_frame list \<Rightarrow> parsed_frame list) option" where
  "log_frame \<equiv> Some (\<lambda>f log. log @ [f])"

lemma finish_line_log:
  "\<exists>fs st. finish_line log_frame (p, log, n) =
     (frame_parser_reset (p\<lparr>stats := st\<rparr>), log @ fs, n + length fs)
     \<and> list_all good_frame fs \<and> valid_frames st = valid_frames (stats p) + of_nat (length fs)"
proof (cases "validate_frame (buffer p)")
  case (Frame_Ok f)
  then show ?thesis
    by (intro exI [of _ "[f]"]) (auto simp: finish_line_def frame_parser_reset_def dest: validate_frame_OkD)
qed (intro exI [of _ "[]"], auto simp: finish_line_def frame_parser_reset_def)+

lemma frame_parser_byte_log:
  "\<exists>p' fs. frame_parser_byte log_frame b (p, log, n) = (p', log @ fs, n + length fs)
     \<and> list_all good_frame fs \<and> valid_frames (stats p') = valid_frames (stats p) + of_nat (length fs)"
proof (cases "b = LF \<and> collecting p \<and> length (buffer p) < FRAME_MAX_LEN - 1")
  case True
  then have "frame_parser_byte log_frame b (p, log, n) = finish_line log_frame (p\<lparr>buffer := buffer p @ [b]\<rparr>, log, n)"
    by (simp add: frame_parser_byte_def)
  with finish_line_log [of "p\<lparr>buffer := buffer p @ [b]\<rparr>" log n] show ?thesis
    by (auto simp: frame_parser_reset_def)
next
  case False
  then show ?thesis
    by (intro exI [of _ "fst (frame_parser_byte log_frame b (p, log, n))"] exI [of _ "[]"])
      (auto simp: frame_parser_byte_def frame_parser_reset_def start_frame_def Let_def)
qed

lemma frame_parser_bytes_log:
  "\<exists>p' fs. fold (frame_parser_byte log_frame) bs (p, log, n) = (p', log @ fs, n + length fs)
     \<and> list_all good_frame fs \<and> valid_frames (stats p') = valid_frames (stats p) + of_nat (length fs)"
proof (induction bs arbitrary: p log n)
  case Nil
  show ?case by (intro exI [of _ p] exI [of _ "[]"]) simp
next
  case (Cons b bs)
  obtain p1 fs1 where 1: "frame_parser_byte log_frame b (p, log, n) = (p1, log @ fs1, n + length fs1)"
    "list_all good_frame fs1" "valid_frames (stats p1) = valid_frames (stats p) + of_nat (length fs1)"
    using frame_parser_byte_log by blast
  obtain p2 fs2 where 2: "fold (frame_parser_byte log_frame) bs (p1, log @ fs1, n + length fs1) =
      (p2, (log @ fs1) @ fs2, (n + length fs1) + length fs2)"
    "list_all good_frame fs2" "valid_frames (stats p2) = valid_frames (stats p1) + of_nat (length fs2)"
    using Cons.IH by blast
  show ?case
    using 1 2 by (intro exI [of _ p2] exI [of _ "fs1 @ fs2"]) simp
qed

text \<open>C22: Whatever bytes arrive in whatever parser state, every frame that \<open>frame_parser_feed\<close>
  hands to the callback is well formed and carries the CRC of its payload; the returned count and
  the \<open>valid_frames\<close> counter count exactly the callbacks.\<close>
theorem frame_parser_delivers_good_frames:
  "case frame_parser_feed (Some (\<lambda>f log. log @ [f])) p data [] of
     (p', log, n) \<Rightarrow> list_all good_frame log \<and> n = length log
        \<and> valid_frames (stats p') = valid_frames (stats p) + of_nat n"
proof (cases data)
  case None
  then show ?thesis by (simp add: frame_parser_feed_def)
next
  case (Some bs)
  obtain p' fs where "fold (frame_parser_byte log_frame) bs (p, [], 0) = (p', fs, length fs)"
    "list_all good_frame fs" "valid_frames (stats p') = valid_frames (stats p) + of_nat (length fs)"
    using frame_parser_bytes_log [of bs p "[]" 0] by auto
  then show ?thesis by (simp add: Some frame_parser_feed_def)
qed

text \<open>The parser invariant (an idle parser has an empty buffer; a collecting one holds one \<open>@\<close>
  at the start, no line feed, and fits its array) is established by \<open>frame_parser_init\<close> and kept by
  \<open>frame_parser_reset\<close> and \<open>frame_parser_feed\<close>, so the buffer is never overrun.\<close>
theorem parser_inv_preserved:
  assumes "parser_inv p"
  shows "parser_inv frame_parser_init \<and> parser_inv (frame_parser_reset p)
    \<and> parser_inv (fst (frame_parser_feed callback p data u))
    \<and> length (buffer (fst (frame_parser_feed callback p data u))) + 1 \<le> 256"
proof -
  have "parser_inv (fst (frame_parser_feed callback p data u))"
    using assms frame_parser_bytes_inv [of "(p, u, 0)"]
    by (simp add: frame_parser_feed_def split: option.split)
  moreover from this have "length (buffer (fst (frame_parser_feed callback p data u))) < 256"
    by (auto simp: parser_inv_def frame_consts split: if_splits)
  ultimately show ?thesis by simp
qed

theorem parser_inv_preserved_witness:
  "parser_inv (fst (frame_parser_feed log_frame frame_parser_init (Some ''x@1,N'') []))"
  using parser_inv_preserved [of frame_parser_init log_frame "Some ''x@1,N''" "[]"] by simp

text \<open>What the parser delivers does not depend on how the serial stream was cut into reads: two
  sequences of reads with the same concatenation lead to the same parser (statistics included),
  the same caller state and the same number of frames.\<close>
lemma frame_receive_chunking:
  assumes "parser_inv p" and "concat reads = concat reads'"
  shows "foldl (frame_receive callback) (p, u, n) reads = foldl (frame_receive callback) (p, u, n) reads'"
  using assms by (intro frame_stream.chunking_irrelevant) (simp add: frame_ready_def)

text \<open>C12: Resynchronisation: after any bytes whatsoever, in any parser state, a frame built around a
  clean payload is delivered exactly once, byte for byte, and leaves the parser idle.\<close>
theorem frame_parser_resync:
  assumes "payload_ok q"
  shows "case frame_parser_feed callback p (Some (junk @ frame_of q)) u of
     (p', u', n) \<Rightarrow>
       (case frame_parser_feed callback p (Some junk) u of
          (p0, u0, n0) \<Rightarrow>
            n = n0 + 1 \<and> \<not> collecting p' \<and> buffer p' = []
            \<and> u' = (case callback of None \<Rightarrow> u0 | Some f \<Rightarrow>
                 f \<lparr>raw = frame_of q, payload = q, received_crc = crc16_bytes 0xFFFF q,
                    calculated_crc = crc16_bytes 0xFFFF q\<rparr> u0))"
  by (simp add: frame_parser_feed_def frame_parser_frame_of [OF assms] frame_parser_reset_def
      split: prod.split)

theorem frame_parser_resync_witness:
  "payload_ok ''1,N1,000001,DATA''
   \<and> fst (snd (frame_parser_feed log_frame frame_parser_init (Some (''noise@1,N'' @ frame_of ''1,N1,000001,DATA'')) [])) \<noteq> []"
proof -
  have ok: "payload_ok ''1,N1,000001,DATA''" by (simp add: payload_ok_def frame_consts)
  from frame_parser_resync [OF ok, of log_frame frame_parser_init "''noise@1,N''" "[]"] ok
  show ?thesis by (auto split: prod.splits)
qed

lemma idle_discards:
  "CHR ''@'' \<notin> set t \<Longrightarrow> \<not> collecting p \<Longrightarrow>
   \<exists>k. fold (frame_parser_byte callback) t (p, u, n) = (bump_stats (\<lambda>st. st\<lparr>discarded_bytes := k\<rparr>) p, u, n)"
proof (induction t arbitrary: p)
  case Nil
  then show ?case by (intro exI [of _ "discarded_bytes (stats p)"]) simp
next
  case (Cons c t)
  let ?p = "bump_stats (\<lambda>st. st\<lparr>discarded_bytes := discarded_bytes st + 1\<rparr>) p"
  have "\<exists>k. fold (frame_parser_byte callback) t (?p, u, n) = (bump_stats (\<lambda>st. st\<lparr>discarded_bytes := k\<rparr>) ?p, u, n)"
    by (rule Cons.IH) (use Cons.prems in auto)
  moreover have "frame_parser_byte callback c (p, u, n) = (?p, u, n)" using Cons.prems by (auto simp: frame_parser_byte_def)
  ultimately show ?case by simp
qed

lemma begin_frame_valid [simp]: "valid_frames (stats (begin_frame p)) = valid_frames (stats p)"
  by (simp add: begin_frame_def start_frame_def)

text \<open>A line whose only stars are in the wrong place.\<close>

lemma validate_misplaced_star:
  assumes "\<And>i. i < length (cstr buf) \<Longrightarrow> cstr buf ! i = CHR ''*'' \<Longrightarrow> i + 7 \<noteq> length buf"
  shows "validate_frame buf = Frame_Format_Error"
proof (cases "strrchr_index (CHR ''*'') (cstr buf)")
  case None
  then show ?thesis by (simp add: validate_frame_def Let_def)
next
  case (Some i)
  with strrchr_index_SomeD [OF Some] assms [of i] show ?thesis by (auto simp: validate_frame_def Let_def)
qed

lemma misplaced_star_line:
  assumes "CHR ''@'' \<notin> set t" "LF \<notin> set t" "length t + 2 < FRAME_MAX_LEN" "CHR ''@'' \<notin> set rest"
    and "\<And>i. i < length (cstr t) \<Longrightarrow> cstr t ! i = CHR ''*'' \<Longrightarrow> i + 6 \<noteq> length t"
  shows "\<exists>k. fold (frame_parser_byte callback) (CHR ''@'' # t @ [LF] @ rest) (p, u, n) =
    (frame_parser_reset (bump_stats (\<lambda>st. st\<lparr>format_errors := format_errors st + 1, discarded_bytes := k\<rparr>) (begin_frame p)), u, n)"
proof -
  let ?b = "CHR ''@'' # t @ [LF]"
  have star: "i + 7 \<noteq> length ?b" if "i < length (cstr ?b)" "cstr ?b ! i = CHR ''*''" for i
  proof (cases i)
    case (Suc j)
    have c: "cstr ?b = CHR ''@'' # (if NUL \<in> set t then cstr t else t @ [LF])" "NUL \<notin> set t \<Longrightarrow> cstr t = t"
      by (auto simp: cstr_def takeWhile_append)
    then have "j < length (cstr t) \<and> cstr t ! j = CHR ''*''"
      using that Suc by (auto simp: nth_append less_Suc_eq split: if_splits)
    then show ?thesis using assms(5) [of j] Suc by simp
  qed (use that in \<open>simp add: cstr_def\<close>)
  have v: "validate_frame ?b = Frame_Format_Error" by (rule validate_misplaced_star [OF star])
  let ?p = "frame_parser_reset (bump_stats (\<lambda>st. st\<lparr>format_errors := format_errors st + 1\<rparr>) (begin_frame p))"
  have "fold (frame_parser_byte callback) ?b (p, u, n) = (?p, u, n)"
    unfolding frame_parser_line [OF assms(1-3)] finish_line_def using v by (simp add: frame_parser_reset_def)
  moreover obtain k where "fold (frame_parser_byte callback) rest (?p, u, n) = (bump_stats (\<lambda>st. st\<lparr>discarded_bytes := k\<rparr>) ?p, u, n)"
    using idle_discards [OF assms(4), of ?p callback u n] by (auto simp: frame_parser_reset_def)
  moreover have "CHR ''@'' # t @ [LF] @ rest = ?b @ rest" by simp
  ultimately show ?thesis by (intro exI [of _ k]) (simp add: frame_parser_reset_def del: append_Cons)
qed

lemma corruption_crc_error:
  assumes "payload_ok (l @ [a', b'] @ r)" and "a \<noteq> a' \<or> b \<noteq> b'"
  shows "frame_parser_feed callback p
       (Some (''@'' @ (l @ [a', b'] @ r) @ ''*'' @ print_04X (crc16_bytes 0xFFFF (l @ [a, b] @ r)) @ [CR, LF])) u
     = (frame_parser_reset (bump_stats (\<lambda>st. st\<lparr>crc_errors := crc_errors st + 1\<rparr>) (begin_frame p)), u, 0)"
proof -
  have "crc16_bytes 0xFFFF (l @ [a', b'] @ r) \<noteq> crc16_bytes 0xFFFF (l @ [a, b] @ r)"
    using crc16_burst [of "0xFFFF" l a' b' r a b] assms(2) by blast
  with frame_parser_crc_line [OF assms(1), of callback "crc16_bytes 0xFFFF (l @ [a, b] @ r)" p u 0]
  show ?thesis by (simp only: frame_parser_feed_def option.case if_False)
qed

text \<open>A payload with a line feed or a NUL in place of the corrupted bytes.\<close>

lemma corruption_format_error:
  assumes ok: "payload_ok (l @ [a, b] @ r)" "CHR ''*'' \<notin> set (l @ r)" and at: "a' \<noteq> CHR ''@''" "b' \<noteq> CHR ''@''"
    and bad: "{a', b'} \<inter> {NUL, LF} \<noteq> {}"
  shows "\<exists>k. fold (frame_parser_byte callback) (''@'' @ (l @ [a', b'] @ r) @ ''*'' @ print_04X w @ [CR, LF]) (p, u, n) =
    (frame_parser_reset (bump_stats (\<lambda>st. st\<lparr>format_errors := format_errors st + 1, discarded_bytes := k\<rparr>) (begin_frame p)), u, n)"
    (is "?error (''@'' @ (l @ [a', b'] @ r) @ ''*'' @ print_04X w @ [CR, LF])")
proof -
  have plain: "CHR ''@'' \<notin> set (l @ r)" "LF \<notin> set (l @ r)" "NUL \<notin> set (l @ r)" "length (l @ r) + 10 < FRAME_MAX_LEN"
    using ok(1) by (auto simp: payload_ok_def)
  have "\<forall>c \<in> set l. c \<noteq> NUL" using plain(3) by auto
  then have l: "cstr (l @ x) = l @ cstr x" for x by (simp add: cstr_def takeWhile_append2)
  have star: "(l @ x) ! i = CHR ''*'' \<Longrightarrow> length l \<le> i" for x i
    using ok(2) by (metis Un_iff linorder_not_less nth_append nth_mem set_append)
  have early: "i + 6 \<noteq> length t" if "cstr t = l @ y" "i < length (cstr t)" "cstr t ! i = CHR ''*''"
    "length y \<le> 1" "length t < length l + 6 \<or> length l + 6 < length t" for t y i
    using that star [of y i] by auto
  let ?tail = "''*'' @ print_04X w @ [CR]"
  consider (lf1) "a' = LF" | (lf2) "a' \<noteq> LF" "b' = LF" | (nul1) "a' = NUL" "b' \<noteq> LF" | (nul2) "a' \<notin> {NUL, LF}" "b' = NUL"
    using bad by auto
  then show ?thesis
  proof cases
    case lf1
    have c: "cstr (l @ []) = l @ []" unfolding l using lf1 by (simp add: cstr_def)
    have "?error (CHR ''@'' # (l @ []) @ [LF] @ (b' # r @ ?tail @ [LF]))"
      by (rule misplaced_star_line [OF _ _ _ _ early [OF c]]) (use lf1 plain at print_04X_plain in auto)
    then show ?thesis by (simp add: lf1)
  next
    case lf2
    have c: "cstr (l @ [a']) = l @ (if a' = NUL then [] else [a'])" unfolding l using lf2 by (simp add: cstr_def)
    have "?error (CHR ''@'' # (l @ [a']) @ [LF] @ (r @ ?tail @ [LF]))"
      by (rule misplaced_star_line [OF _ _ _ _ early [OF c]]) (use lf2 plain at print_04X_plain in auto)
    then show ?thesis by (simp add: lf2)
  next
    case nul1
    have c: "cstr (l @ [NUL, b'] @ r @ ?tail) = l @ []" unfolding l using nul1 by (simp add: cstr_def)
    have "?error (CHR ''@'' # (l @ [NUL, b'] @ r @ ?tail) @ [LF] @ [])"
      by (rule misplaced_star_line [OF _ _ _ _ early [OF c]]) (use nul1 plain at print_04X_plain in auto)
    then show ?thesis by (simp add: nul1)
  next
    case nul2
    have c: "cstr (l @ [a', NUL] @ r @ ?tail) = l @ [a']" unfolding l using nul2 by (simp add: cstr_def)
    have "?error (CHR ''@'' # (l @ [a', NUL] @ r @ ?tail) @ [LF] @ [])"
      by (rule misplaced_star_line [OF _ _ _ _ early [OF c]]) (use nul2 plain at print_04X_plain in auto)
    then show ?thesis by (simp add: nul2)
  qed
qed

text \<open>C13: A corrupted frame is never delivered: take the line of a frame whose payload has no star (no
  builder puts one there), and change one or two neighbouring bytes of the payload into anything but
  an \<open>@\<close>, which would start another frame. Then the callback is not called, no frame is counted
  as valid, and the parser is idle again. If the changed bytes are neither a line feed nor NUL, the line
  is counted as one CRC error and nothing else; otherwise as a format error.\<close>
theorem frame_parser_rejects_corruption:
  assumes "payload_ok (l @ [a, b] @ r)" "CHR ''*'' \<notin> set (l @ r)" and "a \<noteq> a' \<or> b \<noteq> b'" "a' \<noteq> CHR ''@''" "b' \<noteq> CHR ''@''"
  shows "case frame_parser_feed callback p
       (Some (''@'' @ (l @ [a', b'] @ r) @ ''*'' @ print_04X (crc16_bytes 0xFFFF (l @ [a, b] @ r)) @ [CR, LF])) u
     of (p', u', n) \<Rightarrow> u' = u \<and> n = 0 \<and> \<not> collecting p' \<and> buffer p' = []
       \<and> valid_frames (stats p') = valid_frames (stats p)
       \<and> (if {a', b'} \<inter> {NUL, LF} = {}
          then p' = frame_parser_reset (bump_stats (\<lambda>st. st\<lparr>crc_errors := crc_errors st + 1\<rparr>) (begin_frame p))
          else format_errors (stats p') = format_errors (stats (begin_frame p)) + 1)"
proof (cases "{a', b'} \<inter> {NUL, LF} = {}")
  case True
  then have "payload_ok (l @ [a', b'] @ r)" using assms by (auto simp: payload_ok_def)
  from corruption_crc_error [OF this assms(3), of callback p u] True show ?thesis
    by (simp add: frame_parser_reset_def del: append_Cons append_assoc)
next
  case False
  from corruption_format_error [OF assms(1,2,4,5) False, of callback "crc16_bytes 0xFFFF (l @ [a, b] @ r)" p u 0] obtain k where
    "fold (frame_parser_byte callback) (''@'' @ (l @ [a', b'] @ r) @ ''*'' @ print_04X (crc16_bytes 0xFFFF (l @ [a, b] @ r)) @ [CR, LF]) (p, u, 0) =
    (frame_parser_reset (bump_stats (\<lambda>st. st\<lparr>format_errors := format_errors st + 1, discarded_bytes := k\<rparr>) (begin_frame p)), u, 0)" by blast
  with False show ?thesis unfolding frame_parser_feed_def option.case
    by (auto simp: frame_parser_reset_def simp del: append_Cons append_assoc fold_append fold_simps)
qed

theorem frame_parser_rejects_corruption_witness:
  "snd (frame_parser_feed log_frame frame_parser_init
      (Some (''@'' @ (''1,N'' @ ''21'' @ []) @ ''*'' @ print_04X (crc16_bytes 0xFFFF (''1,N'' @ ''1,'' @ [])) @ [CR, LF])) [])
    = ([], 0)"
  using frame_parser_rejects_corruption [of "''1,N''" "CHR ''1''" "CHR '',''" "[]" "CHR ''2''" "CHR ''1''", where callback = log_frame and p = frame_parser_init and u = "[]"]
  by (auto simp: payload_ok_def frame_consts simp del: append_Cons split: prod.splits)

section \<open>Decoding inverts building\<close>

text \<open>Fields that fit the arrays of \<open>frame_kv_t\<close>, an id that fits 32 bytes; C strings hold no NUL.\<close>

definition field_fits :: "frame_kv \<Rightarrow> bool" where
  "field_fits f =
     (length (kv_key f) < FRAME_KV_KEY_MAX \<and> length (kv_value f) < FRAME_KV_VALUE_MAX
      \<and> NUL \<notin> set (kv_key f) \<and> NUL \<notin> set (kv_value f))"

definition id_fits :: "string \<Rightarrow> bool" where
  "id_fits i = (length i < 32 \<and> NUL \<notin> set i)"

lemma node_id_validD: "node_id_is_valid (Some s) \<Longrightarrow> s \<noteq> [] \<and> (\<forall>c \<in> set s. id_char_ok c)"
  by (auto simp: node_id_is_valid_def list_all_iff)

lemma field_okD:
  "field_ok f \<Longrightarrow> kv_key f \<noteq> [] \<and> kv_value f \<noteq> []
     \<and> (\<forall>c \<in> set (kv_key f). field_char_ok c) \<and> (\<forall>c \<in> set (kv_value f). field_char_ok c)"
  by (auto simp: field_ok_def field_text_is_valid_def list_all_iff)

lemma kv_text_chars:
  assumes "field_ok f" "c \<in> set (kv_text f)"
  shows "c \<noteq> CHR '','' \<and> c \<noteq> CHR ''@'' \<and> c \<noteq> LF"
  using field_okD [OF assms(1)] assms(2) by (auto simp: kv_text_def field_char_ok_def)

lemma kv_text_nonempty [simp]: "kv_text f \<noteq> []"
  by (simp add: kv_text_def)

lemma parse_kv_token_text:
  assumes "field_ok f" "field_fits f" shows "parse_kv_token (kv_text f) = Some f"
proof -
  have "CHR ''='' \<notin> set (kv_key f)" using field_okD [OF assms(1)] by (auto simp: field_char_ok_def)
  then have "kv_key f ! j \<noteq> CHR ''=''" if "j < length (kv_key f)" for j
    using that by (auto simp: in_set_conv_nth)
  then have "find_index (\<lambda>c. c = CHR ''='') (kv_text f) = Some (length (kv_key f))"
    by (intro find_index_SomeI) (auto simp: kv_text_def nth_append)
  then show ?thesis
    using field_okD [OF assms(1)] assms(2)
    by (simp add: parse_kv_token_def field_fits_def Let_def) (simp add: kv_text_def)
qed

lemma parse_kv_tokens_text:
  "list_all field_ok fs \<Longrightarrow> list_all field_fits fs \<Longrightarrow> parse_kv_tokens (map kv_text fs) = Some fs"
  by (induction fs) (simp_all add: parse_kv_token_text)

lemma strtok_fields:
  "t \<noteq> [] \<Longrightarrow> CHR '','' \<notin> set t \<Longrightarrow> list_all field_ok fs \<Longrightarrow>
   strtok_all (CHR '','') (t @ concat (map (\<lambda>f. '','' @ kv_text f) fs)) = t # map kv_text fs"
proof (induction fs arbitrary: t)
  case Nil
  then show ?case by (simp add: strtok_all_none)
next
  case (Cons f fs)
  have "CHR '','' \<notin> set (kv_text f)" using Cons.prems kv_text_chars [of f "CHR '',''"] by auto
  with Cons show ?case by (simp add: strtok_all_append)
qed

lemma print_06u_no: "is_digit c = False \<Longrightarrow> c \<notin> set (print_06u n)"
  using print_06u_digits by blast

lemma special_not_digit [simp]:
  "\<not> is_digit (CHR '','')" "\<not> is_digit (CHR ''@'')" "\<not> is_digit LF" "\<not> is_digit NUL"
  by (simp_all add: is_digit_def)

lemma parse_uint32_print_06u:
  assumes "n < 1000000" shows "parse_uint32_decimal (print_06u n) = Some (of_nat n)"
proof -
  have "length (print_06u n) = 6" using assms by simp
  then have ne: "print_06u n \<noteq> []" by auto
  have "strtoul10 (print_06u n) = (n, [], False)"
    using strtoul10_digits [OF ne] print_06u_digits assms by simp
  then show ?thesis using ne assms by (simp add: parse_uint32_decimal_def)
qed

lemma header_tokens:
  assumes "i \<noteq> []" "CHR '','' \<notin> set i" "n < 1000000"
  shows "strtok_all (CHR '','') (''1,'' @ i @ '','' @ print_06u n @ '','' @ rest)
       = [''1'', i, print_06u n] @ strtok_all (CHR '','') rest"
proof -
  have "length (print_06u n) = 6" using assms by simp
  then have "print_06u n \<noteq> []" by auto
  moreover have "strtok_all (CHR '','') (''1'' @ CHR '','' # x) = ''1'' # strtok_all (CHR '','') x" for x
    by (rule strtok_all_append) simp_all
  ultimately show ?thesis using assms by (simp add: strtok_all_append print_06u_no)
qed

definition type_text :: "string \<Rightarrow> bool" where
  "type_text t = (t \<in> {''DATA'', ''CMD'', ''ACK''})"

lemma kv_payload_tokens:
  assumes "i \<noteq> []" "CHR '','' \<notin> set i" "n < 1000000" "type_text type" "list_all field_ok fs"
  shows "strtok_all (CHR '','') (kv_payload i n type fs) = [''1'', i, print_06u n, type] @ map kv_text fs"
  unfolding kv_payload_def
  using assms header_tokens [OF assms(1-3)] strtok_fields [of type fs] by (auto simp: type_text_def)

lemma kv_payload_chars:
  assumes "node_id_is_valid (Some i)" "list_all field_ok fs" "type_text type"
  shows "CHR ''@'' \<notin> set (kv_payload i n type fs)" "LF \<notin> set (kv_payload i n type fs)"
  using node_id_validD [OF assms(1)] assms(2,3) kv_text_chars
  by (auto simp: kv_payload_def id_char_ok_def type_text_def list_all_iff print_06u_no)

lemma kv_payload_no_nul:
  assumes "id_fits i" "list_all field_fits fs" "type_text type"
  shows "NUL \<notin> set (kv_payload i n type fs)"
  using assms by (auto simp: kv_payload_def id_fits_def field_fits_def type_text_def list_all_iff print_06u_no kv_text_def)

lemma parse_kv_payload_built:
  assumes "node_id_is_valid (Some i)" "id_fits i" "list_all field_ok fs" "list_all field_fits fs"
    "length fs \<le> FRAME_DATA_MAX_FIELDS" "type_text type" "n < 1000000"
    "payload f = kv_payload i n type fs" "length (payload f) < FRAME_MAX_LEN"
  shows "parse_kv_payload f type id_out 32 = (True, i, of_nat n, fs)"
proof -
  have i: "i \<noteq> []" "CHR '','' \<notin> set i"
    using node_id_validD [OF assms(1)] by (auto simp: id_char_ok_def)
  have "strtok_all (CHR '','') (cstr (payload f)) = [''1'', i, print_06u n, type] @ map kv_text fs"
    using kv_payload_no_nul [OF assms(2,4,6)] kv_payload_tokens [OF i assms(7,6,3)] assms(8) by simp
  then show ?thesis
    using assms(2-5,7,9) i by (simp add: parse_kv_payload_def Let_def parse_uint32_print_06u
      parse_kv_tokens_text id_fits_def)
qed

lemma message_type_built:
  assumes "node_id_is_valid (Some i)" "id_fits i" "list_all field_ok fs" "list_all field_fits fs"
    "type_text type" "n < 1000000"
    "payload f = kv_payload i n type fs" "length (payload f) < FRAME_MAX_LEN"
  shows "frame_get_message_type (Some f) =
     (if type = ''DATA'' then FRAME_MESSAGE_DATA else if type = ''CMD'' then FRAME_MESSAGE_CMD
      else FRAME_MESSAGE_ACK)"
proof -
  have i: "i \<noteq> []" "CHR '','' \<notin> set i"
    using node_id_validD [OF assms(1)] by (auto simp: id_char_ok_def)
  have "strtok_all (CHR '','') (cstr (payload f)) = [''1'', i, print_06u n, type] @ map kv_text fs"
    using kv_payload_no_nul [OF assms(2,4,5)] kv_payload_tokens [OF i assms(6,5,3)] assms(7) by simp
  then show ?thesis
    using assms(5,8) by (auto simp: frame_get_message_type_def Let_def type_text_def)
qed

text \<open>A frame built into a buffer of at most 256 bytes goes through the parser and is what was built.\<close>

lemma built_frame_received:
  assumes b: "build_kv_frame (Some old) out_size (Some i) sequence type (Some fs) (length fs) = (Inr n, Some text)"
    and "out_size \<le> FRAME_MAX_LEN" "id_fits i" "list_all field_fits fs" "type_text type"
  shows "\<exists>f. snd (frame_parser_feed log_frame p (Some text) []) = ([f], 1)
     \<and> payload f = kv_payload i (unat (sequence mod 1000000)) type fs
     \<and> length (payload f) < FRAME_MAX_LEN
     \<and> parse_kv_payload f type [] 32 = (True, i, sequence mod 1000000, fs)
     \<and> frame_get_message_type (Some f) =
         (if type = ''DATA'' then FRAME_MESSAGE_DATA else if type = ''CMD'' then FRAME_MESSAGE_CMD
          else FRAME_MESSAGE_ACK)"
proof -
  let ?n = "unat (sequence mod 1000000)" and ?q = "kv_payload i (unat (sequence mod 1000000)) type fs"
  let ?f = "\<lparr>raw = frame_of ?q, payload = ?q, received_crc = crc16_bytes 0xFFFF ?q,
    calculated_crc = crc16_bytes 0xFFFF ?q\<rparr>"
  have facts: "length fs \<le> FRAME_DATA_MAX_FIELDS" "node_id_is_valid (Some i)" "list_all field_ok fs"
    "length ?q + 8 < out_size" "text = frame_of ?q"
    using iffD1 [OF build_kv_frame_Inr b] by (auto simp: Let_def)
  have n: "?n < 1000000" by (simp add: unat_mod)
  have "payload_ok ?q"
    using facts assms kv_payload_chars [OF facts(2,3) assms(5), of ?n]
      kv_payload_no_nul [OF assms(3-5), of ?n] by (simp add: payload_ok_def) (simp add: kv_payload_def)
  then have "snd (frame_parser_feed log_frame p (Some text) []) = ([?f], 1)"
    by (simp add: frame_parser_feed_def facts(5) frame_parser_frame_of)
  moreover have len: "length (payload ?f) < FRAME_MAX_LEN" using facts assms by simp
  moreover have "parse_kv_payload ?f type [] 32 = (True, i, sequence mod 1000000, fs)"
    using parse_kv_payload_built [OF facts(2) assms(3) facts(3) assms(4) facts(1) assms(5) n _ len] by simp
  moreover note message_type_built [OF facts(2) assms(3) facts(3) assms(4,5) n _ len]
  ultimately show ?thesis by (intro exI [of _ ?f]) simp
qed

text \<open>C14: A DATA frame arrives as it was sent: if \<open>frame_build_data_kv\<close> succeeds on an id below 32
  characters and fields that fit their arrays, with a buffer of at most 256 bytes, then feeding its
  output to the parser, in any state, delivers one frame, which is recognised as DATA and which
  \<open>frame_decode_data\<close> decodes to the same id and fields and the sequence number modulo 10^6.\<close>
theorem frame_data_roundtrip:
  assumes "frame_build_data_kv (Some old) out_size (Some i) sequence (Some fs) (length fs) = (Inr n, Some text)"
    and "out_size \<le> 256" "id_fits i" "list_all field_fits fs"
  shows "\<exists>f. snd (frame_parser_feed (Some (\<lambda>f log. log @ [f])) p (Some text) []) = ([f], 1)
     \<and> frame_get_message_type (Some f) = FRAME_MESSAGE_DATA
     \<and> frame_decode_data (Some f) (Some d) =
         (True, Some \<lparr>data_node_id = i, data_sequence = sequence mod 1000000, data_fields = fs\<rparr>)"
proof -
  from built_frame_received [OF assms(1) [unfolded frame_build_data_kv_def] _ assms(3,4), of p] assms(2)
  show ?thesis by (auto simp: type_text_def frame_consts frame_decode_data_def)
qed

theorem frame_data_roundtrip_witness:
  "\<exists>text f. frame_build_data (Some []) 256 (Some ''N1'') 1000007 (-45) 601 = (Inr 36, Some text)
     \<and> snd (frame_parser_feed log_frame frame_parser_init (Some text) []) = ([f], 1)
     \<and> frame_decode_data (Some f) (Some zero_frame_data) =
         (True, Some \<lparr>data_node_id = ''N1'', data_sequence = 7,
            data_fields = [\<lparr>kv_key = ''T'', kv_value = ''-45''\<rparr>, \<lparr>kv_key = ''H'', kv_value = ''601''\<rparr>]\<rparr>)"
proof -
  let ?fs = "[\<lparr>kv_key = ''T'', kv_value = ''-45''\<rparr>, \<lparr>kv_key = ''H'', kv_value = ''601''\<rparr>]"
  let ?p = "''1,N1,000007,DATA,T=-45,H=601''"
  have pr: "print_d (-45) = ''-45''" "print_d 601 = ''601''" "print_06u 7 = ''000007''"
    by (simp_all add: print_compute)
  have p: "kv_payload ''N1'' 7 ''DATA'' ?fs = ?p"
    by (simp add: kv_payload_def pr kv_text_def)
  have b: "frame_build_data_kv (Some []) 256 (Some ''N1'') 1000007 (Some ?fs) (length ?fs) = (Inr 36, Some (frame_of ?p))"
    unfolding frame_build_data_kv_def build_kv_frame_Inr
    by (simp add: p field_ok_def field_text_is_valid_def field_char_ok_def node_id_is_valid_def
        id_char_ok_def frame_consts)
  have b': "frame_build_data (Some []) 256 (Some ''N1'') 1000007 (-45) 601 = (Inr 36, Some (frame_of ?p))"
    using b by (simp add: frame_build_data_def pr numeral_2_eq_2)
  show ?thesis
    using frame_data_roundtrip [OF b, of frame_parser_init zero_frame_data] b'
    by (auto simp: id_fits_def field_fits_def frame_consts)
qed

text \<open>A CMD frame arrives as it was sent: what \<open>frame_build_command_kv\<close> writes is delivered
  once by the parser, recognised as CMD, and \<open>frame_decode_command\<close> gives the same sender, fields
  and sequence number modulo 10^6 (with an empty target node).\<close>
theorem frame_command_roundtrip:
  assumes "frame_build_command_kv (Some old) out_size (Some i) sequence (Some fs) (length fs) = (Inr n, Some text)"
    and "out_size \<le> 256" "id_fits i" "list_all field_fits fs"
  shows "\<exists>f. snd (frame_parser_feed (Some (\<lambda>f log. log @ [f])) p (Some text) []) = ([f], 1)
     \<and> frame_get_message_type (Some f) = FRAME_MESSAGE_CMD
     \<and> frame_decode_command (Some f) (Some c) =
         (True, Some \<lparr>cmd_target_node = [], cmd_sender = i, cmd_sequence = sequence mod 1000000, cmd_fields = fs\<rparr>)"
proof -
  from built_frame_received [OF assms(1) [unfolded frame_build_command_kv_def] _ assms(3,4), of p] assms(2)
  show ?thesis by (auto simp: type_text_def frame_consts frame_decode_command_def)
qed

theorem frame_command_roundtrip_witness:
  "\<exists>text f. frame_build_command_kv (Some []) 64 (Some ''GW'') 3 (Some []) 0 = (Inr 23, Some text)
     \<and> snd (frame_parser_feed log_frame frame_parser_init (Some text) []) = ([f], 1)
     \<and> fst (frame_decode_command (Some f) (Some zero_frame_command))"
proof -
  have p: "kv_payload ''GW'' 3 ''CMD'' [] = ''1,GW,000003,CMD''"
    by (simp add: kv_payload_def print_compute)
  have b: "frame_build_command_kv (Some []) 64 (Some ''GW'') 3 (Some []) (length ([] :: frame_kv list)) = (Inr 23, Some (frame_of ''1,GW,000003,CMD''))"
    unfolding frame_build_command_kv_def build_kv_frame_Inr
    by (simp add: p node_id_is_valid_def id_char_ok_def frame_consts)
  show ?thesis
    using frame_command_roundtrip [OF b, of frame_parser_init zero_frame_command] b
    by (auto simp: id_fits_def)
qed

text \<open>An ACK frame arrives as it was sent: what \<open>frame_build_ack_kv\<close> writes is delivered once
  by the parser, recognised as ACK, and \<open>frame_decode_ack\<close> gives the same node, fields and
  sequence number modulo 10^6, which is what pairs it with its command.\<close>
theorem frame_ack_roundtrip:
  assumes "frame_build_ack_kv (Some old) out_size (Some i) sequence (Some fs) (length fs) = (Inr n, Some text)"
    and "out_size \<le> 256" "id_fits i" "list_all field_fits fs"
  shows "\<exists>f. snd (frame_parser_feed (Some (\<lambda>f log. log @ [f])) p (Some text) []) = ([f], 1)
     \<and> frame_get_message_type (Some f) = FRAME_MESSAGE_ACK
     \<and> frame_decode_ack (Some f) (Some a) =
         (True, Some \<lparr>ack_node_id = i, ack_sequence = sequence mod 1000000, ack_fields = fs\<rparr>)"
proof -
  from built_frame_received [OF assms(1) [unfolded frame_build_ack_kv_def] _ assms(3,4), of p] assms(2)
  show ?thesis by (auto simp: type_text_def frame_consts frame_decode_ack_def)
qed

theorem frame_ack_roundtrip_witness:
  "\<exists>text f. frame_build_ack_kv (Some []) 64 (Some ''N2'') 9 (Some []) 0 = (Inr 23, Some text)
     \<and> snd (frame_parser_feed log_frame frame_parser_init (Some text) []) = ([f], 1)
     \<and> fst (frame_decode_ack (Some f) (Some zero_frame_ack))"
proof -
  have p: "kv_payload ''N2'' 9 ''ACK'' [] = ''1,N2,000009,ACK''"
    by (simp add: kv_payload_def print_compute)
  have b: "frame_build_ack_kv (Some []) 64 (Some ''N2'') 9 (Some []) (length ([] :: frame_kv list)) = (Inr 23, Some (frame_of ''1,N2,000009,ACK''))"
    unfolding frame_build_ack_kv_def build_kv_frame_Inr
    by (simp add: p node_id_is_valid_def id_char_ok_def frame_consts)
  show ?thesis
    using frame_ack_roundtrip [OF b, of frame_parser_init zero_frame_ack] b
    by (auto simp: id_fits_def)
qed

lemma nack_tokens:
  assumes "i \<noteq> []" "CHR '','' \<notin> set i" "n < 1000000" "CHR '','' \<notin> set e"
  shows "strtok_all (CHR '','') (nack_payload i n e) = [''1'', i, print_06u n, ''NACK'', ''ERR='' @ e]"
proof -
  have "strtok_all (CHR '','') (''NACK'' @ CHR '','' # ''ERR='' @ e) = ''NACK'' # strtok_all (CHR '','') (''ERR='' @ e)"
    by (rule strtok_all_append) simp_all
  moreover have "strtok_all (CHR '','') (''ERR='' @ e) = [''ERR='' @ e]"
    using assms(4) by (intro strtok_all_none) simp_all
  ultimately show ?thesis
    unfolding nack_payload_def using header_tokens [OF assms(1-3), of "''NACK'' @ CHR '','' # ''ERR='' @ e"]
    by simp
qed

lemma nack_payload_chars:
  assumes "node_id_is_valid (Some i)" "node_id_is_valid (Some e)" "id_fits i" "id_fits e"
  shows "CHR ''@'' \<notin> set (nack_payload i n e)" "LF \<notin> set (nack_payload i n e)" "NUL \<notin> set (nack_payload i n e)"
  using node_id_validD [OF assms(1)] node_id_validD [OF assms(2)] assms(3,4)
  by (auto simp: nack_payload_def id_char_ok_def id_fits_def print_06u_no)

text \<open>A NACK frame arrives as it was sent: what \<open>frame_build_nack\<close> writes is delivered once by
  the parser, recognised as NACK, and \<open>frame_decode_nack\<close> gives the same node, error text and
  sequence number modulo 10^6.\<close>
theorem frame_nack_roundtrip:
  assumes "frame_build_nack (Some old) out_size (Some i) sequence (Some e) = (Inr n, Some text)"
    and "out_size \<le> 256" "id_fits i" "id_fits e"
  shows "\<exists>f. snd (frame_parser_feed (Some (\<lambda>f log. log @ [f])) p (Some text) []) = ([f], 1)
     \<and> frame_get_message_type (Some f) = FRAME_MESSAGE_NACK
     \<and> frame_decode_nack (Some f) (Some a) =
         (True, Some \<lparr>nack_node_id = i, nack_sequence = sequence mod 1000000, nack_error = e\<rparr>)"
proof -
  let ?n = "unat (sequence mod 1000000)"
  let ?q = "nack_payload i ?n e"
  let ?f = "\<lparr>raw = frame_of ?q, payload = ?q, received_crc = crc16_bytes 0xFFFF ?q,
    calculated_crc = crc16_bytes 0xFFFF ?q\<rparr>"
  have facts: "node_id_is_valid (Some i)" "node_id_is_valid (Some e)" "length ?q + 8 < out_size" "text = frame_of ?q"
    using iffD1 [OF frame_build_nack_Inr assms(1)] by (auto simp: Let_def)
  have n: "?n < 1000000" by (simp add: unat_mod)
  have i: "i \<noteq> []" "CHR '','' \<notin> set i" and e: "e \<noteq> []" "CHR '','' \<notin> set e"
    using node_id_validD [OF facts(1)] node_id_validD [OF facts(2)] by (auto simp: id_char_ok_def)
  note chars = nack_payload_chars [OF facts(1,2) assms(3,4), of ?n]
  have "payload_ok ?q"
    using facts assms(2) chars by (simp add: payload_ok_def frame_consts) (simp add: nack_payload_def)
  then have fed: "snd (frame_parser_feed (Some (\<lambda>f log. log @ [f])) p (Some text) []) = ([?f], 1)"
    by (simp add: frame_parser_feed_def facts(4) frame_parser_frame_of)
  have toks: "strtok_all (CHR '','') (cstr ?q) = [''1'', i, print_06u ?n, ''NACK'', ''ERR='' @ e]"
    using chars(3) nack_tokens [OF i n e(2)] by simp
  have "frame_decode_nack (Some ?f) (Some a) =
         (True, Some \<lparr>nack_node_id = i, nack_sequence = sequence mod 1000000, nack_error = e\<rparr>)"
    using facts(3) assms(2-4) i e n toks
    by (simp add: frame_decode_nack_def frame_consts parse_uint32_print_06u id_fits_def)
  moreover have "frame_get_message_type (Some ?f) = FRAME_MESSAGE_NACK"
    using facts(3) assms(2) toks by (simp add: frame_get_message_type_def frame_consts)
  ultimately show ?thesis using fed by (intro exI [of _ ?f]) simp
qed

theorem frame_nack_roundtrip_witness:
  "\<exists>text f. frame_build_nack (Some []) 64 (Some ''N2'') 9 (Some ''busy'') = (Inr 33, Some text)
     \<and> snd (frame_parser_feed log_frame frame_parser_init (Some text) []) = ([f], 1)
     \<and> fst (frame_decode_nack (Some f) (Some zero_frame_nack))"
proof -
  have p: "nack_payload ''N2'' 9 ''busy'' = ''1,N2,000009,NACK,ERR=busy''"
    by (simp add: nack_payload_def print_compute)
  have b: "frame_build_nack (Some []) 64 (Some ''N2'') 9 (Some ''busy'') = (Inr 33, Some (frame_of ''1,N2,000009,NACK,ERR=busy''))"
    unfolding frame_build_nack_Inr by (simp add: p node_id_is_valid_def id_char_ok_def frame_consts)
  show ?thesis
    using frame_nack_roundtrip [OF b, of frame_parser_init zero_frame_nack] b
    by (auto simp: id_fits_def)
qed

section \<open>Bounds of what is decoded\<close>

lemma parse_kv_tokens_fit:
  "parse_kv_tokens ts = Some fs \<Longrightarrow> length fs = length ts
     \<and> list_all (\<lambda>f. kv_key f \<noteq> [] \<and> kv_value f \<noteq> [] \<and> length (kv_key f) < 16 \<and> length (kv_value f) < 32) fs"
proof (induction ts arbitrary: fs)
  case Nil
  then show ?case by simp
next
  case (Cons t ts)
  then obtain kv fs' where kv: "parse_kv_token t = Some kv" "parse_kv_tokens ts = Some fs'" "fs = kv # fs'"
    by (auto split: option.splits)
  have "kv_key kv \<noteq> [] \<and> kv_value kv \<noteq> [] \<and> length (kv_key kv) < 16 \<and> length (kv_value kv) < 32"
    using kv(1) by (auto simp: parse_kv_token_def Let_def frame_consts split: option.splits if_splits
      dest!: find_index_SomeD)
  with kv Cons.IH show ?case by simp
qed

lemma parse_kv_payload_fit:
  "parse_kv_payload f type id_out cap = (True, i, s, fs) \<Longrightarrow>
     i \<noteq> [] \<and> length i < cap \<and> length fs \<le> 16
     \<and> list_all (\<lambda>f. kv_key f \<noteq> [] \<and> kv_value f \<noteq> [] \<and> length (kv_key f) < 16 \<and> length (kv_value f) < 32) fs"
  by (auto simp: parse_kv_payload_def Let_def frame_consts split: if_splits option.splits
    dest!: parse_kv_tokens_fit)

lemma parse_kv_payload_id: "length id_out < cap \<Longrightarrow> length (fst (snd (parse_kv_payload f type id_out cap))) < cap"
  by (auto simp: parse_kv_payload_def Let_def split: option.splits)

text \<open>Decoding a DATA frame cannot overrun the output struct, whatever the frame holds: the id is
  shorter than 32 bytes in every case, and on success there are at most 16 fields, with a non-empty
  key below 16 bytes and a non-empty value below 32 bytes each.\<close>
theorem frame_decode_data_bounds:
  "case frame_decode_data (Some f) (Some d) of
     (ok, None) \<Rightarrow> False
   | (ok, Some r) \<Rightarrow>
       length (data_node_id r) < 32 \<and> length (data_fields r) \<le> 16
       \<and> list_all (\<lambda>f. kv_key f \<noteq> [] \<and> kv_value f \<noteq> [] \<and> length (kv_key f) < 16 \<and> length (kv_value f) < 32)
            (data_fields r)
       \<and> (if ok then data_node_id r \<noteq> [] else data_fields r = [] \<and> data_sequence r = 0)"
proof -
  obtain ok i s fs where p: "parse_kv_payload f ''DATA'' [] 32 = (ok, i, s, fs)"
    by (cases "parse_kv_payload f ''DATA'' [] 32")
  show ?thesis
  proof (cases ok)
    case True
    with p parse_kv_payload_fit [of f "''DATA''" "[]" 32 i s fs] show ?thesis
      by (auto simp: frame_decode_data_def)
  next
    case False
    with p parse_kv_payload_id [of "[]" 32 f "''DATA''"] show ?thesis
      by (simp add: frame_decode_data_def zero_frame_data_def)
  qed
qed

text \<open>On a frame that fails in its data area, \<open>frame_decode_data\<close> does not leave its output
  unchanged: whatever was in it, its sequence number and fields are cleared and its id is the one
  of the refused frame.\<close>
theorem frame_decode_data_failure_overwrites:
  "frame_decode_data (Some \<lparr>raw = [], payload = ''1,N1,000001,DATA,oops'', received_crc = 0, calculated_crc = 0\<rparr>)
     (Some d) = (False, Some \<lparr>data_node_id = ''N1'', data_sequence = 0, data_fields = []\<rparr>)"
proof -
  have t: "strtok_all (CHR '','') ''1,N1,000001,DATA,oops'' = [''1'', ''N1'', ''000001'', ''DATA'', ''oops'']"
    by (simp add: strtok_all_def)
  have n: "parse_uint32_decimal ''000001'' = Some 1"
    by (simp add: parse_uint32_decimal_def strtoul10_def is_space_def strip_sign_def is_digit_def dec_value_def digit_val_def)
  show ?thesis
    unfolding frame_decode_data_def parse_kv_payload_def
    by (simp add: t n frame_consts parse_kv_token_def zero_frame_data_def)
qed

end
