(* ===== verification/Message_Json.thy ===== *)
theory Message_Json
  imports Frame_Parser
begin

text \<open>
  \<^verbatim>\<open>common/message_json.c\<close>: the one-line JSON messages between gateway and server. A read position
  \<open>p\<close> with its \<open>end\<close> is the list of the bytes from \<open>p\<close> to the end, a position after \<open>k\<close> more bytes
  is that list without its first \<open>k\<close>. A result \<open>None\<close> is the return code -1; a number is the count
  of bytes written or consumed. The builders take the output buffer and return it. The loops of the
  parser shorten the text in every turn, which is their termination argument. The lemmas: what the
  builders write, that the parsers read it back, and where they do not do what is documented.
\<close>

section \<open>Building\<close>

text \<open>The loop over the fields: \<open>first\<close> holds in its first turn, \<open>written\<close> is \<open>out[0..pos)\<close>.\<close>

fun json_append_fields :: "nat \<Rightarrow> bool \<Rightarrow> frame_kv list \<Rightarrow> string \<Rightarrow> string option" where
  "json_append_fields out_size first [] written = Some written"
| "json_append_fields out_size first (f # fs) written =
     (let (stored, n) = snprintf (out_size - length written)
            ((if first then [] else '','') @ [QUOTE] @ kv_key f @ [QUOTE] @ '':'' @ [QUOTE] @ kv_value f @ [QUOTE])
      in if out_size - length written \<le> n then None
         else json_append_fields out_size False fs (written @ stored))"

definition json_quoted :: "string \<Rightarrow> string" where
  "json_quoted s = [QUOTE] @ s @ [QUOTE]"

text \<open>The three builders with a \<open>fields\<close> object differ in the prefix they print.\<close>

definition json_build_with_fields :: "string option \<Rightarrow> nat \<Rightarrow> string \<Rightarrow> frame_kv list \<Rightarrow> nat option \<times> string option" where
  "json_build_with_fields out out_size prefix kvs =
     (let (stored, pos) = snprintf out_size prefix in
      if out_size \<le> pos then (None, Some [])
      else (case json_append_fields out_size True kvs stored of
              None \<Rightarrow> (None, Some [])
            | Some written \<Rightarrow>
                (let (stored', n) = snprintf (out_size - length written) (''}}'' @ [LF]) in
                 if out_size - length written \<le> n then (None, Some [])
                 else (Some (length written + n), Some (written @ stored')))))"

definition message_json_build_data :: "string option \<Rightarrow> nat \<Rightarrow> frame_data option \<Rightarrow> nat option \<times> string option" where
  "message_json_build_data out out_size data =
     (if out = None \<or> out_size = 0 \<or> data = None then (None, out)
      else json_build_with_fields out out_size
        (''{'' @ json_quoted ''node'' @ '':'' @ json_quoted (data_node_id (the data)) @ '','' @
         json_quoted ''seq'' @ '':'' @ print_u (unat (data_sequence (the data))) @ '','' @
         json_quoted ''type'' @ '':'' @ json_quoted ''DATA'' @ '','' @ json_quoted ''fields'' @ '':{'')
        (data_fields (the data)))"

definition message_json_build_ack :: "string option \<Rightarrow> nat \<Rightarrow> frame_ack option \<Rightarrow> nat option \<times> string option" where
  "message_json_build_ack out out_size ack =
     (if out = None \<or> out_size = 0 \<or> ack = None then (None, out)
      else json_build_with_fields out out_size
        (''{'' @ json_quoted ''node'' @ '':'' @ json_quoted (ack_node_id (the ack)) @ '','' @
         json_quoted ''seq'' @ '':'' @ print_u (unat (ack_sequence (the ack))) @ '','' @
         json_quoted ''type'' @ '':'' @ json_quoted ''ACK'' @ '','' @ json_quoted ''fields'' @ '':{'')
        (ack_fields (the ack)))"

definition message_json_build_nack :: "string option \<Rightarrow> nat \<Rightarrow> frame_nack option \<Rightarrow> nat option \<times> string option" where
  "message_json_build_nack out out_size nack =
     (if out = None \<or> out_size = 0 \<or> nack = None then (None, out)
      else
        (let (stored, n) = snprintf out_size
           (''{'' @ json_quoted ''node'' @ '':'' @ json_quoted (nack_node_id (the nack)) @ '','' @
            json_quoted ''seq'' @ '':'' @ print_u (unat (nack_sequence (the nack))) @ '','' @
            json_quoted ''type'' @ '':'' @ json_quoted ''NACK'' @ '','' @
            json_quoted ''error'' @ '':'' @ json_quoted (nack_error (the nack)) @ ''}'' @ [LF])
         in if out_size \<le> n then (None, Some []) else (Some n, Some stored)))"

definition message_json_build_command :: "string option \<Rightarrow> nat \<Rightarrow> frame_command option
    \<Rightarrow> nat option \<times> string option" where
  "message_json_build_command out out_size command =
     (if out = None \<or> out_size = 0 \<or> command = None then (None, out)
      else json_build_with_fields out out_size
        (''{'' @ json_quoted ''node'' @ '':'' @ json_quoted (cmd_target_node (the command)) @ '','' @
         json_quoted ''sender'' @ '':'' @ json_quoted (cmd_sender (the command)) @ '','' @
         json_quoted ''seq'' @ '':'' @ print_u (unat (cmd_sequence (the command))) @ '','' @
         json_quoted ''type'' @ '':'' @ json_quoted ''CMD'' @ '','' @ json_quoted ''fields'' @ '':{'')
        (cmd_fields (the command)))"

section \<open>Scanning\<close>

definition is_json_space :: "char \<Rightarrow> bool" where
  "is_json_space c = (c = CHR '' '' \<or> c = TAB \<or> c = CR \<or> c = LF)"

definition json_skip_whitespace :: "string \<Rightarrow> string" where
  "json_skip_whitespace p = dropWhile is_json_space p"

text \<open>
  The text of a string after its opening quote: up to the next quote that is not skipped by a
  backslash, unchanged. The result is the text and what follows the closing quote.
\<close>

fun json_scan_string :: "string \<Rightarrow> (string \<times> string) option" where
  "json_scan_string [] = None"
| "json_scan_string (c # cs) =
     (if c = QUOTE then Some ([], cs)
      else if c = BSLASH then
        (case cs of
           [] \<Rightarrow> None
         | d # ds \<Rightarrow> map_option (\<lambda>(t, r). (c # d # t, r)) (json_scan_string ds))
      else map_option (\<lambda>(t, r). (c # t, r)) (json_scan_string cs))"

text \<open>A key (after its opening quote) with the colon, up to the first byte of the value.\<close>

definition json_key :: "string \<Rightarrow> (string \<times> string) option" where
  "json_key p =
     (case json_scan_string p of
        None \<Rightarrow> None
      | Some (key, r) \<Rightarrow>
          (case json_skip_whitespace r of
             [] \<Rightarrow> None
           | c # r' \<Rightarrow>
               if c \<noteq> CHR '':'' then None
               else (case json_skip_whitespace r' of [] \<Rightarrow> None | v # vs \<Rightarrow> Some (key, v # vs))))"

text \<open>What follows a value: a comma (\<open>True\<close>, the loop goes on) or the closing brace (\<open>False\<close>).\<close>

definition json_after_value :: "string \<Rightarrow> (bool \<times> string) option" where
  "json_after_value p =
     (case json_skip_whitespace p of
        [] \<Rightarrow> None
      | c # r \<Rightarrow> if c = CHR '','' then Some (True, r) else if c = CHR ''}'' then Some (False, r) else None)"

definition starts_digit :: "string \<Rightarrow> bool" where
  "starts_digit p = (case p of [] \<Rightarrow> False | c # _ \<Rightarrow> is_digit c)"

definition drop_char :: "char \<Rightarrow> string \<Rightarrow> string option" where
  "drop_char c p = (case p of [] \<Rightarrow> None | d # ds \<Rightarrow> if d = c then Some ds else None)"

definition drop_sign :: "string \<Rightarrow> string" where
  "drop_sign p = (case p of [] \<Rightarrow> [] | c # cs \<Rightarrow> if c = CHR ''+'' \<or> c = CHR ''-'' then cs else p)"

definition drop_exponent_mark :: "string \<Rightarrow> string option" where
  "drop_exponent_mark p = (case p of [] \<Rightarrow> None | c # cs \<Rightarrow> if c = CHR ''e'' \<or> c = CHR ''E'' then Some cs else None)"

text \<open>
  The two ways the code reads over a number. A field value must be a JSON number and is kept as
  text; other numbers only have their fraction and exponent skipped.
\<close>

definition json_skip_number :: "string \<Rightarrow> string option" where
  "json_skip_number p =
     (let p1 = (case drop_char (CHR ''-'') p of None \<Rightarrow> p | Some r \<Rightarrow> r) in
      if \<not> starts_digit p1 then None
      else
        (let p2 = dropWhile is_digit p1 in
         case (case drop_char (CHR ''.'') p2 of
                 None \<Rightarrow> Some p2
               | Some r \<Rightarrow> if \<not> starts_digit r then None else Some (dropWhile is_digit r)) of
           None \<Rightarrow> None
         | Some p3 \<Rightarrow>
             (case drop_exponent_mark p3 of
                None \<Rightarrow> Some p3
              | Some r \<Rightarrow>
                  (let r' = drop_sign r in
                   if \<not> starts_digit r' then None else Some (dropWhile is_digit r')))))"

definition json_number_text :: "string \<Rightarrow> (string \<times> string) option" where
  "json_number_text p = map_option (\<lambda>r. (take (length p - length r) p, r)) (json_skip_number p)"

definition json_skip_fraction :: "string \<Rightarrow> string" where
  "json_skip_fraction p =
     (let p1 = (case drop_char (CHR ''.'') p of None \<Rightarrow> p | Some r \<Rightarrow> dropWhile is_digit r) in
      case drop_exponent_mark p1 of None \<Rightarrow> p1 | Some r \<Rightarrow> dropWhile is_digit (drop_sign r))"

text \<open>The digits of an unsigned number, refused when they leave 32 bits.\<close>

fun json_uint :: "nat \<Rightarrow> string \<Rightarrow> (nat \<times> string) option" where
  "json_uint value [] = Some (value, [])"
| "json_uint value (c # cs) =
     (if \<not> is_digit c then Some (value, c # cs)
      else if (0xFFFFFFFF - digit_val c) div 10 < value then None
      else json_uint (value * 10 + digit_val c) cs)"

text \<open>Conversion of a value to \<open>int\<close> (32 bits, two's complement), and \<open>atoi\<close>.\<close>

definition to_int32 :: "int \<Rightarrow> int" where
  "to_int32 v = sint (word_of_int v :: u32)"

definition atoi :: "string \<Rightarrow> int" where
  "atoi s = to_int32 (fst (strtol10 s))"

section \<open>The object parser\<close>

text \<open>\<open>json_object_t\<close>: a found flag with its value is an \<open>option\<close>.\<close>

record json_object =
  jo_node_id :: "string option"
  jo_sender :: "string option"
  jo_sequence :: "u32 option"
  jo_led_value :: "int option"
  jo_error :: "string option"
  jo_type_value :: "string option"
  jo_found_fields :: bool
  jo_fields :: "frame_kv list"

definition zero_json_object :: json_object where
  "zero_json_object = \<lparr>jo_node_id = None, jo_sender = None, jo_sequence = None, jo_led_value = None,
     jo_error = None, jo_type_value = None, jo_found_fields = False, jo_fields = []\<rparr>"

definition kv_array_add :: "frame_kv list \<Rightarrow> string \<Rightarrow> string \<Rightarrow> frame_kv list option" where
  "kv_array_add kvs key value =
     (if key = [] \<or> FRAME_KV_KEY_MAX \<le> length key \<or> value = [] \<or> FRAME_KV_VALUE_MAX \<le> length value
         \<or> FRAME_DATA_MAX_FIELDS \<le> length kvs
      then None
      else Some (kvs @ [\<lparr>kv_key = cstr key, kv_value = cstr value\<rparr>]))"

definition json_field_value :: "string \<Rightarrow> (string \<times> string) option" where
  "json_field_value p =
     (case drop_char QUOTE p of Some r \<Rightarrow> json_scan_string r | None \<Rightarrow> json_number_text p)"

lemma json_scan_string_length: "json_scan_string p = Some (t, r) \<Longrightarrow> length r < length p"
proof (induction p arbitrary: t r rule: json_scan_string.induct)
  case 1
  then show ?case by simp
next
  case (2 c cs)
  show ?case
  proof (cases "c = QUOTE")
    case True
    with 2(3) show ?thesis by simp
  next
    case quote: False
    show ?thesis
    proof (cases "c = BSLASH")
      case True
      with 2(3) quote obtain d ds t' where "cs = d # ds" "json_scan_string ds = Some (t', r)"
        by (auto split: list.splits)
      with 2(1) [OF quote True] show ?thesis by fastforce
    next
      case False
      with 2(3) quote obtain t' where "json_scan_string cs = Some (t', r)" by auto
      with 2(2) [OF quote False] show ?thesis by fastforce
    qed
  qed
qed

lemma json_skip_whitespace_length: "length (json_skip_whitespace p) \<le> length p"
  by (simp add: json_skip_whitespace_def length_dropWhile_le)

lemma json_key_length: "json_key p = Some (k, v) \<Longrightarrow> length v < length p"
proof -
  assume "json_key p = Some (k, v)"
  then obtain r c r' where 1: "json_scan_string p = Some (k, r)" "json_skip_whitespace r = c # r'"
    "json_skip_whitespace r' = v"
    by (auto simp: json_key_def split: option.splits list.splits if_splits)
  have "length r < length p" using json_scan_string_length [OF 1(1)] .
  moreover have "Suc (length r') \<le> length r" using json_skip_whitespace_length [of r] by (simp add: 1(2))
  moreover have "length v \<le> length r'" using json_skip_whitespace_length [of r'] by (simp add: 1(3))
  ultimately show "length v < length p" by simp
qed

lemma json_after_value_length: "json_after_value p = Some (b, r) \<Longrightarrow> length r < length p"
  using json_skip_whitespace_length [of p]
  by (auto simp: json_after_value_def split: list.splits if_splits)

lemma drop_char_length: "drop_char c p = Some r \<Longrightarrow> length r < length p"
  by (auto simp: drop_char_def split: list.splits if_splits)

lemma drop_exponent_mark_length: "drop_exponent_mark p = Some r \<Longrightarrow> length r < length p"
  by (auto simp: drop_exponent_mark_def split: list.splits if_splits)

lemma drop_sign_length: "length (drop_sign p) \<le> length p"
  by (auto simp: drop_sign_def split: list.splits)

lemma json_skip_number_length: "json_skip_number p = Some r \<Longrightarrow> length r \<le> length p"
proof -
  assume a: "json_skip_number p = Some r"
  define p1 where "p1 = (case drop_char (CHR ''-'') p of None \<Rightarrow> p | Some r \<Rightarrow> r)"
  define p2 where "p2 = dropWhile is_digit p1"
  have 1: "length p1 \<le> length p" using drop_char_length [of "CHR ''-''" p] by (auto simp: p1_def split: option.split dest: less_imp_le)
  have 2: "length p2 \<le> length p1" by (simp add: p2_def length_dropWhile_le)
  from a obtain p3 where p3: "(case drop_char (CHR ''.'') p2 of None \<Rightarrow> Some p2
      | Some r \<Rightarrow> if \<not> starts_digit r then None else Some (dropWhile is_digit r)) = Some p3"
    and r: "(case drop_exponent_mark p3 of None \<Rightarrow> Some p3
      | Some r \<Rightarrow> (let r' = drop_sign r in if \<not> starts_digit r' then None else Some (dropWhile is_digit r'))) = Some r"
    unfolding json_skip_number_def Let_def p1_def [symmetric] p2_def [symmetric]
    by (auto split: if_splits option.splits)
  have 3: "length p3 \<le> length p2"
    using p3 drop_char_length [of "CHR ''.''" p2] length_dropWhile_le [of is_digit]
    by (fastforce split: option.splits if_splits intro: le_trans less_imp_le)
  have "length r \<le> length p3"
  proof (cases "drop_exponent_mark p3")
    case None
    with r show ?thesis by simp
  next
    case (Some e)
    with r have "r = dropWhile is_digit (drop_sign e)" by (auto simp: Let_def split: if_splits)
    then show ?thesis
      using drop_exponent_mark_length [OF Some] drop_sign_length [of e] length_dropWhile_le [of is_digit "drop_sign e"] by simp
  qed
  with 1 2 3 show "length r \<le> length p" by simp
qed

lemma json_field_value_length: "json_field_value p = Some (v, r) \<Longrightarrow> length r \<le> length p"
  by (auto simp: json_field_value_def json_number_text_def split: option.splits
      dest!: json_scan_string_length drop_char_length json_skip_number_length)

text \<open>The loop over the members of a \<open>fields\<close> object, after its opening brace.\<close>

function json_fields_loop :: "string \<Rightarrow> frame_kv list \<Rightarrow> (frame_kv list \<times> string) option" where
  "json_fields_loop p kvs =
     (case json_skip_whitespace p of
        [] \<Rightarrow> None
      | c # r \<Rightarrow>
          if c = CHR ''}'' then Some (kvs, r)
          else if c \<noteq> QUOTE then None
          else
            (case json_key r of
               None \<Rightarrow> None
             | Some (key, v) \<Rightarrow>
                 (case json_field_value v of
                    None \<Rightarrow> None
                  | Some (value, v') \<Rightarrow>
                      (case kv_array_add kvs key value of
                         None \<Rightarrow> None
                       | Some kvs' \<Rightarrow>
                           (case json_after_value v' of
                              None \<Rightarrow> None
                            | Some (again, q) \<Rightarrow> if again then json_fields_loop q kvs' else Some (kvs', q))))))"
  by pat_completeness auto
termination
proof (relation "measure (\<lambda>(p, kvs). length p)", goal_cases)
  case 1
  then show ?case by simp
next
  case (2 p kvs c r kv key v vv vl v' kvs' a again q)
  have "length r < length p" using json_skip_whitespace_length [of p] 2(1) by simp
  moreover have "length v < length r" using 2 by (intro json_key_length [of r key v]) auto
  moreover have "length v' \<le> length v" using 2 by (intro json_field_value_length [of v vl v']) auto
  moreover have "length q < length v'" using 2 by (intro json_after_value_length [of v' again q]) auto
  ultimately show ?case by simp
qed

declare json_fields_loop.simps [simp del]

lemma json_fields_loop_length: "json_fields_loop p kvs = Some (kvs', q) \<Longrightarrow> length q < length p"
proof (induction p kvs rule: json_fields_loop.induct)
  case (1 p kvs)
  obtain c r where w: "json_skip_whitespace p = c # r" using 1(2)
    by (subst (asm) json_fields_loop.simps) (auto split: list.splits)
  have lr: "length r < length p" using json_skip_whitespace_length [of p] by (simp add: w)
  show ?case
  proof (cases "c = CHR ''}''")
    case True
    with 1(2) w lr show ?thesis by (subst (asm) json_fields_loop.simps) simp
  next
    case False
    with 1(2) w obtain key v vl v' kvs1 again q1 where
      s: "c = QUOTE" "json_key r = Some (key, v)" "json_field_value v = Some (vl, v')"
        "kv_array_add kvs key vl = Some kvs1" "json_after_value v' = Some (again, q1)"
      and res: "(if again then json_fields_loop q1 kvs1 else Some (kvs1, q1)) = Some (kvs', q)"
      by (subst (asm) json_fields_loop.simps) (auto split: option.splits prod.splits if_splits)
    have "length q1 < length p"
      using lr json_key_length [OF s(2)] json_field_value_length [OF s(3)] json_after_value_length [OF s(5)] by simp
    moreover have "length q \<le> length q1"
      using res 1(1) [OF w False _ s(2) refl s(3) refl s(4) s(5) refl] s(1) by (auto split: if_splits)
    ultimately show ?thesis by simp
  qed
qed

text \<open>A member with a string value, by its key.\<close>

definition json_string_member :: "string \<Rightarrow> string \<Rightarrow> json_object \<Rightarrow> json_object option" where
  "json_string_member key value obj =
     (if key = ''node'' then
        (if 32 \<le> length value then None else Some (obj\<lparr>jo_node_id := Some (cstr value)\<rparr>))
      else if key = ''sender'' then
        (if 32 \<le> length value then None else Some (obj\<lparr>jo_sender := Some (cstr value)\<rparr>))
      else if key = ''type'' then
        (if 8 \<le> length value then None else Some (obj\<lparr>jo_type_value := Some (cstr value)\<rparr>))
      else if key = ''led'' then
        (if value = [] \<or> 16 \<le> length value then None else Some (obj\<lparr>jo_led_value := Some (atoi (cstr value))\<rparr>))
      else if key = ''error'' then
        (if value = [] \<or> 32 \<le> length value then None else Some (obj\<lparr>jo_error := Some (cstr value)\<rparr>))
      else Some obj)"

text \<open>A member with a number value.\<close>

definition json_number_member :: "string \<Rightarrow> string \<Rightarrow> json_object \<Rightarrow> (json_object \<times> string) option" where
  "json_number_member key p obj =
     (let negative = (drop_char (CHR ''-'') p \<noteq> None);
          p1 = (case drop_char (CHR ''-'') p of None \<Rightarrow> p | Some r \<Rightarrow> r)
      in if \<not> starts_digit p1 then None
         else
           (case json_uint 0 p1 of
              None \<Rightarrow> None
            | Some (value, p2) \<Rightarrow>
                let p3 = json_skip_fraction p2 in
                if key = ''seq'' then
                  (if negative then None else Some (obj\<lparr>jo_sequence := Some (of_nat value)\<rparr>, p3))
                else if key = ''led'' then
                  Some (obj\<lparr>jo_led_value := Some (if negative then to_int32 (- to_int32 (int value)) else to_int32 (int value))\<rparr>, p3)
                else Some (obj, p3)))"

definition json_member :: "string \<Rightarrow> string \<Rightarrow> json_object \<Rightarrow> (json_object \<times> string) option" where
  "json_member key p obj =
     (if key = ''fields'' then
        (case drop_char (CHR ''{'') p of
           None \<Rightarrow> None
         | Some r \<Rightarrow>
             (case json_fields_loop r (jo_fields obj) of
                None \<Rightarrow> None
              | Some (kvs, q) \<Rightarrow> Some (obj\<lparr>jo_fields := kvs, jo_found_fields := True\<rparr>, q)))
      else
        (case drop_char QUOTE p of
           Some r \<Rightarrow>
             (case json_scan_string r of
                None \<Rightarrow> None
              | Some (value, q) \<Rightarrow> map_option (\<lambda>obj'. (obj', q)) (json_string_member key value obj))
         | None \<Rightarrow> json_number_member key p obj))"

lemma json_uint_length: "json_uint v p = Some (n, r) \<Longrightarrow> length r \<le> length p"
  by (induction v p rule: json_uint.induct) (auto split: if_splits)

lemma json_skip_fraction_length: "length (json_skip_fraction p) \<le> length p"
proof -
  define p1 where "p1 = (case drop_char (CHR ''.'') p of None \<Rightarrow> p | Some r \<Rightarrow> dropWhile is_digit r)"
  have "length p1 \<le> length p"
  proof (cases "drop_char (CHR ''.'') p")
    case None
    then show ?thesis by (simp add: p1_def)
  next
    case (Some r)
    then show ?thesis
      using drop_char_length [OF Some] length_dropWhile_le [of is_digit r] by (simp add: p1_def)
  qed
  moreover have "length (case drop_exponent_mark p1 of None \<Rightarrow> p1 | Some r \<Rightarrow> dropWhile is_digit (drop_sign r)) \<le> length p1"
  proof (cases "drop_exponent_mark p1")
    case None
    then show ?thesis by simp
  next
    case (Some e)
    then show ?thesis
      using drop_exponent_mark_length [OF Some] drop_sign_length [of e] length_dropWhile_le [of is_digit "drop_sign e"] by simp
  qed
  ultimately show ?thesis by (simp add: json_skip_fraction_def p1_def [symmetric])
qed

lemma json_member_length: "json_member key p obj = Some (obj', q) \<Longrightarrow> length q \<le> length p"
proof -
  assume a: "json_member key p obj = Some (obj', q)"
  have num: "length q \<le> length p" if "json_number_member key p obj = Some (obj', q)"
  proof -
    define p1 where "p1 = (case drop_char (CHR ''-'') p of None \<Rightarrow> p | Some r \<Rightarrow> r)"
    have 1: "length p1 \<le> length p" using drop_char_length [of "CHR ''-''" p] by (auto simp: p1_def split: option.split dest: less_imp_le)
    have m: "(if \<not> starts_digit p1 then None
       else case json_uint 0 p1 of None \<Rightarrow> None
         | Some (value, p2) \<Rightarrow>
             let p3 = json_skip_fraction p2 in
             if key = ''seq'' then
               (if drop_char (CHR ''-'') p \<noteq> None then None else Some (obj\<lparr>jo_sequence := Some (of_nat value)\<rparr>, p3))
             else if key = ''led'' then
               Some (obj\<lparr>jo_led_value := Some (if drop_char (CHR ''-'') p \<noteq> None then to_int32 (- to_int32 (int value))
                                              else to_int32 (int value))\<rparr>, p3)
             else Some (obj, p3)) = Some (obj', q)"
      using that unfolding json_number_member_def Let_def p1_def .
    then obtain n p2 where 2: "json_uint 0 p1 = Some (n, p2)"
      by (cases "json_uint 0 p1") (auto split: if_splits)
    have 3: "q = json_skip_fraction p2"
      using m by (simp add: 2 Let_def split: if_split_asm)
    show ?thesis using 1 json_uint_length [OF 2] json_skip_fraction_length [of p2] 3 by simp
  qed
  show "length q \<le> length p"
  proof (cases "key = ''fields''")
    case True
    with a show ?thesis
      by (auto simp: json_member_def split: option.splits dest!: drop_char_length json_fields_loop_length)
  next
    case False
    with a num show ?thesis
      by (auto simp: json_member_def split: option.splits dest!: drop_char_length json_scan_string_length)
  qed
qed

text \<open>The loop over the members, after the opening brace.\<close>

function json_members_loop :: "string \<Rightarrow> json_object \<Rightarrow> (json_object \<times> string) option" where
  "json_members_loop p obj =
     (case json_skip_whitespace p of
        [] \<Rightarrow> None
      | c # r \<Rightarrow>
          if c = CHR ''}'' then Some (obj, r)
          else if c \<noteq> QUOTE then None
          else
            (case json_key r of
               None \<Rightarrow> None
             | Some (key, v) \<Rightarrow>
                 (case json_member key v obj of
                    None \<Rightarrow> None
                  | Some (obj', v') \<Rightarrow>
                      (case json_after_value v' of
                         None \<Rightarrow> None
                       | Some (again, q) \<Rightarrow> if again then json_members_loop q obj' else Some (obj', q)))))"
  by pat_completeness auto
termination
proof (relation "measure (\<lambda>(p, obj). length p)", goal_cases)
  case 1
  then show ?case by simp
next
  case (2 p obj c r kv key v ov obj' v' a again q)
  have "length r < length p" using json_skip_whitespace_length [of p] 2(1) by simp
  moreover have "length v < length r" using 2 by (intro json_key_length [of r key v]) auto
  moreover have "length v' \<le> length v" using 2 by (intro json_member_length [of key v obj obj' v']) auto
  moreover have "length q < length v'" using 2 by (intro json_after_value_length [of v' again q]) auto
  ultimately show ?case by simp
qed

declare json_members_loop.simps [simp del]

definition json_parse_object :: "string option \<Rightarrow> (json_object \<times> nat) option" where
  "json_parse_object line =
     (case line of
        None \<Rightarrow> None
      | Some text \<Rightarrow>
          if text = [] then None
          else
            (case drop_char (CHR ''{'') (json_skip_whitespace text) of
               None \<Rightarrow> None
             | Some p \<Rightarrow>
                 map_option (\<lambda>(obj, q). (obj, length text - length q)) (json_members_loop p zero_json_object)))"

section \<open>Decoding\<close>

definition message_json_peek_type :: "string option \<Rightarrow> string option \<Rightarrow> nat \<Rightarrow> bool \<times> string option" where
  "message_json_peek_type line type_out type_size =
     (if type_out = None \<or> type_size = 0 then (False, type_out)
      else
        (case json_parse_object line of
           None \<Rightarrow> (False, type_out)
         | Some (obj, _) \<Rightarrow>
             (case jo_type_value obj of
                None \<Rightarrow> (False, type_out)
              | Some ty \<Rightarrow> if type_size < length ty + 1 then (False, type_out) else (True, Some ty))))"

text \<open>The parameters of a command or an acknowledgement: the fields object, or the old \<open>led\<close>.\<close>

definition object_fields :: "json_object \<Rightarrow> frame_kv list" where
  "object_fields obj =
     (if jo_found_fields obj then jo_fields obj
      else (case jo_led_value obj of
              Some led \<Rightarrow> [\<lparr>kv_key = ''LED'', kv_value = print_d led\<rparr>]
            | None \<Rightarrow> []))"

definition message_json_decode_command :: "string option \<Rightarrow> frame_command option
    \<Rightarrow> nat option \<times> frame_command option" where
  "message_json_decode_command line command =
     (if command = None then (None, None)
      else
        (case json_parse_object line of
           None \<Rightarrow> (None, Some zero_frame_command)
         | Some (obj, consumed) \<Rightarrow>
             if jo_node_id obj = None \<or> jo_sender obj = None \<or> jo_sequence obj = None \<or> jo_type_value obj = None
             then (None, Some zero_frame_command)
             else if the (jo_type_value obj) \<noteq> ''CMD'' then (None, Some zero_frame_command)
             else if 32 \<le> length (the (jo_node_id obj)) \<or> 32 \<le> length (the (jo_sender obj))
             then (None, Some zero_frame_command)
             else
               (Some consumed,
                Some \<lparr>cmd_target_node = the (jo_node_id obj), cmd_sender = the (jo_sender obj),
                       cmd_sequence = the (jo_sequence obj), cmd_fields = object_fields obj\<rparr>)))"

definition message_json_decode_ack :: "string option \<Rightarrow> frame_ack option \<Rightarrow> nat option \<times> frame_ack option" where
  "message_json_decode_ack line ack =
     (if ack = None then (None, None)
      else
        (case json_parse_object line of
           None \<Rightarrow> (None, Some zero_frame_ack)
         | Some (obj, consumed) \<Rightarrow>
             if jo_node_id obj = None \<or> jo_sequence obj = None \<or> jo_type_value obj = None
             then (None, Some zero_frame_ack)
             else if the (jo_type_value obj) \<noteq> ''ACK'' then (None, Some zero_frame_ack)
             else if 32 \<le> length (the (jo_node_id obj)) then (None, Some zero_frame_ack)
             else
               (Some consumed,
                Some \<lparr>ack_node_id = the (jo_node_id obj), ack_sequence = the (jo_sequence obj),
                       ack_fields = object_fields obj\<rparr>)))"

definition message_json_decode_nack :: "string option \<Rightarrow> frame_nack option \<Rightarrow> nat option \<times> frame_nack option" where
  "message_json_decode_nack line nack =
     (if nack = None then (None, None)
      else
        (case json_parse_object line of
           None \<Rightarrow> (None, Some zero_frame_nack)
         | Some (obj, consumed) \<Rightarrow>
             if jo_node_id obj = None \<or> jo_sequence obj = None \<or> jo_error obj = None \<or> jo_type_value obj = None
             then (None, Some zero_frame_nack)
             else if the (jo_type_value obj) \<noteq> ''NACK'' then (None, Some zero_frame_nack)
             else if 32 \<le> length (the (jo_node_id obj)) then (None, Some zero_frame_nack)
             else if 32 \<le> length (the (jo_error obj))
             then (None, Some (zero_frame_nack\<lparr>nack_node_id := the (jo_node_id obj), nack_sequence := the (jo_sequence obj)\<rparr>))
             else
               (Some consumed,
                Some \<lparr>nack_node_id = the (jo_node_id obj), nack_sequence = the (jo_sequence obj),
                       nack_error = the (jo_error obj)\<rparr>)))"

section \<open>DATA messages\<close>

text \<open>The integer part of a measured value, with the code's overflow check.\<close>

fun x10_digits :: "nat \<Rightarrow> string \<Rightarrow> (nat \<times> string) option" where
  "x10_digits value [] = Some (value, [])"
| "x10_digits value (c # cs) =
     (if \<not> is_digit c then Some (value, c # cs)
      else if (0x7FFFFFFF - 9) div 10 < value then None
      else x10_digits (value * 10 + digit_val c) cs)"

definition json_parse_x10 :: "string \<Rightarrow> (int \<times> string) option" where
  "json_parse_x10 p =
     (if p = [] then None
      else
        (let negative = (drop_char (CHR ''-'') p \<noteq> None);
             p1 = (case drop_char (CHR ''-'') p of None \<Rightarrow> p | Some r \<Rightarrow> r)
         in if \<not> starts_digit p1 then None
            else
              (case x10_digits 0 p1 of
                 None \<Rightarrow> None
               | Some (int_part, p2) \<Rightarrow>
                   let (frac_digit, p3) =
                     (case drop_char (CHR ''.'') p2 of
                        None \<Rightarrow> (0, p2)
                      | Some r \<Rightarrow>
                          (if starts_digit r then digit_val (hd r) else 0, dropWhile is_digit r));
                     value = int int_part * 10 + int frac_digit
                   in Some (to_int32 (if negative then - value else value), p3))))"

definition json_data_add_field :: "frame_data \<Rightarrow> string \<Rightarrow> string \<Rightarrow> frame_data option" where
  "json_data_add_field data key value =
     map_option (\<lambda>kvs. data\<lparr>data_fields := kvs\<rparr>) (kv_array_add (data_fields data) key value)"

text \<open>
  The decoder writes into the caller's struct as it goes, so its loops return the struct on failure
  too: the first component is the struct, the second what is left of the text, \<open>None\<close> on failure.
\<close>

function json_data_fields_loop :: "string \<Rightarrow> frame_data \<Rightarrow> frame_data \<times> string option" where
  "json_data_fields_loop p data =
     (case json_skip_whitespace p of
        [] \<Rightarrow> (data, None)
      | c # r \<Rightarrow>
          if c = CHR ''}'' then (data, Some r)
          else if c \<noteq> QUOTE then (data, None)
          else
            (case json_key r of
               None \<Rightarrow> (data, None)
             | Some (key, v) \<Rightarrow>
                 if key = [] \<or> FRAME_KV_KEY_MAX \<le> length key \<or> FRAME_DATA_MAX_FIELDS \<le> length (data_fields data)
                 then (data, None)
                 else
                   (case json_field_value v of
                      None \<Rightarrow> (data, None)
                    | Some (value, v') \<Rightarrow>
                        (case json_data_add_field data key value of
                           None \<Rightarrow> (data, None)
                         | Some data' \<Rightarrow>
                             (case json_after_value v' of
                                None \<Rightarrow> (data', None)
                              | Some (again, q) \<Rightarrow>
                                  if again then json_data_fields_loop q data' else (data', Some q))))))"
  by pat_completeness auto
termination
proof (relation "measure (\<lambda>(p, data). length p)", goal_cases)
  case 1
  then show ?case by simp
next
  case (2 p data c r kv key v vv vl v' data' a again q)
  have "length r < length p" using json_skip_whitespace_length [of p] 2(1) by simp
  moreover have "length v < length r" using 2 by (intro json_key_length [of r key v]) auto
  moreover have "length v' \<le> length v" using 2 by (intro json_field_value_length [of v vl v']) auto
  moreover have "length q < length v'" using 2 by (intro json_after_value_length [of v' again q]) auto
  ultimately show ?case by simp
qed

declare json_data_fields_loop.simps [simp del]

lemma json_data_fields_loop_length:
  "json_data_fields_loop p data = (data', Some q) \<Longrightarrow> length q < length p"
proof (induction p data arbitrary: data' rule: json_data_fields_loop.induct)
  case (1 p data)
  obtain c r where w: "json_skip_whitespace p = c # r" using 1(2)
    by (subst (asm) json_data_fields_loop.simps) (auto split: list.splits)
  have lr: "length r < length p" using json_skip_whitespace_length [of p] by (simp add: w)
  show ?case
  proof (cases "c = CHR ''}''")
    case True
    with 1(2) w lr show ?thesis by (subst (asm) json_data_fields_loop.simps) simp
  next
    case False
    have q: "c = QUOTE" using 1(2) w False
      by (subst (asm) json_data_fields_loop.simps) (simp split: if_split_asm)
    from 1(2) w False q obtain key v vl v' d1 again q1 where
      s: "json_key r = Some (key, v)"
        "\<not> (key = [] \<or> FRAME_KV_KEY_MAX \<le> length key \<or> FRAME_DATA_MAX_FIELDS \<le> length (data_fields data))"
        "json_field_value v = Some (vl, v')"
        "json_data_add_field data key vl = Some d1" "json_after_value v' = Some (again, q1)"
      and res: "(if again then json_data_fields_loop q1 d1 else (d1, Some q1)) = (data', Some q)"
      by (subst (asm) json_data_fields_loop.simps) (auto split: option.splits prod.splits if_split_asm)
    have "length q1 < length p"
      using lr json_key_length [OF s(1)] json_field_value_length [OF s(3)] json_after_value_length [OF s(5)] by simp
    moreover have "length q \<le> length q1"
    proof (cases again)
      case True
      then show ?thesis
        using res 1(1) [OF w False _ s(1) refl s(2) s(3) refl s(4) s(5) refl] q by fastforce
    next
      case False
      then show ?thesis using res by simp
    qed
    ultimately show ?thesis by simp
  qed
qed

text \<open>The struct under construction, what has been found, and the \<open>sequence\<close> kept until the end.\<close>

record json_data =
  jd_data :: frame_data
  jd_found_node :: bool
  jd_found_seq :: bool
  jd_found_type :: bool
  jd_sequence :: u32

definition json_data_start :: json_data where
  "json_data_start = \<lparr>jd_data = zero_frame_data, jd_found_node = False, jd_found_seq = False,
     jd_found_type = False, jd_sequence = 0\<rparr>"

definition json_data_string_member :: "string \<Rightarrow> string \<Rightarrow> json_data \<Rightarrow> json_data option" where
  "json_data_string_member key value st =
     (if key = ''node'' then
        (if 32 \<le> length value then None
         else Some (st\<lparr>jd_data := (jd_data st)\<lparr>data_node_id := cstr value\<rparr>, jd_found_node := True\<rparr>))
      else if key = ''type'' then
        (if value \<noteq> ''DATA'' then None else Some (st\<lparr>jd_found_type := True\<rparr>))
      else Some st)"

definition json_data_number_member :: "string \<Rightarrow> string \<Rightarrow> json_data \<Rightarrow> json_data \<times> string option" where
  "json_data_number_member key p st =
     (if key = ''temperature'' \<or> key = ''humidity'' then
        (case json_parse_x10 p of
           None \<Rightarrow> (st, None)
         | Some (x10, q) \<Rightarrow>
             if FRAME_KV_VALUE_MAX \<le> length (print_d x10) then (st, None)
             else
               (case json_data_add_field (jd_data st) (if key = ''temperature'' then ''T'' else ''H'') (print_d x10) of
                  None \<Rightarrow> (st, None)
                | Some data' \<Rightarrow> (st\<lparr>jd_data := data'\<rparr>, Some q)))
      else if key = ''seq'' then
        (if drop_char (CHR ''-'') p \<noteq> None then (st, None)
         else
           (case json_uint 0 p of
              None \<Rightarrow> (st, None)
            | Some (value, q) \<Rightarrow>
                (st\<lparr>jd_sequence := of_nat value, jd_found_seq := True\<rparr>, Some (json_skip_fraction q))))
      else
        (st, Some (json_skip_fraction
                     (dropWhile is_digit (case drop_char (CHR ''-'') p of None \<Rightarrow> p | Some r \<Rightarrow> r)))))"

definition json_data_member :: "string \<Rightarrow> string \<Rightarrow> json_data \<Rightarrow> json_data \<times> string option" where
  "json_data_member key p st =
     (if key = ''fields'' then
        (case drop_char (CHR ''{'') p of
           None \<Rightarrow> (st, None)
         | Some r \<Rightarrow> (let (data', q) = json_data_fields_loop r (jd_data st) in (st\<lparr>jd_data := data'\<rparr>, q)))
      else
        (case drop_char QUOTE p of
           Some r \<Rightarrow>
             (case json_scan_string r of
                None \<Rightarrow> (st, None)
              | Some (value, q) \<Rightarrow>
                  (case json_data_string_member key value st of
                     None \<Rightarrow> (st, None)
                   | Some st' \<Rightarrow> (st', Some q)))
         | None \<Rightarrow> json_data_number_member key p st))"

lemma x10_digits_length: "x10_digits v p = Some (n, r) \<Longrightarrow> length r \<le> length p"
  by (induction v p rule: x10_digits.induct) (auto split: if_splits)

lemma opt_drop_length: "length (case drop_char c p of None \<Rightarrow> p | Some r \<Rightarrow> r) \<le> length p"
  by (auto split: option.split dest: drop_char_length)

lemma json_parse_x10_length: "json_parse_x10 p = Some (v, q) \<Longrightarrow> length q \<le> length p"
proof -
  assume a: "json_parse_x10 p = Some (v, q)"
  define p1 where "p1 = (case drop_char (CHR ''-'') p of None \<Rightarrow> p | Some r \<Rightarrow> r)"
  from a obtain n p2 where 2: "x10_digits 0 p1 = Some (n, p2)"
    by (cases "x10_digits 0 p1") (auto simp: json_parse_x10_def Let_def p1_def split: if_splits)
  have q: "q = (case drop_char (CHR ''.'') p2 of None \<Rightarrow> p2 | Some r \<Rightarrow> dropWhile is_digit r)"
    using a 2 by (cases "drop_char (CHR ''.'') p2")
      (simp_all add: json_parse_x10_def Let_def p1_def [symmetric] split: if_split_asm)
  have "length q \<le> length p2"
  proof (cases "drop_char (CHR ''.'') p2")
    case None
    then show ?thesis by (simp add: q)
  next
    case (Some r)
    then show ?thesis using drop_char_length [OF Some] length_dropWhile_le [of is_digit r] by (simp add: q)
  qed
  then show ?thesis using x10_digits_length [OF 2] opt_drop_length [of p "CHR ''-''"] by (simp add: p1_def)
qed

lemma json_data_number_member_length:
  "json_data_number_member key p st = (st', Some q) \<Longrightarrow> length q \<le> length p"
proof -
  assume a: "json_data_number_member key p st = (st', Some q)"
  define p1 where "p1 = (case drop_char (CHR ''-'') p of None \<Rightarrow> p | Some r \<Rightarrow> r)"
  consider (x10) "key = ''temperature'' \<or> key = ''humidity''"
    | (seq) "key = ''seq''"
    | (other) "\<not> (key = ''temperature'' \<or> key = ''humidity'')" "key \<noteq> ''seq''" by blast
  then show "length q \<le> length p"
  proof cases
    case x10
    with a obtain v where "json_parse_x10 p = Some (v, q)"
      by (auto simp: json_data_number_member_def split: option.splits if_splits)
    then show ?thesis by (rule json_parse_x10_length)
  next
    case seq
    with a obtain n p2 where n: "json_uint 0 p = Some (n, p2)" "q = json_skip_fraction p2"
      by (auto simp: json_data_number_member_def split: option.splits if_splits)
    then show ?thesis using json_uint_length [OF n(1)] json_skip_fraction_length [of p2] by simp
  next
    case other
    then have "q = json_skip_fraction (dropWhile is_digit p1)"
      using a by (simp add: json_data_number_member_def p1_def)
    then show ?thesis
      using json_skip_fraction_length [of "dropWhile is_digit p1"] length_dropWhile_le [of is_digit p1]
        opt_drop_length [of p "CHR ''-''"] by (simp add: p1_def)
  qed
qed

lemma json_data_member_length: "json_data_member key p st = (st', Some q) \<Longrightarrow> length q \<le> length p"
  by (auto simp: json_data_member_def split: if_splits option.splits prod.splits
      dest!: drop_char_length json_scan_string_length json_data_fields_loop_length
      intro: json_data_number_member_length)

function json_data_members_loop :: "string \<Rightarrow> json_data \<Rightarrow> json_data \<times> string option" where
  "json_data_members_loop p st =
     (case json_skip_whitespace p of
        [] \<Rightarrow> (st, None)
      | c # r \<Rightarrow>
          if c = CHR ''}'' then (st, Some r)
          else if c \<noteq> QUOTE then (st, None)
          else
            (case json_key r of
               None \<Rightarrow> (st, None)
             | Some (key, v) \<Rightarrow>
                 (case json_data_member key v st of
                    (st', None) \<Rightarrow> (st', None)
                  | (st', Some v') \<Rightarrow>
                      (case json_after_value v' of
                         None \<Rightarrow> (st', None)
                       | Some (again, q) \<Rightarrow> if again then json_data_members_loop q st' else (st', Some q)))))"
  by pat_completeness auto
termination
proof (relation "measure (\<lambda>(p, st). length p)", goal_cases)
  case 1
  then show ?case by simp
next
  case (2 p st c r kv key v st' ov v' a again q)
  have "length r < length p" using json_skip_whitespace_length [of p] 2(1) by simp
  moreover have "length v < length r" using 2 by (intro json_key_length [of r key v]) auto
  moreover have "length v' \<le> length v" using 2 by (intro json_data_member_length [of key v st st' v']) auto
  moreover have "length q < length v'" using 2 by (intro json_after_value_length [of v' again q]) auto
  ultimately show ?case by simp
qed

declare json_data_members_loop.simps [simp del]

definition message_json_decode_data :: "string option \<Rightarrow> frame_data option \<Rightarrow> nat option \<times> frame_data option" where
  "message_json_decode_data line data =
     (if line = None \<or> the line = [] \<or> data = None then (None, data)
      else
        (case drop_char (CHR ''{'') (json_skip_whitespace (the line)) of
           None \<Rightarrow> (None, Some zero_frame_data)
         | Some p \<Rightarrow>
             (case json_data_members_loop p json_data_start of
                (st, None) \<Rightarrow> (None, Some (jd_data st))
              | (st, Some q) \<Rightarrow>
                  if \<not> jd_found_node st \<or> \<not> jd_found_seq st \<or> \<not> jd_found_type st
                  then (None, Some (jd_data st))
                  else (Some (length (the line) - length q),
                        Some ((jd_data st)\<lparr>data_sequence := jd_sequence st\<rparr>)))))"

end
