(* ===== verification/Message_Json_Spec.thy ===== *)
theory Message_Json_Spec
  imports Message_Json
begin

text \<open>
  What \<open>Message_Json\<close> promises: the text each builder writes, when it writes one, that the parsers
  read it back, what a parsed message can hold at most, and where the code leaves its documentation.
\<close>

section \<open>What the builders write\<close>

text \<open>A string member, the members of a \<open>fields\<close> object, and the JSON text of a whole message.\<close>

definition json_string_text :: "string \<Rightarrow> string \<Rightarrow> string" where
  "json_string_text key value = json_quoted key @ '':'' @ json_quoted value"

definition json_field_text :: "frame_kv \<Rightarrow> string" where
  "json_field_text f = json_string_text (kv_key f) (kv_value f)"

fun json_fields_text :: "frame_kv list \<Rightarrow> string" where
  "json_fields_text [] = []"
| "json_fields_text [f] = json_field_text f"
| "json_fields_text (f # g # fs) = json_field_text f @ '','' @ json_fields_text (g # fs)"

definition json_seq_text :: "u32 \<Rightarrow> string" where
  "json_seq_text sequence = json_quoted ''seq'' @ '':'' @ print_u (unat sequence)"

definition json_fields_member :: "frame_kv list \<Rightarrow> string" where
  "json_fields_member fs = json_quoted ''fields'' @ '':{'' @ json_fields_text fs @ ''}''"

definition json_device_text :: "string \<Rightarrow> string \<Rightarrow> u32 \<Rightarrow> frame_kv list \<Rightarrow> string" where
  "json_device_text type node sequence fs =
     ''{'' @ json_string_text ''node'' node @ '','' @ json_seq_text sequence @ '',''
     @ json_string_text ''type'' type @ '','' @ json_fields_member fs @ ''}'' @ [LF]"

definition json_data_text :: "frame_data \<Rightarrow> string" where
  "json_data_text d = json_device_text ''DATA'' (data_node_id d) (data_sequence d) (data_fields d)"

definition json_ack_text :: "frame_ack \<Rightarrow> string" where
  "json_ack_text a = json_device_text ''ACK'' (ack_node_id a) (ack_sequence a) (ack_fields a)"

definition json_nack_text :: "frame_nack \<Rightarrow> string" where
  "json_nack_text a =
     ''{'' @ json_string_text ''node'' (nack_node_id a) @ '','' @ json_seq_text (nack_sequence a) @ '',''
     @ json_string_text ''type'' ''NACK'' @ '','' @ json_string_text ''error'' (nack_error a) @ ''}'' @ [LF]"

definition json_command_text :: "frame_command \<Rightarrow> string" where
  "json_command_text c =
     ''{'' @ json_string_text ''node'' (cmd_target_node c) @ '','' @ json_string_text ''sender'' (cmd_sender c) @ '',''
     @ json_seq_text (cmd_sequence c) @ '',''
     @ json_string_text ''type'' ''CMD'' @ '','' @ json_fields_member (cmd_fields c) @ ''}'' @ [LF]"

lemma json_append_fields_False:
  "length w < n \<Longrightarrow> json_append_fields n False fs w =
     (let t = w @ concat (map (\<lambda>f. '','' @ json_field_text f) fs) in if length t < n then Some t else None)"
proof (induction fs arbitrary: w)
  case Nil
  then show ?case by simp
next
  case (Cons f fs)
  let ?p = "'','' @ json_field_text f"
  have p: "[CHR '',''] @ [QUOTE] @ kv_key f @ [QUOTE] @ '':'' @ [QUOTE] @ kv_value f @ [QUOTE] = ?p"
    by (simp add: json_field_text_def json_string_text_def json_quoted_def)
  show ?case
  proof (cases "n - length w \<le> length ?p")
    case True
    then show ?thesis using Cons.prems p by (simp add: snprintf_def Let_def)
  next
    case False
    then have "length (w @ ?p) < n" "take (n - length w - 1) ?p = ?p" by auto
    then show ?thesis using False p Cons.IH [of "w @ ?p"] by (simp add: snprintf_def Let_def)
  qed
qed

lemma json_fields_text_Cons:
  "json_fields_text (f # fs) = json_field_text f @ concat (map (\<lambda>f. '','' @ json_field_text f) fs)"
  by (induction fs arbitrary: f) auto

lemma json_append_fields_True:
  "length w < n \<Longrightarrow> json_append_fields n True fs w =
     (let t = w @ json_fields_text fs in if length t < n then Some t else None)"
proof (cases fs)
  case Nil
  assume "length w < n"
  with Nil show ?thesis by simp
next
  case (Cons f gs)
  assume l: "length w < n"
  let ?p = "json_field_text f"
  have p: "[] @ [QUOTE] @ kv_key f @ [QUOTE] @ '':'' @ [QUOTE] @ kv_value f @ [QUOTE] = ?p"
    by (simp add: json_field_text_def json_string_text_def json_quoted_def)
  show ?thesis
  proof (cases "n - length w \<le> length ?p")
    case True
    then show ?thesis using l p Cons by (simp add: snprintf_def Let_def json_fields_text_Cons)
  next
    case False
    then have "length (w @ ?p) < n" "take (n - length w - 1) ?p = ?p" by auto
    then show ?thesis
      using False p Cons json_append_fields_False [of "w @ ?p" n gs]
      by (simp add: snprintf_def Let_def json_fields_text_Cons)
  qed
qed

text \<open>A builder writes its text exactly when the buffer has room for it and the final NUL.\<close>

definition json_written :: "nat \<Rightarrow> string \<Rightarrow> nat option \<times> string option" where
  "json_written out_size text = (if length text < out_size then (Some (length text), Some text) else (None, Some []))"

lemma json_build_with_fields_eq:
  "json_build_with_fields out n prefix fs = json_written n (prefix @ json_fields_text fs @ ''}}'' @ [LF])"
proof (cases "length prefix < n")
  case False
  then show ?thesis by (simp add: json_build_with_fields_def json_written_def snprintf_def)
next
  case True
  let ?w = "prefix @ json_fields_text fs"
  have a: "json_append_fields n True fs prefix = (if length ?w < n then Some ?w else None)"
    using json_append_fields_True [OF True] by (simp add: Let_def)
  have t: "take (n - 1) prefix = prefix" using True by simp
  show ?thesis
  proof (cases "length ?w < n")
    case False
    then show ?thesis using True a t by (simp add: json_build_with_fields_def json_written_def snprintf_def)
  next
    case w: True
    show ?thesis
    proof (cases "length (?w @ ''}}'' @ [LF]) < n")
      case True
      then have "take (n - length ?w - 1) (''}}'' @ [LF]) = ''}}'' @ [LF]" by simp
      then show ?thesis using True w a t by (simp add: json_build_with_fields_def json_written_def snprintf_def Let_def)
    next
      case False
      then show ?thesis using \<open>length prefix < n\<close> w a t
        by (simp add: json_build_with_fields_def json_written_def snprintf_def Let_def)
    qed
  qed
qed

lemma message_json_build_data_eq [csimps]:
  "0 < n \<Longrightarrow> message_json_build_data (Some old) n (Some d) = json_written n (json_data_text d)"
  by (simp add: message_json_build_data_def json_build_with_fields_eq json_data_text_def json_device_text_def
      json_string_text_def json_seq_text_def json_fields_member_def json_quoted_def)

lemma message_json_build_ack_eq [csimps]:
  "0 < n \<Longrightarrow> message_json_build_ack (Some old) n (Some a) = json_written n (json_ack_text a)"
  by (simp add: message_json_build_ack_def json_build_with_fields_eq json_ack_text_def json_device_text_def
      json_string_text_def json_seq_text_def json_fields_member_def json_quoted_def)

lemma message_json_build_command_eq [csimps]:
  "0 < n \<Longrightarrow> message_json_build_command (Some old) n (Some c) = json_written n (json_command_text c)"
  by (simp add: message_json_build_command_def json_build_with_fields_eq json_command_text_def
      json_string_text_def json_seq_text_def json_fields_member_def json_quoted_def)

lemma message_json_build_nack_eq [csimps]:
  "0 < n \<Longrightarrow> message_json_build_nack (Some old) n (Some a) = json_written n (json_nack_text a)"
proof -
  assume "0 < n"
  moreover have "''{'' @ json_quoted ''node'' @ '':'' @ json_quoted (nack_node_id a) @ '','' @
            json_quoted ''seq'' @ '':'' @ print_u (unat (nack_sequence a)) @ '','' @
            json_quoted ''type'' @ '':'' @ json_quoted ''NACK'' @ '','' @
            json_quoted ''error'' @ '':'' @ json_quoted (nack_error a) @ ''}'' @ [LF] = json_nack_text a"
    by (simp add: json_nack_text_def json_string_text_def json_seq_text_def json_quoted_def)
  moreover have "take (n - 1) t = t" if "length t < n" for t :: string using that by simp
  ultimately show ?thesis
    unfolding message_json_build_nack_def snprintf_def json_written_def by (simp del: append.simps append_assoc)
qed

section \<open>What the parsers read\<close>

text \<open>Text that the scanner of strings returns as it is, and that a C string can hold.\<close>

definition json_clean :: "string \<Rightarrow> bool" where
  "json_clean s = list_all (\<lambda>c. c \<noteq> QUOTE \<and> c \<noteq> BSLASH \<and> c \<noteq> NUL) s"

definition json_field_ok :: "frame_kv \<Rightarrow> bool" where
  "json_field_ok f =
     (json_clean (kv_key f) \<and> kv_key f \<noteq> [] \<and> length (kv_key f) < 16
      \<and> json_clean (kv_value f) \<and> kv_value f \<noteq> [] \<and> length (kv_value f) < 32)"

lemma json_clean_cstr [simp]: "json_clean s \<Longrightarrow> cstr s = s"
  by (rule cstr_id) (auto simp: json_clean_def list_all_iff)

lemma json_scan_string_clean [csimps]: "json_clean s \<Longrightarrow> json_scan_string (s @ QUOTE # r) = Some (s, r)"
  by (induction s) (auto simp: json_clean_def)

lemma skip_whitespace_Cons [csimps]: "\<not> is_json_space c \<Longrightarrow> json_skip_whitespace (c # r) = c # r"
  by (simp add: json_skip_whitespace_def)

lemma json_key_clean [csimps]:
  "json_clean k \<Longrightarrow> \<not> is_json_space c \<Longrightarrow> json_key (k @ QUOTE # CHR '':'' # c # r) = Some (k, c # r)"
  by (simp add: json_key_def json_scan_string_clean skip_whitespace_Cons is_json_space_def)

lemma json_after_comma [csimps]: "json_after_value (CHR '','' # r) = Some (True, r)"
  by (simp add: json_after_value_def skip_whitespace_Cons is_json_space_def)

lemma json_after_brace [csimps]: "json_after_value (CHR ''}'' # r) = Some (False, r)"
  by (simp add: json_after_value_def skip_whitespace_Cons is_json_space_def)

lemma json_field_value_string [csimps]: "json_clean s \<Longrightarrow> json_field_value (QUOTE # s @ QUOTE # r) = Some (s, r)"
  by (simp add: json_field_value_def drop_char_def json_scan_string_clean)

lemma kv_array_add_ok: "json_field_ok f \<Longrightarrow> length kvs < 16 \<Longrightarrow> kv_array_add kvs (kv_key f) (kv_value f) = Some (kvs @ [f])"
  by (simp add: kv_array_add_def json_field_ok_def frame_consts)

lemma json_fields_text_split:
  "json_fields_text (f # fs) @ CHR ''}'' # r =
     QUOTE # kv_key f @ QUOTE # CHR '':'' # QUOTE # kv_value f @ QUOTE #
       (if fs = [] then CHR ''}'' # r else CHR '','' # json_fields_text fs @ CHR ''}'' # r)"
  by (cases fs) (simp_all add: json_field_text_def json_string_text_def json_quoted_def)

lemma json_fields_loop_text:
  "list_all json_field_ok fs \<Longrightarrow> length kvs + length fs \<le> 16
   \<Longrightarrow> json_fields_loop (json_fields_text fs @ CHR ''}'' # r) kvs = Some (kvs @ fs, r)"
proof (induction fs arbitrary: kvs)
  case Nil
  then show ?case by (subst json_fields_loop.simps) (simp add: csimps is_json_space_def)
next
  case (Cons f fs)
  have f: "json_field_ok f" "json_clean (kv_key f)" "json_clean (kv_value f)"
    using Cons.prems(1) by (auto simp: json_field_ok_def)
  have "length kvs < 16" using Cons.prems(2) by simp
  note add = kv_array_add_ok [OF f(1) this]
  show ?case
    unfolding json_fields_text_split
    using Cons.IH [of "kvs @ [f]"] Cons.prems f
    by (subst json_fields_loop.simps) (auto simp: csimps is_json_space_def add)
qed

lemma json_data_fields_loop_text:
  "list_all json_field_ok fs \<Longrightarrow> length (data_fields d) + length fs \<le> 16
   \<Longrightarrow> json_data_fields_loop (json_fields_text fs @ CHR ''}'' # r) d =
         (d\<lparr>data_fields := data_fields d @ fs\<rparr>, Some r)"
proof (induction fs arbitrary: d)
  case Nil
  then show ?case by (subst json_data_fields_loop.simps) (simp add: csimps is_json_space_def)
next
  case (Cons f fs)
  have f: "json_field_ok f" "json_clean (kv_key f)" "json_clean (kv_value f)"
      "kv_key f \<noteq> []" "length (kv_key f) < 16"
    using Cons.prems(1) by (auto simp: json_field_ok_def)
  have l: "length (data_fields d) < 16" using Cons.prems(2) by simp
  have add: "json_data_add_field d (kv_key f) (kv_value f) = Some (d\<lparr>data_fields := data_fields d @ [f]\<rparr>)"
    by (simp add: json_data_add_field_def kv_array_add_ok [OF f(1) l])
  show ?case
    unfolding json_fields_text_split
    using Cons.IH [of "d\<lparr>data_fields := data_fields d @ [f]\<rparr>"] Cons.prems f l
    by (subst json_data_fields_loop.simps) (auto simp: csimps is_json_space_def add frame_consts)
qed

text \<open>Numbers.\<close>

lemma dec_fold_mono: "w \<le> foldl (\<lambda>v c. v * 10 + digit_val c) w es"
proof (induction es arbitrary: w)
  case Nil
  then show ?case by simp
next
  case (Cons a es)
  have "w \<le> w * 10 + digit_val a" by simp
  also have "\<dots> \<le> foldl (\<lambda>v c. v * 10 + digit_val c) (w * 10 + digit_val a) es" by (rule Cons)
  finally show ?case by simp
qed

lemma json_uint_digits:
  "\<forall>c \<in> set ds. is_digit c \<Longrightarrow> foldl (\<lambda>v c. v * 10 + digit_val c) v ds < 2 ^ 32 \<Longrightarrow> \<not> is_digit c
   \<Longrightarrow> json_uint v (ds @ c # r) = Some (foldl (\<lambda>v c. v * 10 + digit_val c) v ds, c # r)"
proof (induction ds arbitrary: v)
  case Nil
  then show ?case by simp
next
  case (Cons e es)
  have d: "digit_val e \<le> 9" "is_digit e" using Cons.prems(1) by (auto simp: is_digit_def digit_val_def)
  have "v * 10 + digit_val e < 2 ^ 32"
    using dec_fold_mono [of "v * 10 + digit_val e" es] Cons.prems(2) by simp
  then have "\<not> (0xFFFFFFFF - digit_val e) div 10 < v"
    using d(1) by (simp add: not_less less_eq_div_iff_mult_less_eq)
  then show ?case using Cons d by simp
qed

lemma json_uint_print_u [csimps]:
  "\<not> is_digit c \<Longrightarrow> json_uint 0 (print_u (unat (w :: u32)) @ c # r) = Some (unat w, c # r)"
proof -
  assume "\<not> is_digit c"
  moreover have "unat w < 2 ^ 32" using unsigned_less [of w] by simp
  ultimately show ?thesis
    using json_uint_digits [of "print_u (unat w)" 0 c r] dec_value_print_u [of "unat w"]
    by (simp add: dec_value_def print_u_digits)
qed

lemma starts_digit_print_u [csimps]: "starts_digit (print_u n @ r)"
  using print_u_digits [of "hd (print_u n)" n] by (cases "print_u n") (auto simp: starts_digit_def)

lemma drop_char_print_u: "\<not> is_digit c \<Longrightarrow> drop_char c (print_u n @ r) = None"
  using print_u_digits [of "hd (print_u n)" n] print_u_nonempty [of n]
  by (cases "print_u n") (auto simp: drop_char_def)

lemma json_skip_fraction_comma [csimps]: "json_skip_fraction (CHR '','' # r) = CHR '','' # r"
  by (simp add: json_skip_fraction_def drop_char_def drop_exponent_mark_def)

text \<open>One turn of the loop over the members of an object, for each kind of member.\<close>

lemma json_string_text_append:
  "json_string_text key v @ r = QUOTE # key @ QUOTE # CHR '':'' # QUOTE # v @ QUOTE # r"
  by (simp add: json_string_text_def json_quoted_def)

lemma json_seq_text_append:
  "json_seq_text sequence @ r = QUOTE # ''seq'' @ QUOTE # CHR '':'' # print_u (unat sequence) @ r"
  by (simp add: json_seq_text_def json_quoted_def)

lemma json_fields_member_append:
  "json_fields_member fs @ r = QUOTE # ''fields'' @ QUOTE # CHR '':'' # CHR ''{'' # json_fields_text fs @ CHR ''}'' # r"
  by (simp add: json_fields_member_def json_quoted_def)

lemma json_key_seq [csimps]:
  "json_key (CHR ''s'' # CHR ''e'' # CHR ''q'' # QUOTE # CHR '':'' # print_u n @ r) = Some (''seq'', print_u n @ r)"
proof -
  obtain c cs where p: "print_u n = c # cs" by (cases "print_u n") auto
  have "\<not> is_json_space c"
    using print_u_digits [of c n] is_digit_cases [of c] by (auto simp: p is_json_space_def)
  then show ?thesis using json_key_clean [of "''seq''" c "cs @ r"] by (simp add: p json_clean_def)
qed

lemma json_key_fields [csimps]:
  "json_key (''fields'' @ QUOTE # CHR '':'' # CHR ''{'' # r) = Some (''fields'', CHR ''{'' # r)"
  using json_key_clean [of "''fields''" "CHR ''{''" r] by (simp add: json_clean_def is_json_space_def)

lemma object_string_member:
  assumes "json_clean key" "key \<noteq> ''fields''" "json_clean v" "json_string_member key v obj = Some obj'"
  shows "json_members_loop (json_string_text key v @ CHR '','' # r) obj = json_members_loop r obj'"
    and "json_members_loop (json_string_text key v @ CHR ''}'' # r) obj = Some (obj', r)"
  unfolding json_string_text_append using assms
  by (subst json_members_loop.simps, simp add: csimps is_json_space_def json_member_def drop_char_def)+

lemma object_seq_member:
  "json_members_loop (json_seq_text sequence @ CHR '','' # r) obj = json_members_loop r (obj\<lparr>jo_sequence := Some sequence\<rparr>)"
  unfolding json_seq_text_append
  by (subst json_members_loop.simps)
    (simp add: csimps is_json_space_def json_member_def json_number_member_def drop_char_print_u Let_def is_digit_def)

lemma object_fields_member:
  "list_all json_field_ok fs \<Longrightarrow> length (jo_fields obj) + length fs \<le> 16 \<Longrightarrow>
   json_members_loop (json_fields_member fs @ CHR ''}'' # r) obj =
     Some (obj\<lparr>jo_fields := jo_fields obj @ fs, jo_found_fields := True\<rparr>, r)"
  unfolding json_fields_member_append
  by (subst json_members_loop.simps)
    (simp add: csimps is_json_space_def json_member_def drop_char_def json_fields_loop_text
       json_key_fields [simplified])

lemma data_string_member:
  assumes "json_clean key" "key \<noteq> ''fields''" "json_clean v" "json_data_string_member key v st = Some st'"
  shows "json_data_members_loop (json_string_text key v @ CHR '','' # r) st = json_data_members_loop r st'"
  unfolding json_string_text_append using assms
  by (subst json_data_members_loop.simps) (simp add: csimps is_json_space_def json_data_member_def drop_char_def)

lemma data_seq_member:
  "json_data_members_loop (json_seq_text sequence @ CHR '','' # r) st =
     json_data_members_loop r (st\<lparr>jd_sequence := sequence, jd_found_seq := True\<rparr>)"
  unfolding json_seq_text_append
  by (subst json_data_members_loop.simps)
    (simp add: csimps is_json_space_def json_data_member_def json_data_number_member_def drop_char_print_u
       is_digit_def)

lemma data_fields_member:
  "list_all json_field_ok fs \<Longrightarrow> length (data_fields (jd_data st)) + length fs \<le> 16 \<Longrightarrow>
   json_data_members_loop (json_fields_member fs @ CHR ''}'' # r) st =
     (st\<lparr>jd_data := (jd_data st)\<lparr>data_fields := data_fields (jd_data st) @ fs\<rparr>\<rparr>, Some r)"
  unfolding json_fields_member_append
  by (subst json_data_members_loop.simps)
    (simp add: csimps is_json_space_def json_data_member_def drop_char_def json_data_fields_loop_text
       json_key_fields [simplified])

section \<open>Round trips\<close>

lemma clean_names [csimps]:
  "json_clean ''node''" "json_clean ''sender''" "json_clean ''type''" "json_clean ''error''"
  "json_clean ''DATA''" "json_clean ''ACK''" "json_clean ''NACK''" "json_clean ''CMD''"
  by (simp_all add: json_clean_def)

lemma json_text_start:
  "json_skip_whitespace (''{'' @ r) = CHR ''{'' # r" "drop_char (CHR ''{'') (CHR ''{'' # r) = Some r"
  by (simp_all add: json_skip_whitespace_def is_json_space_def drop_char_def)

definition json_id_ok :: "string \<Rightarrow> bool" where
  "json_id_ok i = (json_clean i \<and> length i < 32)"

text \<open>The object that the object parser makes of each of the four texts.\<close>

definition read_object :: "string \<Rightarrow> u32 \<Rightarrow> string \<Rightarrow> json_object" where
  "read_object node sequence type = zero_json_object
     \<lparr>jo_node_id := Some node, jo_sequence := Some sequence, jo_type_value := Some type\<rparr>"

lemmas object_members = object_string_member object_seq_member object_fields_member

text \<open>
  What is read of a text does not depend on what follows the closing brace: the receivers see the
  line without its newline.
\<close>

lemma json_texts_end:
  "json_command_text c = butlast (json_command_text c) @ [LF]"
  "json_device_text type node sequence fs = butlast (json_device_text type node sequence fs) @ [LF]"
  "json_nack_text a = butlast (json_nack_text a) @ [LF]"
  by (simp_all add: json_command_text_def json_device_text_def json_nack_text_def butlast_append)

lemma parse_command_tail:
  assumes "json_id_ok (cmd_target_node c)" "json_id_ok (cmd_sender c)"
    "list_all json_field_ok (cmd_fields c)" "length (cmd_fields c) \<le> 16"
  shows "json_parse_object (Some (butlast (json_command_text c) @ tail)) = Some
     ((read_object (cmd_target_node c) (cmd_sequence c) ''CMD'')
        \<lparr>jo_sender := Some (cmd_sender c), jo_fields := cmd_fields c, jo_found_fields := True\<rparr>,
      length (json_command_text c) - 1)"
proof -
  define r where "r = json_string_text ''node'' (cmd_target_node c) @ '','' @ json_string_text ''sender'' (cmd_sender c) @ '',''
     @ json_seq_text (cmd_sequence c) @ '',''
     @ json_string_text ''type'' ''CMD'' @ '','' @ json_fields_member (cmd_fields c) @ ''}'' @ tail"
  have t: "butlast (json_command_text c) @ tail = ''{'' @ r" by (simp add: json_command_text_def r_def butlast_append)
  have "json_members_loop r zero_json_object = Some
     ((read_object (cmd_target_node c) (cmd_sequence c) ''CMD'')
        \<lparr>jo_sender := Some (cmd_sender c), jo_fields := cmd_fields c, jo_found_fields := True\<rparr>, tail)"
    unfolding r_def using assms
    by (simp add: object_members csimps json_string_member_def json_id_ok_def read_object_def zero_json_object_def)
  then show ?thesis unfolding t json_parse_object_def
    using arg_cong [OF t, of length] by (simp add: json_text_start [simplified])
qed

lemma parse_device_tail:
  assumes "json_id_ok node" "json_clean type" "length type < 8" "list_all json_field_ok fs" "length fs \<le> 16"
  shows "json_parse_object (Some (butlast (json_device_text type node sequence fs) @ tail)) = Some
     ((read_object node sequence type)\<lparr>jo_fields := fs, jo_found_fields := True\<rparr>,
      length (json_device_text type node sequence fs) - 1)"
proof -
  define r where "r = json_string_text ''node'' node @ '','' @ json_seq_text sequence @ '',''
     @ json_string_text ''type'' type @ '','' @ json_fields_member fs @ ''}'' @ tail"
  have t: "butlast (json_device_text type node sequence fs) @ tail = ''{'' @ r" by (simp add: json_device_text_def r_def butlast_append)
  have "json_members_loop r zero_json_object = Some
     ((read_object node sequence type)\<lparr>jo_fields := fs, jo_found_fields := True\<rparr>, tail)"
    unfolding r_def using assms
    by (simp add: object_members csimps json_string_member_def json_id_ok_def read_object_def zero_json_object_def)
  then show ?thesis unfolding t json_parse_object_def
    using arg_cong [OF t, of length] by (simp add: json_text_start [simplified])
qed

lemma parse_nack_tail:
  assumes "json_id_ok (nack_node_id a)" "json_id_ok (nack_error a)" "nack_error a \<noteq> []"
  shows "json_parse_object (Some (butlast (json_nack_text a) @ tail)) = Some
     ((read_object (nack_node_id a) (nack_sequence a) ''NACK'')\<lparr>jo_error := Some (nack_error a)\<rparr>,
      length (json_nack_text a) - 1)"
proof -
  define r where "r = json_string_text ''node'' (nack_node_id a) @ '','' @ json_seq_text (nack_sequence a) @ '',''
     @ json_string_text ''type'' ''NACK'' @ '','' @ json_string_text ''error'' (nack_error a) @ ''}'' @ tail"
  have t: "butlast (json_nack_text a) @ tail = ''{'' @ r" by (simp add: json_nack_text_def r_def butlast_append)
  have "json_members_loop r zero_json_object = Some
     ((read_object (nack_node_id a) (nack_sequence a) ''NACK'')\<lparr>jo_error := Some (nack_error a)\<rparr>, tail)"
    unfolding r_def using assms
    by (simp add: object_members csimps json_string_member_def json_id_ok_def read_object_def zero_json_object_def)
  then show ?thesis unfolding t json_parse_object_def
    using arg_cong [OF t, of length] by (simp add: json_text_start [simplified])
qed

lemmas parse_command_text = parse_command_tail [where tail = "[LF]", folded json_texts_end]
lemmas parse_device_text = parse_device_tail [where tail = "[LF]", folded json_texts_end]
lemmas parse_nack_text = parse_nack_tail [where tail = "[LF]", folded json_texts_end]

lemma decode_data_tail:
  assumes "json_id_ok (data_node_id d)" "list_all json_field_ok (data_fields d)" "length (data_fields d) \<le> 16"
  shows "message_json_decode_data (Some (butlast (json_data_text d) @ tail)) (Some d0) = (Some (length (json_data_text d) - 1), Some d)"
proof -
  define r where "r = json_string_text ''node'' (data_node_id d) @ '','' @ json_seq_text (data_sequence d) @ '',''
     @ json_string_text ''type'' ''DATA'' @ '','' @ json_fields_member (data_fields d) @ ''}'' @ tail"
  have t: "butlast (json_data_text d) @ tail = ''{'' @ r" by (simp add: json_data_text_def json_device_text_def r_def butlast_append)
  have "json_data_members_loop r json_data_start =
     (\<lparr>jd_data = \<lparr>data_node_id = data_node_id d, data_sequence = 0, data_fields = data_fields d\<rparr>, jd_found_node = True,
       jd_found_seq = True, jd_found_type = True, jd_sequence = data_sequence d\<rparr>, Some tail)"
    unfolding r_def using assms
    by (simp add: data_string_member data_seq_member data_fields_member csimps json_data_string_member_def
        json_id_ok_def json_data_start_def zero_frame_data_def)
  then show ?thesis unfolding t message_json_decode_data_def
    using arg_cong [OF t, of length] by (simp add: json_text_start [simplified])
qed

lemma decode_data_text:
  assumes "json_id_ok (data_node_id d)" "list_all json_field_ok (data_fields d)" "length (data_fields d) \<le> 16"
  shows "message_json_decode_data (Some (json_data_text d)) (Some d0) = (Some (length (json_data_text d) - 1), Some d)"
proof -
  have "json_data_text d = butlast (json_data_text d) @ [LF]"
    unfolding json_data_text_def by (rule json_texts_end(2))
  then show ?thesis using decode_data_tail [OF assms, of "[LF]" d0] by simp
qed

text \<open>C18: DATA messages survive the link to the server: for a message with an id and fields of the
  sizes of their arrays and without quotes, backslashes and NULs, \<open>message_json_build_data\<close> succeeds
  in every buffer with room for the text and its NUL, \<open>message_json_peek_type\<close> tells that it is a
  DATA message, and \<open>message_json_decode_data\<close> gives back the same message, consuming all but the
  newline.\<close>
theorem message_json_data_roundtrip:
  assumes "json_id_ok (data_node_id d)" "list_all json_field_ok (data_fields d)" "length (data_fields d) \<le> 16"
    and "length (json_data_text d) < out_size"
  shows "\<exists>text. message_json_build_data (Some old) out_size (Some d) = (Some (length text), Some text)
     \<and> message_json_peek_type (Some text) (Some old_type) 8 = (True, Some ''DATA'')
     \<and> message_json_decode_data (Some text) (Some d0) = (Some (length text - 1), Some d)"
proof (intro exI conjI)
  show "message_json_build_data (Some old) out_size (Some d) = (Some (length (json_data_text d)), Some (json_data_text d))"
    using assms(4) by (simp add: csimps json_written_def)
  show "message_json_peek_type (Some (json_data_text d)) (Some old_type) 8 = (True, Some ''DATA'')"
    using assms by (simp add: message_json_peek_type_def json_data_text_def parse_device_text csimps read_object_def)
qed (rule decode_data_text [OF assms(1-3)])

theorem message_json_data_roundtrip_witness:
  "\<exists>text. message_json_build_data (Some []) 512 (Some \<lparr>data_node_id = ''N1'', data_sequence = 7,
       data_fields = [\<lparr>kv_key = ''T'', kv_value = ''-45''\<rparr>, \<lparr>kv_key = ''H'', kv_value = ''601''\<rparr>]\<rparr>)
         = (Some (length text), Some text)
     \<and> message_json_peek_type (Some text) (Some []) 8 = (True, Some ''DATA'')
     \<and> message_json_decode_data (Some text) (Some zero_frame_data) = (Some (length text - 1),
         Some \<lparr>data_node_id = ''N1'', data_sequence = 7,
           data_fields = [\<lparr>kv_key = ''T'', kv_value = ''-45''\<rparr>, \<lparr>kv_key = ''H'', kv_value = ''601''\<rparr>]\<rparr>)"
  by (rule message_json_data_roundtrip)
    (simp_all add: json_id_ok_def json_clean_def json_field_ok_def json_data_text_def json_device_text_def
       json_fields_member_def json_seq_text_def json_field_text_def json_string_text_def json_quoted_def print_compute)

text \<open>C19: Commands survive the link: for a command whose target and sender have less than 32 characters,
  with at most 16 fields whose keys and values are not empty and have less than 16 and 32 characters, all
  without quotes, backslashes and NULs, \<open>message_json_build_command\<close> succeeds in every buffer with room for
  the text and its NUL, \<open>message_json_peek_type\<close> tells that it is a CMD message, and
  \<open>message_json_decode_command\<close> gives back the same target, sender, sequence number and fields, consuming
  all but the newline. (A quote or backslash is written unescaped by the code and does not decode:
  \<open>json_quote_breaks_message\<close>.)\<close>
theorem message_json_command_roundtrip:
  assumes "json_id_ok (cmd_target_node c)" "json_id_ok (cmd_sender c)"
    "list_all json_field_ok (cmd_fields c)" "length (cmd_fields c) \<le> 16"
    and "length (json_command_text c) < out_size"
  shows "\<exists>text. message_json_build_command (Some old) out_size (Some c) = (Some (length text), Some text)
     \<and> message_json_peek_type (Some text) (Some old_type) 8 = (True, Some ''CMD'')
     \<and> message_json_decode_command (Some text) (Some c0) = (Some (length text - 1), Some c)"
proof (intro exI conjI)
  show "message_json_build_command (Some old) out_size (Some c) = (Some (length (json_command_text c)), Some (json_command_text c))"
    using assms(5) by (simp add: csimps json_written_def)
  show "message_json_peek_type (Some (json_command_text c)) (Some old_type) 8 = (True, Some ''CMD'')"
    using assms by (simp add: message_json_peek_type_def parse_command_text read_object_def)
  show "message_json_decode_command (Some (json_command_text c)) (Some c0) = (Some (length (json_command_text c) - 1), Some c)"
    using assms by (simp add: message_json_decode_command_def parse_command_text read_object_def object_fields_def json_id_ok_def)
qed

theorem message_json_command_roundtrip_witness:
  "\<exists>text. message_json_build_command (Some []) 512 (Some \<lparr>cmd_target_node = ''N1'', cmd_sender = ''SERVER'',
       cmd_sequence = 3, cmd_fields = [\<lparr>kv_key = ''LED'', kv_value = ''1''\<rparr>]\<rparr>) = (Some (length text), Some text)
     \<and> message_json_peek_type (Some text) (Some []) 8 = (True, Some ''CMD'')
     \<and> message_json_decode_command (Some text) (Some zero_frame_command) = (Some (length text - 1),
         Some \<lparr>cmd_target_node = ''N1'', cmd_sender = ''SERVER'', cmd_sequence = 3,
               cmd_fields = [\<lparr>kv_key = ''LED'', kv_value = ''1''\<rparr>]\<rparr>)"
  by (rule message_json_command_roundtrip)
    (simp_all add: json_id_ok_def json_clean_def json_field_ok_def json_command_text_def
       json_fields_member_def json_seq_text_def json_field_text_def json_string_text_def json_quoted_def print_compute)

text \<open>Answers survive the link: the ACK and NACK messages that are built are peeked as ACK and
  NACK and decoded to the same node, sequence number and fields, or error.\<close>
theorem message_json_answer_roundtrip:
  assumes "json_id_ok (ack_node_id a)" "list_all json_field_ok (ack_fields a)" "length (ack_fields a) \<le> 16"
    and "json_id_ok (nack_node_id b)" "json_id_ok (nack_error b)" "nack_error b \<noteq> []"
    and "length (json_ack_text a) < out_size" "length (json_nack_text b) < out_size"
  shows "\<exists>ta tb. message_json_build_ack (Some old) out_size (Some a) = (Some (length ta), Some ta)
     \<and> message_json_peek_type (Some ta) (Some old_type) 8 = (True, Some ''ACK'')
     \<and> message_json_decode_ack (Some ta) (Some a0) = (Some (length ta - 1), Some a)
     \<and> message_json_build_nack (Some old) out_size (Some b) = (Some (length tb), Some tb)
     \<and> message_json_peek_type (Some tb) (Some old_type) 8 = (True, Some ''NACK'')
     \<and> message_json_decode_nack (Some tb) (Some b0) = (Some (length tb - 1), Some b)"
proof (intro exI conjI)
  show "message_json_build_ack (Some old) out_size (Some a) = (Some (length (json_ack_text a)), Some (json_ack_text a))"
    "message_json_build_nack (Some old) out_size (Some b) = (Some (length (json_nack_text b)), Some (json_nack_text b))"
    using assms by (simp_all add: csimps json_written_def)
  show "message_json_peek_type (Some (json_ack_text a)) (Some old_type) 8 = (True, Some ''ACK'')"
    "message_json_decode_ack (Some (json_ack_text a)) (Some a0) = (Some (length (json_ack_text a) - 1), Some a)"
    using assms by (simp_all add: message_json_peek_type_def message_json_decode_ack_def json_ack_text_def
        parse_device_text csimps read_object_def object_fields_def json_id_ok_def)
  show "message_json_peek_type (Some (json_nack_text b)) (Some old_type) 8 = (True, Some ''NACK'')"
    "message_json_decode_nack (Some (json_nack_text b)) (Some b0) = (Some (length (json_nack_text b) - 1), Some b)"
    using assms by (simp_all add: message_json_peek_type_def message_json_decode_nack_def
        parse_nack_text read_object_def json_id_ok_def)
qed

theorem message_json_answer_roundtrip_witness:
  "\<exists>ta tb. message_json_build_ack (Some []) 512 (Some \<lparr>ack_node_id = ''N1'', ack_sequence = 3,
       ack_fields = [\<lparr>kv_key = ''LED'', kv_value = ''1''\<rparr>]\<rparr>) = (Some (length ta), Some ta)
     \<and> message_json_peek_type (Some ta) (Some []) 8 = (True, Some ''ACK'')
     \<and> message_json_decode_ack (Some ta) (Some zero_frame_ack) = (Some (length ta - 1),
         Some \<lparr>ack_node_id = ''N1'', ack_sequence = 3, ack_fields = [\<lparr>kv_key = ''LED'', kv_value = ''1''\<rparr>]\<rparr>)
     \<and> message_json_build_nack (Some []) 512 (Some \<lparr>nack_node_id = ''N1'', nack_sequence = 4, nack_error = ''bad_cmd''\<rparr>)
         = (Some (length tb), Some tb)
     \<and> message_json_peek_type (Some tb) (Some []) 8 = (True, Some ''NACK'')
     \<and> message_json_decode_nack (Some tb) (Some zero_frame_nack) = (Some (length tb - 1),
         Some \<lparr>nack_node_id = ''N1'', nack_sequence = 4, nack_error = ''bad_cmd''\<rparr>)"
  by (rule message_json_answer_roundtrip)
    (simp_all add: json_id_ok_def json_clean_def json_field_ok_def json_ack_text_def json_device_text_def json_nack_text_def
       json_fields_member_def json_seq_text_def json_field_text_def json_string_text_def json_quoted_def print_compute)

section \<open>Bounds\<close>

text \<open>What fits the arrays of the structs, whatever text is parsed.\<close>

definition fields_fit :: "frame_kv list \<Rightarrow> bool" where
  "fields_fit kvs =
     (length kvs \<le> 16 \<and> list_all (\<lambda>f. length (kv_key f) < 16 \<and> length (kv_value f) < 32) kvs)"

definition object_fits :: "json_object \<Rightarrow> bool" where
  "object_fits obj =
     (pred_option (\<lambda>s. length s < 32) (jo_node_id obj) \<and> pred_option (\<lambda>s. length s < 32) (jo_sender obj)
      \<and> pred_option (\<lambda>s. length s < 32) (jo_error obj) \<and> pred_option (\<lambda>s. length s < 8) (jo_type_value obj)
      \<and> pred_option (\<lambda>v. - (2 ^ 31) \<le> v \<and> v < 2 ^ 31) (jo_led_value obj)
      \<and> fields_fit (jo_fields obj))"

definition data_fits :: "frame_data \<Rightarrow> bool" where
  "data_fits d = (length (data_node_id d) < 32 \<and> fields_fit (data_fields d))"

lemma cstr_less: "length s < n \<Longrightarrow> length (cstr s) < n"
  by (rule le_less_trans [OF cstr_length])

lemma kv_array_add_fits: "kv_array_add kvs key v = Some kvs' \<Longrightarrow> fields_fit kvs \<Longrightarrow> fields_fit kvs'"
  by (auto simp: kv_array_add_def fields_fit_def frame_consts cstr_less split: if_splits)

lemma json_data_add_field_fits: "json_data_add_field d key v = Some d' \<Longrightarrow> data_fits d \<Longrightarrow> data_fits d'"
  by (auto simp: json_data_add_field_def data_fits_def dest: kv_array_add_fits)

lemma json_fields_loop_fits: "json_fields_loop p kvs = Some (kvs', q) \<Longrightarrow> fields_fit kvs \<Longrightarrow> fields_fit kvs'"
proof (induction p kvs rule: json_fields_loop.induct)
  case (1 p kvs)
  note IH = 1(1) and eq = 1(2) and fit = 1(3)
  obtain c r where w: "json_skip_whitespace p = c # r" using eq
    by (subst (asm) json_fields_loop.simps) (auto split: list.splits)
  show ?case
  proof (cases "c = CHR ''}''")
    case True
    with eq fit w show ?thesis by (subst (asm) json_fields_loop.simps) simp
  next
    case False
    with eq w obtain key v vl v' kvs1 again q1 where
      s: "c = QUOTE" "json_key r = Some (key, v)" "json_field_value v = Some (vl, v')"
        "kv_array_add kvs key vl = Some kvs1" "json_after_value v' = Some (again, q1)"
      and res: "(if again then json_fields_loop q1 kvs1 else Some (kvs1, q1)) = Some (kvs', q)"
      by (subst (asm) json_fields_loop.simps) (auto split: option.splits prod.splits if_splits)
    have "fields_fit kvs1" by (rule kv_array_add_fits [OF s(4) fit])
    then show ?thesis
      using res IH [OF w False _ s(2) refl s(3) refl s(4) s(5) refl] s(1) by (cases again) auto
  qed
qed

lemma to_int32_range: "- (2 ^ 31) \<le> to_int32 v \<and> to_int32 v < 2 ^ 31"
  using sint_greater_eq [of "word_of_int v :: u32"] sint_less [of "word_of_int v :: u32"] by (simp add: to_int32_def)

lemma json_string_member_fits: "json_string_member key v obj = Some obj' \<Longrightarrow> object_fits obj \<Longrightarrow> object_fits obj'"
  by (auto simp: json_string_member_def object_fits_def cstr_less atoi_def to_int32_range [simplified] split: if_splits)

lemma json_number_member_fits: "json_number_member key p obj = Some (obj', q) \<Longrightarrow> object_fits obj \<Longrightarrow> object_fits obj'"
  by (auto simp: json_number_member_def object_fits_def Let_def to_int32_range [simplified] split: if_splits option.splits)

lemma json_member_fits: "json_member key p obj = Some (obj', q) \<Longrightarrow> object_fits obj \<Longrightarrow> object_fits obj'"
proof (cases "key = ''fields''")
  case True
  then show "json_member key p obj = Some (obj', q) \<Longrightarrow> object_fits obj \<Longrightarrow> object_fits obj'"
    by (auto simp: json_member_def object_fits_def dest: json_fields_loop_fits split: option.splits)
next
  case False
  then show "json_member key p obj = Some (obj', q) \<Longrightarrow> object_fits obj \<Longrightarrow> object_fits obj'"
    by (auto simp: json_member_def dest: json_string_member_fits json_number_member_fits split: option.splits)
qed

lemma json_members_loop_fits:
  "json_members_loop p obj = Some (obj', q) \<Longrightarrow> object_fits obj \<Longrightarrow> object_fits obj' \<and> length q < length p"
proof (induction p obj rule: json_members_loop.induct)
  case (1 p obj)
  note IH = 1(1) and eq = 1(2) and fit = 1(3)
  obtain c r where w: "json_skip_whitespace p = c # r" using eq
    by (subst (asm) json_members_loop.simps) (auto split: list.splits)
  have lr: "length r < length p" using json_skip_whitespace_length [of p] by (simp add: w)
  show ?case
  proof (cases "c = CHR ''}''")
    case True
    with eq fit w lr show ?thesis by (subst (asm) json_members_loop.simps) simp
  next
    case False
    with eq w obtain key v obj1 v' again q1 where
      s: "c = QUOTE" "json_key r = Some (key, v)" "json_member key v obj = Some (obj1, v')"
        "json_after_value v' = Some (again, q1)"
      and res: "(if again then json_members_loop q1 obj1 else Some (obj1, q1)) = Some (obj', q)"
      by (subst (asm) json_members_loop.simps) (auto split: option.splits prod.splits if_splits)
    have "object_fits obj1" by (rule json_member_fits [OF s(3) fit])
    moreover have "length q1 < length p"
      using lr json_key_length [OF s(2)] json_member_length [OF s(3)] json_after_value_length [OF s(4)] by simp
    ultimately show ?thesis
      using res IH [OF w False _ s(2) refl s(3) refl s(4) refl] s(1) by (cases again) auto
  qed
qed

lemma json_data_fields_loop_fits: "data_fits d \<Longrightarrow> data_fits (fst (json_data_fields_loop p d))"
proof (induction p d rule: json_data_fields_loop.induct)
  case (1 p d)
  show ?case
    by (subst json_data_fields_loop.simps)
      (auto simp: 1(2) split: list.split option.split prod.split intro: 1(1) json_data_add_field_fits [OF _ 1(2)])
qed

lemma json_data_string_member_fits:
  "json_data_string_member key v st = Some st' \<Longrightarrow> data_fits (jd_data st) \<Longrightarrow> data_fits (jd_data st')"
  by (cases "key = ''node''"; cases "key = ''type''")
    (auto simp: json_data_string_member_def data_fits_def cstr_less split: if_splits)

lemma json_data_number_member_fits:
  assumes "data_fits (jd_data st)"
  shows "data_fits (jd_data (fst (json_data_number_member key p st)))"
proof -
  consider (x10) "key = ''temperature'' \<or> key = ''humidity''"
    | (seq) "key = ''seq''"
    | (other) "\<not> (key = ''temperature'' \<or> key = ''humidity'')" "key \<noteq> ''seq''" by blast
  then show ?thesis
  proof cases
    case x10
    then show ?thesis
      unfolding json_data_number_member_def if_P [OF x10]
      by (auto simp: assms split: option.split prod.split intro: json_data_add_field_fits [OF _ assms])
  next
    case seq
    then show ?thesis by (auto simp: json_data_number_member_def assms split: option.split)
  next
    case other
    then show ?thesis by (simp add: json_data_number_member_def assms)
  qed
qed

lemma json_data_member_fits:
  assumes "data_fits (jd_data st)"
  shows "data_fits (jd_data (fst (json_data_member key p st)))"
proof (cases "key = ''fields''")
  case True
  show ?thesis
    unfolding json_data_member_def if_P [OF True]
    using json_data_fields_loop_fits [OF assms] assms
    by (auto split: option.split prod.split) (metis fst_conv)
next
  case False
  show ?thesis
    unfolding json_data_member_def if_not_P [OF False]
    using json_data_number_member_fits [OF assms] assms
    by (auto split: option.split intro: json_data_string_member_fits)
qed

lemma json_data_members_loop_fits:
  "data_fits (jd_data st) \<Longrightarrow> data_fits (jd_data (fst (json_data_members_loop p st)))"
proof (induction p st rule: json_data_members_loop.induct)
  case (1 p st)
  note IH = 1(1) and fit = 1(2)
  show ?case
  proof (cases "json_skip_whitespace p")
    case Nil
    then show ?thesis by (subst json_data_members_loop.simps) (simp add: fit)
  next
    case w: (Cons c r)
    show ?thesis
    proof (cases "c = CHR ''}'' \<or> c \<noteq> QUOTE \<or> json_key r = None")
      case True
      then show ?thesis by (subst json_data_members_loop.simps) (auto simp: w fit)
    next
      case False
      then obtain key v where k: "c \<noteq> CHR ''}''" "c = QUOTE" "json_key r = Some (key, v)" by auto
      obtain st' o' where m: "json_data_member key v st = (st', o')" by fastforce
      have fit': "data_fits (jd_data st')" using json_data_member_fits [OF fit, of key v] by (simp add: m)
      show ?thesis
      proof (cases "o' = None \<or> json_after_value (the o') = None")
        case True
        then show ?thesis
          by (subst json_data_members_loop.simps) (cases o', auto simp: w k m fit')
      next
        case False
        then obtain v' again q where a: "o' = Some v'" "json_after_value v' = Some (again, q)" by auto
        show ?thesis
          using IH [OF w k(1) _ k(3) refl m [symmetric] a(1) a(2) refl] k(2) fit'
          by (subst json_data_members_loop.simps) (cases again, auto simp: w k m a)
      qed
    qed
  qed
qed

section \<open>Measured values\<close>

lemma x10_digits_digits:
  "\<forall>c \<in> set ds. is_digit c \<Longrightarrow> v < 2147483640 \<Longrightarrow> \<not> is_digit c
   \<Longrightarrow> x10_digits v (ds @ c # r) =
     (let n = foldl (\<lambda>v c. v * 10 + digit_val c) v ds in if n < 2147483640 then Some (n, c # r) else None)"
proof (induction ds arbitrary: v)
  case Nil
  then show ?case by simp
next
  case (Cons e es)
  have e: "is_digit e" "digit_val e \<le> 9" using Cons.prems(1) by (auto simp: is_digit_def digit_val_def)
  show ?case
  proof (cases "214748363 < v")
    case True
    then have "\<not> foldl (\<lambda>v c. v * 10 + digit_val c) (v * 10 + digit_val e) es < 2147483640"
      using dec_fold_mono [of "v * 10 + digit_val e" es] by simp
    with True e show ?thesis by (simp add: Let_def)
  next
    case False
    then have "v * 10 + digit_val e < 2147483640" using e(2) by simp
    with Cons False e show ?thesis by simp
  qed
qed

lemma x10_digits_print_u:
  "\<not> is_digit c \<Longrightarrow> x10_digits 0 (print_u n @ c # r) = (if n < 2147483640 then Some (n, c # r) else None)"
  using x10_digits_digits [of "print_u n" 0 c r] dec_value_print_u [of n]
  by (simp add: dec_value_def print_u_digits Let_def)

lemma json_parse_x10_text:
  "json_parse_x10 (print_u n @ CHR ''.'' # digit_char (d mod 10) # CHR '','' # r) =
     (if n < 2147483640 then Some (to_int32 (int n * 10 + int (d mod 10)), CHR '','' # r) else None)"
proof -
  have "\<not> is_digit (CHR ''.'')" "\<not> is_digit (CHR '','')" "\<not> is_digit (CHR ''-'')" by (simp_all add: is_digit_def)
  moreover have "starts_digit (digit_char (d mod 10) # CHR '','' # r)" by (simp add: starts_digit_def)
  ultimately show ?thesis
    by (simp add: json_parse_x10_def drop_char_print_u starts_digit_print_u x10_digits_print_u Let_def
        drop_char_def [of "CHR ''.''"])
qed

lemma to_int32_id: "- (2 ^ 31) \<le> v \<Longrightarrow> v < 2 ^ 31 \<Longrightarrow> to_int32 v = v"
  by (simp add: to_int32_def signed_of_int signed_take_bit_int_eq_self)

lemma print_d_length: "- (2 ^ 31) \<le> v \<Longrightarrow> v < 2 ^ 31 \<Longrightarrow> length (print_d v) \<le> 11"
  using print_u_length [of "nat v" 11] print_u_length [of "nat (- v)" 10] by (cases "v < 0") (simp_all add: print_d_def)

lemma object_fields_fits: "object_fits obj \<Longrightarrow> fields_fit (object_fields obj)"
proof (cases "jo_found_fields obj \<or> jo_led_value obj = None")
  case True
  assume "object_fits obj"
  with True show ?thesis by (auto simp: object_fits_def object_fields_def fields_fit_def)
next
  case False
  assume "object_fits obj"
  with False obtain v where "\<not> jo_found_fields obj" "jo_led_value obj = Some v" "- (2 ^ 31) \<le> v" "v < 2 ^ 31"
    by (auto simp: object_fits_def)
  with print_d_length [of v] show ?thesis by (simp add: object_fields_def fields_fit_def)
qed

lemma json_parse_object_fits:
  assumes "json_parse_object (Some t) = Some (obj, n)"
  shows "object_fits obj \<and> 0 < n \<and> n \<le> length t"
proof -
  from assms obtain p q where p: "drop_char (CHR ''{'') (json_skip_whitespace t) = Some p"
    "json_members_loop p zero_json_object = Some (obj, q)" "n = length t - length q"
    by (auto simp: json_parse_object_def split: if_splits option.splits)
  have "object_fits zero_json_object" by (simp add: object_fits_def zero_json_object_def fields_fit_def)
  then show ?thesis
    using p(3) json_members_loop_fits [OF p(2)] drop_char_length [OF p(1)] json_skip_whitespace_length [of t] by auto
qed

lemma json_data_members_loop_length:
  "json_data_members_loop p st = (st', Some q) \<Longrightarrow> length q < length p"
proof (induction p st rule: json_data_members_loop.induct)
  case (1 p st)
  note IH = 1(1) and eq = 1(2)
  obtain c r where w: "json_skip_whitespace p = c # r" using eq
    by (subst (asm) json_data_members_loop.simps) (auto split: list.splits)
  have lr: "length r < length p" using json_skip_whitespace_length [of p] by (simp add: w)
  show ?case
  proof (cases "c = CHR ''}''")
    case True
    with eq w lr show ?thesis by (subst (asm) json_data_members_loop.simps) simp
  next
    case False
    with eq w obtain key v st1 v' again q1 where
      s: "c = QUOTE" "json_key r = Some (key, v)" "json_data_member key v st = (st1, Some v')"
        "json_after_value v' = Some (again, q1)"
      and res: "(if again then json_data_members_loop q1 st1 else (st1, Some q1)) = (st', Some q)"
      by (subst (asm) json_data_members_loop.simps) (auto split: option.splits prod.splits if_splits)
    have "length q1 < length p"
      using lr json_key_length [OF s(2)] json_data_member_length [OF s(3)] json_after_value_length [OF s(4)] by simp
    then show ?thesis
      using res IH [OF w False _ s(2) refl s(3) [symmetric] refl s(4) refl] s(1) by (cases again) auto
  qed
qed

lemma decode_data_fits:
  assumes "message_json_decode_data (Some (c # cs)) (Some d) = (res, out)"
  shows "\<exists>r. out = Some r \<and> data_fits r \<and> pred_option (\<lambda>n. 0 < n \<and> n \<le> length (c # cs)) res"
proof (cases "drop_char (CHR ''{'') (json_skip_whitespace (c # cs))")
  case None
  with assms show ?thesis by (auto simp: message_json_decode_data_def data_fits_def zero_frame_data_def fields_fit_def)
next
  case (Some p)
  have z: "data_fits (jd_data json_data_start)"
    by (simp add: json_data_start_def data_fits_def zero_frame_data_def fields_fit_def)
  obtain st o' where m: "json_data_members_loop p json_data_start = (st, o')" by fastforce
  have f: "data_fits (jd_data st)" using json_data_members_loop_fits [OF z, of p] by (simp add: m)
  show ?thesis
  proof (cases o')
    case None
    with assms f m Some show ?thesis by (auto simp: message_json_decode_data_def)
  next
    case (Some q)
    have "length q < length (c # cs)"
      using json_data_members_loop_length [OF m [unfolded Some]]
        drop_char_length [OF \<open>drop_char (CHR ''{'') _ = Some p\<close>] json_skip_whitespace_length [of "c # cs"] by simp
    with assms f m Some \<open>drop_char (CHR ''{'') _ = Some p\<close> show ?thesis
      by (auto simp: message_json_decode_data_def data_fits_def split: if_splits)
  qed
qed

text \<open>C20: No JSON text can overrun a decoder's output. Whatever non-empty line is decoded, with
  success or not, ids and the error end up below 32 bytes and there are at most 16 fields with keys
  below 16 and values below 32 bytes; the count of consumed bytes lies within the line.\<close>
theorem json_decoders_stay_in_bounds:
  "(\<exists>res r. message_json_decode_data (Some (c # cs)) (Some d) = (res, Some r) \<and> data_fits r
      \<and> pred_option (\<lambda>n. 0 < n \<and> n \<le> length (c # cs)) res)
   \<and> (\<exists>res r. message_json_decode_command (Some (c # cs)) (Some m) = (res, Some r)
      \<and> length (cmd_target_node r) < 32 \<and> length (cmd_sender r) < 32 \<and> fields_fit (cmd_fields r)
      \<and> pred_option (\<lambda>n. 0 < n \<and> n \<le> length (c # cs)) res)
   \<and> (\<exists>res r. message_json_decode_ack (Some (c # cs)) (Some a) = (res, Some r)
      \<and> length (ack_node_id r) < 32 \<and> fields_fit (ack_fields r)
      \<and> pred_option (\<lambda>n. 0 < n \<and> n \<le> length (c # cs)) res)
   \<and> (\<exists>res r. message_json_decode_nack (Some (c # cs)) (Some b) = (res, Some r)
      \<and> length (nack_node_id r) < 32 \<and> length (nack_error r) < 32
      \<and> pred_option (\<lambda>n. 0 < n \<and> n \<le> length (c # cs)) res)"
proof (intro conjI)
  show "\<exists>res r. message_json_decode_data (Some (c # cs)) (Some d) = (res, Some r) \<and> data_fits r
      \<and> pred_option (\<lambda>n. 0 < n \<and> n \<le> length (c # cs)) res"
    using decode_data_fits [of c cs d]
    by (cases "message_json_decode_data (Some (c # cs)) (Some d)") auto
  note defs = message_json_decode_command_def message_json_decode_ack_def message_json_decode_nack_def
    zero_frame_command_def zero_frame_ack_def zero_frame_nack_def
  show "\<exists>res r. message_json_decode_command (Some (c # cs)) (Some m) = (res, Some r)
      \<and> length (cmd_target_node r) < 32 \<and> length (cmd_sender r) < 32 \<and> fields_fit (cmd_fields r)
      \<and> pred_option (\<lambda>n. 0 < n \<and> n \<le> length (c # cs)) res"
    by (cases "json_parse_object (Some (c # cs))")
      (auto simp: defs fields_fit_def [of "[]"] dest!: json_parse_object_fits intro: object_fields_fits)
  show "\<exists>res r. message_json_decode_ack (Some (c # cs)) (Some a) = (res, Some r)
      \<and> length (ack_node_id r) < 32 \<and> fields_fit (ack_fields r)
      \<and> pred_option (\<lambda>n. 0 < n \<and> n \<le> length (c # cs)) res"
    by (cases "json_parse_object (Some (c # cs))")
      (auto simp: defs fields_fit_def [of "[]"] dest!: json_parse_object_fits intro: object_fields_fits)
  show "\<exists>res r. message_json_decode_nack (Some (c # cs)) (Some b) = (res, Some r)
      \<and> length (nack_node_id r) < 32 \<and> length (nack_error r) < 32
      \<and> pred_option (\<lambda>n. 0 < n \<and> n \<le> length (c # cs)) res"
    by (cases "json_parse_object (Some (c # cs))")
      (auto simp: defs dest!: json_parse_object_fits)
qed

text \<open>The old numeric format is scaled by ten, exactly while the scaled value fits an \<open>int\<close>; an
  integer part between that and 2147483640 passes the overflow check and is wrapped instead of
  refused (2147483639.0 becomes -90), a larger one is refused.\<close>
theorem json_parse_x10_spec:
  "json_parse_x10 (print_u n @ CHR ''.'' # digit_char (d mod 10) # CHR '','' # r) =
     (if int n * 10 + int (d mod 10) < 2 ^ 31 then Some (int n * 10 + int (d mod 10), CHR '','' # r)
      else if n < 2147483640 then Some (to_int32 (int n * 10 + int (d mod 10)), CHR '','' # r)
      else None)
   \<and> json_parse_x10 (print_u 2147483639 @ CHR ''.'' # digit_char (0 mod 10) # CHR '','' # r) = Some (- 90, CHR '','' # r)"
proof
  show "json_parse_x10 (print_u n @ CHR ''.'' # digit_char (d mod 10) # CHR '','' # r) =
     (if int n * 10 + int (d mod 10) < 2 ^ 31 then Some (int n * 10 + int (d mod 10), CHR '','' # r)
      else if n < 2147483640 then Some (to_int32 (int n * 10 + int (d mod 10)), CHR '','' # r)
      else None)"
    using to_int32_id [of "int n * 10 + int (d mod 10)"] unfolding json_parse_x10_text by auto
  have "to_int32 21474836390 = - 90" by (simp add: to_int32_def signed_of_int signed_take_bit_eq_if_negative take_bit_eq_mod bit_iff_odd)
  then show "json_parse_x10 (print_u 2147483639 @ CHR ''.'' # digit_char (0 mod 10) # CHR '','' # r) = Some (- 90, CHR '','' # r)"
    unfolding json_parse_x10_text by simp
qed

text \<open>A quote in a field value is legal in a frame but not escaped in JSON: the message is built
  all the same and the receiver refuses it, so the reading is lost.\<close>
theorem json_quote_breaks_message:
  "field_text_is_valid (Some [CHR ''5'', QUOTE])
   \<and> (let d = \<lparr>data_node_id = ''N1'', data_sequence = sequence, data_fields = [\<lparr>kv_key = ''T'', kv_value = [CHR ''5'', QUOTE]\<rparr>]\<rparr> in
      message_json_build_data (Some old) 512 (Some d) = (Some (length (json_data_text d)), Some (json_data_text d))
      \<and> fst (message_json_decode_data (Some (json_data_text d)) (Some d0)) = None)"
proof -
  define d where "d = \<lparr>data_node_id = ''N1'', data_sequence = sequence, data_fields = [\<lparr>kv_key = ''T'', kv_value = [CHR ''5'', QUOTE]\<rparr>]\<rparr>"
  define r where "r = json_string_text ''node'' ''N1'' @ '','' @ json_seq_text sequence @ '',''
     @ json_string_text ''type'' ''DATA'' @ '','' @ json_fields_member (data_fields d) @ ''}'' @ [LF]"
  have t: "json_data_text d = ''{'' @ r" by (simp add: json_data_text_def json_device_text_def r_def d_def)
  have len: "length (json_data_text d) < 512"
  proof -
    have "length (print_u (unat sequence)) \<le> 10"
      using print_u_length [of "unat sequence" 10] unsigned_less [of sequence, where 'a = nat] by simp
    then show ?thesis
      by (simp add: json_data_text_def json_device_text_def d_def json_string_text_def json_seq_text_def
          json_fields_member_def json_field_text_def json_quoted_def)
  qed
  have key: "json_key (CHR ''T'' # QUOTE # CHR '':'' # QUOTE # x) = Some (''T'', QUOTE # x)" for x
    using json_key_clean [of "''T''" QUOTE x] by (simp add: json_clean_def is_json_space_def)
  have fail: "snd (json_data_fields_loop
      (QUOTE # CHR ''T'' # QUOTE # CHR '':'' # QUOTE # CHR ''5'' # QUOTE # QUOTE # x) e) = None"
    if "data_fields e = []" for x e
    using that by (subst json_data_fields_loop.simps)
      (simp add: csimps is_json_space_def key json_field_value_def drop_char_def json_data_add_field_def
        kv_array_add_def frame_consts json_after_value_def)
  have m: "snd (json_data_members_loop (json_fields_member (data_fields d) @ x) st) = None"
    if "data_fields (jd_data st) = []" for x st
    unfolding json_fields_member_append
    by (subst json_data_members_loop.simps)
      (simp add: csimps json_key_fields [simplified] is_json_space_def json_data_member_def drop_char_def d_def
        json_field_text_def json_string_text_def json_quoted_def case_prod_beta fail [OF that])
  have "snd (json_data_members_loop r json_data_start) = None"
    unfolding r_def
    by (simp add: data_string_member data_seq_member csimps json_data_string_member_def json_data_start_def
        zero_frame_data_def json_clean_def m)
  then have "fst (message_json_decode_data (Some (json_data_text d)) (Some d0)) = None"
    unfolding t message_json_decode_data_def
    by (cases "json_data_members_loop r json_data_start") (simp add: json_text_start [simplified])
  then show ?thesis
    using len by (simp add: Let_def d_def [symmetric] csimps json_written_def field_text_is_valid_def field_char_ok_def)
qed

end
