(* ===== verification/Message_Queue.thy ===== *)
theory Message_Queue
  imports Interfaces
begin

text \<open>
  \<^verbatim>\<open>gateway/message_queue.c\<close>, \<^verbatim>\<open>gateway/message_queue.h\<close>: the bounded blocking queue between the
  workers that talk to the nodes and the thread that talks to the server. A call runs under the
  mutex; \<open>message_queue_push\<close> and \<open>message_queue_pop\<close> are one pass of their critical section, with
  result \<open>None\<close> where the code waits on its condition variable (and starts the pass again when it is
  woken). \<open>mq_step\<close> puts any number of threads around one queue: calls, waits, signals, broadcasts,
  spurious wake-ups. The lemmas: the queue is a bounded FIFO, nothing is lost, duplicated or
  reordered under any interleaving, no wake-up is lost, and after a shutdown nobody waits.
\<close>

section \<open>The queue and its operations\<close>

record gateway_message =
  msg_data :: string
  msg_length :: nat

record message_queue =
  mq_items :: "gateway_message list"
  mq_head :: nat
  mq_tail :: nat
  mq_count :: nat
  mq_shutting_down :: bool

datatype mq_result = MESSAGE_QUEUE_OK | MESSAGE_QUEUE_SHUTDOWN | MESSAGE_QUEUE_EMPTY | MESSAGE_QUEUE_ERROR

definition MESSAGE_QUEUE_CAPACITY :: nat where "MESSAGE_QUEUE_CAPACITY = 32"
definition GATEWAY_MESSAGE_MAX_SIZE :: nat where "GATEWAY_MESSAGE_MAX_SIZE = 256"

lemmas mq_consts = MESSAGE_QUEUE_CAPACITY_def GATEWAY_MESSAGE_MAX_SIZE_def

text \<open>The results of initialising the mutex and the two condition variables are arguments.\<close>

definition message_queue_init :: "message_queue \<Rightarrow> int \<Rightarrow> int \<Rightarrow> int \<Rightarrow> mq_result \<times> message_queue" where
  "message_queue_init queue mutex_init not_empty_init not_full_init =
     (let q = queue\<lparr>mq_head := 0, mq_tail := 0, mq_count := 0, mq_shutting_down := False\<rparr> in
      if mutex_init \<noteq> 0 then (MESSAGE_QUEUE_ERROR, q)
      else if not_empty_init \<noteq> 0 then (MESSAGE_QUEUE_ERROR, q)
      else if not_full_init \<noteq> 0 then (MESSAGE_QUEUE_ERROR, q)
      else (MESSAGE_QUEUE_OK, q))"

definition mq_put :: "gateway_message \<Rightarrow> message_queue \<Rightarrow> message_queue" where
  "mq_put message q =
     q\<lparr>mq_items := (mq_items q)[mq_tail q := message],
       mq_tail := (mq_tail q + 1) mod MESSAGE_QUEUE_CAPACITY,
       mq_count := mq_count q + 1\<rparr>"

definition mq_take :: "message_queue \<Rightarrow> gateway_message \<times> message_queue" where
  "mq_take q =
     (mq_items q ! mq_head q,
      q\<lparr>mq_head := (mq_head q + 1) mod MESSAGE_QUEUE_CAPACITY, mq_count := mq_count q - 1\<rparr>)"

definition message_queue_push :: "message_queue \<Rightarrow> gateway_message option \<Rightarrow> mq_result option \<times> message_queue" where
  "message_queue_push q message =
     (case message of
        None \<Rightarrow> (Some MESSAGE_QUEUE_ERROR, q)
      | Some m \<Rightarrow>
          if GATEWAY_MESSAGE_MAX_SIZE < msg_length m then (Some MESSAGE_QUEUE_ERROR, q)
          else if mq_count q = MESSAGE_QUEUE_CAPACITY \<and> \<not> mq_shutting_down q then (None, q)
          else if mq_shutting_down q then (Some MESSAGE_QUEUE_SHUTDOWN, q)
          else (Some MESSAGE_QUEUE_OK, mq_put m q))"

definition message_queue_pop :: "message_queue \<Rightarrow> gateway_message option
    \<Rightarrow> mq_result option \<times> gateway_message option \<times> message_queue" where
  "message_queue_pop q message =
     (if message = None then (Some MESSAGE_QUEUE_ERROR, message, q)
      else if mq_count q = 0 \<and> \<not> mq_shutting_down q then (None, message, q)
      else if mq_count q = 0 \<and> mq_shutting_down q then (Some MESSAGE_QUEUE_SHUTDOWN, message, q)
      else (case mq_take q of (m, q') \<Rightarrow> (Some MESSAGE_QUEUE_OK, Some m, q')))"

definition message_queue_try_pop :: "message_queue \<Rightarrow> gateway_message option
    \<Rightarrow> mq_result \<times> gateway_message option \<times> message_queue" where
  "message_queue_try_pop q message =
     (if message = None then (MESSAGE_QUEUE_ERROR, message, q)
      else if mq_count q = 0 then
        (if mq_shutting_down q then MESSAGE_QUEUE_SHUTDOWN else MESSAGE_QUEUE_EMPTY, message, q)
      else (case mq_take q of (m, q') \<Rightarrow> (MESSAGE_QUEUE_OK, Some m, q')))"

definition message_queue_shutdown :: "message_queue \<Rightarrow> message_queue" where
  "message_queue_shutdown q = q\<lparr>mq_shutting_down := True\<rparr>"

section \<open>The queue is a bounded FIFO\<close>

definition mq_inv :: "message_queue \<Rightarrow> bool" where
  "mq_inv q =
     (length (mq_items q) = MESSAGE_QUEUE_CAPACITY \<and> mq_head q < MESSAGE_QUEUE_CAPACITY
      \<and> mq_count q \<le> MESSAGE_QUEUE_CAPACITY
      \<and> mq_tail q = (mq_head q + mq_count q) mod MESSAGE_QUEUE_CAPACITY)"

definition mq_contents :: "message_queue \<Rightarrow> gateway_message list" where
  "mq_contents q = ring_contents MESSAGE_QUEUE_CAPACITY (mq_items q) (mq_head q) (mq_count q)"

lemma mq_put_inv: "mq_inv q \<Longrightarrow> mq_count q < MESSAGE_QUEUE_CAPACITY \<Longrightarrow> mq_inv (mq_put m q)"
  by (auto simp: mq_inv_def mq_put_def mod_simps)

lemma mq_put_contents:
  "mq_inv q \<Longrightarrow> mq_count q < MESSAGE_QUEUE_CAPACITY \<Longrightarrow> mq_contents (mq_put m q) = mq_contents q @ [m]"
  by (simp add: mq_inv_def mq_contents_def mq_put_def ring_enqueue)

lemma mq_take_inv: "mq_inv q \<Longrightarrow> 0 < mq_count q \<Longrightarrow> mq_inv (snd (mq_take q))"
  using ring_tail_dequeue [of "mq_count q" "mq_head q" MESSAGE_QUEUE_CAPACITY]
  by (auto simp: mq_inv_def mq_take_def mq_consts)

lemma mq_take_contents:
  "mq_inv q \<Longrightarrow> 0 < mq_count q \<Longrightarrow> mq_contents q = fst (mq_take q) # mq_contents (snd (mq_take q))"
  by (simp add: mq_inv_def mq_contents_def mq_take_def ring_dequeue)

interpretation mq: bounded_fifo mq_inv mq_contents mq_count MESSAGE_QUEUE_CAPACITY mq_put mq_take
  by unfold_locales
    (simp_all add: mq_put_inv mq_put_contents mq_take_inv mq_take_contents,
     simp_all add: mq_inv_def mq_contents_def)

lemma message_queue_init_ok:
  "length (mq_items q) = MESSAGE_QUEUE_CAPACITY \<Longrightarrow> mq_inv (snd (message_queue_init q a b c))"
  by (simp add: message_queue_init_def mq_inv_def mq_consts Let_def)

section \<open>Threads around a queue\<close>

text \<open>
  A thread outside the queue is \<open>Ready\<close>; \<open>Pushing m\<close> and \<open>Popping\<close> threads are about to run (or run
  again) the critical section of their call; the others wait on a condition variable.
\<close>

datatype mq_thread = Ready | is_Pushing: Pushing gateway_message | Popping
  | is_Waiting_not_full: Waiting_not_full gateway_message | Waiting_not_empty

record mq_system =
  queue :: message_queue
  threads :: "mq_thread list"
  accepted :: "gateway_message list"
  delivered :: "gateway_message list"

text \<open>\<open>pthread_cond_signal\<close> wakes one waiting thread if there is one, \<open>pthread_cond_broadcast\<close> all.\<close>

definition signal_not_empty :: "mq_thread list \<Rightarrow> mq_thread list \<Rightarrow> bool" where
  "signal_not_empty ths ths' =
     (if Waiting_not_empty \<in> set ths
      then \<exists>i < length ths. ths ! i = Waiting_not_empty \<and> ths' = ths[i := Popping]
      else ths' = ths)"

definition signal_not_full :: "mq_thread list \<Rightarrow> mq_thread list \<Rightarrow> bool" where
  "signal_not_full ths ths' =
     (if \<exists>t \<in> set ths. is_Waiting_not_full t
      then \<exists>i < length ths. \<exists>m. ths ! i = Waiting_not_full m \<and> ths' = ths[i := Pushing m]
      else ths' = ths)"

fun wake :: "mq_thread \<Rightarrow> mq_thread" where
  "wake (Waiting_not_full m) = Pushing m"
| "wake Waiting_not_empty = Popping"
| "wake t = t"

inductive mq_step :: "mq_system \<Rightarrow> mq_system \<Rightarrow> bool" where
  call_push: "i < length (threads s) \<Longrightarrow> threads s ! i = Ready \<Longrightarrow> msg_length m \<le> GATEWAY_MESSAGE_MAX_SIZE
     \<Longrightarrow> mq_step s (s\<lparr>threads := (threads s)[i := Pushing m]\<rparr>)"
| call_pop: "i < length (threads s) \<Longrightarrow> threads s ! i = Ready
     \<Longrightarrow> mq_step s (s\<lparr>threads := (threads s)[i := Popping]\<rparr>)"
| push_ok: "i < length (threads s) \<Longrightarrow> threads s ! i = Pushing m
     \<Longrightarrow> message_queue_push (queue s) (Some m) = (Some MESSAGE_QUEUE_OK, q')
     \<Longrightarrow> signal_not_empty ((threads s)[i := Ready]) ths'
     \<Longrightarrow> mq_step s (s\<lparr>queue := q', threads := ths', accepted := accepted s @ [m]\<rparr>)"
| push_refused: "i < length (threads s) \<Longrightarrow> threads s ! i = Pushing m
     \<Longrightarrow> message_queue_push (queue s) (Some m) = (Some r, q') \<Longrightarrow> r \<noteq> MESSAGE_QUEUE_OK
     \<Longrightarrow> mq_step s (s\<lparr>queue := q', threads := (threads s)[i := Ready]\<rparr>)"
| push_wait: "i < length (threads s) \<Longrightarrow> threads s ! i = Pushing m
     \<Longrightarrow> message_queue_push (queue s) (Some m) = (None, q')
     \<Longrightarrow> mq_step s (s\<lparr>queue := q', threads := (threads s)[i := Waiting_not_full m]\<rparr>)"
| pop_ok: "i < length (threads s) \<Longrightarrow> threads s ! i = Popping
     \<Longrightarrow> message_queue_pop (queue s) (Some old) = (Some MESSAGE_QUEUE_OK, Some m, q')
     \<Longrightarrow> signal_not_full ((threads s)[i := Ready]) ths'
     \<Longrightarrow> mq_step s (s\<lparr>queue := q', threads := ths', delivered := delivered s @ [m]\<rparr>)"
| pop_refused: "i < length (threads s) \<Longrightarrow> threads s ! i = Popping
     \<Longrightarrow> message_queue_pop (queue s) (Some old) = (Some r, out, q') \<Longrightarrow> r \<noteq> MESSAGE_QUEUE_OK
     \<Longrightarrow> mq_step s (s\<lparr>queue := q', threads := (threads s)[i := Ready]\<rparr>)"
| pop_wait: "i < length (threads s) \<Longrightarrow> threads s ! i = Popping
     \<Longrightarrow> message_queue_pop (queue s) (Some old) = (None, out, q')
     \<Longrightarrow> mq_step s (s\<lparr>queue := q', threads := (threads s)[i := Waiting_not_empty]\<rparr>)"
| try_pop_ok: "i < length (threads s) \<Longrightarrow> threads s ! i = Ready
     \<Longrightarrow> message_queue_try_pop (queue s) (Some old) = (MESSAGE_QUEUE_OK, Some m, q')
     \<Longrightarrow> signal_not_full (threads s) ths'
     \<Longrightarrow> mq_step s (s\<lparr>queue := q', threads := ths', delivered := delivered s @ [m]\<rparr>)"
| try_pop_refused: "message_queue_try_pop (queue s) (Some old) = (r, out, q') \<Longrightarrow> r \<noteq> MESSAGE_QUEUE_OK
     \<Longrightarrow> mq_step s (s\<lparr>queue := q'\<rparr>)"
| shutdown: "mq_step s (s\<lparr>queue := message_queue_shutdown (queue s), threads := map wake (threads s)\<rparr>)"
| spurious: "i < length (threads s) \<Longrightarrow> mq_step s (s\<lparr>threads := (threads s)[i := wake (threads s ! i)]\<rparr>)"

text \<open>
  A push of an oversized message is refused before the mutex is taken: it is no step of the system,
  so a pushing thread holds a message that fits.
\<close>

fun thread_ok :: "mq_thread \<Rightarrow> bool" where
  "thread_ok (Pushing m) = (msg_length m \<le> GATEWAY_MESSAGE_MAX_SIZE)"
| "thread_ok (Waiting_not_full m) = (msg_length m \<le> GATEWAY_MESSAGE_MAX_SIZE)"
| "thread_ok t = True"

definition mq_start :: "message_queue \<Rightarrow> nat \<Rightarrow> mq_system" where
  "mq_start q n = \<lparr>queue = q, threads = replicate n Ready, accepted = [], delivered = []\<rparr>"

text \<open>
  The invariant: what was delivered and what is queued is what was accepted, in order; while a
  consumer waits there are at least as many consumers on their way as messages, while a producer
  waits there are at least as many producers on their way as free places; nobody waits on a queue
  that is shut down.
\<close>

abbreviation waiting_consumers :: "mq_thread list \<Rightarrow> nat" where
  "waiting_consumers \<equiv> count_where (\<lambda>t. t = Waiting_not_empty)"
abbreviation running_consumers :: "mq_thread list \<Rightarrow> nat" where
  "running_consumers \<equiv> count_where (\<lambda>t. t = Popping)"
abbreviation waiting_producers :: "mq_thread list \<Rightarrow> nat" where
  "waiting_producers \<equiv> count_where is_Waiting_not_full"
abbreviation running_producers :: "mq_thread list \<Rightarrow> nat" where
  "running_producers \<equiv> count_where is_Pushing"

definition mq_system_inv :: "mq_system \<Rightarrow> bool" where
  "mq_system_inv s =
     (mq_inv (queue s) \<and> delivered s @ mq_contents (queue s) = accepted s
      \<and> (0 < waiting_consumers (threads s) \<longrightarrow> mq_count (queue s) \<le> running_consumers (threads s))
      \<and> (0 < waiting_producers (threads s) \<longrightarrow>
           MESSAGE_QUEUE_CAPACITY - mq_count (queue s) \<le> running_producers (threads s))
      \<and> (mq_shutting_down (queue s) \<longrightarrow>
           waiting_consumers (threads s) = 0 \<and> waiting_producers (threads s) = 0))"

section \<open>The invariant holds in every run\<close>

text \<open>What one thread's change does to the four counts, and what a signal does.\<close>

lemma thread_counts:
  assumes "i < length ths"
  shows "waiting_consumers (ths[i := t]) + (if ths ! i = Waiting_not_empty then 1 else 0)
           = waiting_consumers ths + (if t = Waiting_not_empty then 1 else 0)"
    and "running_consumers (ths[i := t]) + (if ths ! i = Popping then 1 else 0)
           = running_consumers ths + (if t = Popping then 1 else 0)"
    and "waiting_producers (ths[i := t]) + (if is_Waiting_not_full (ths ! i) then 1 else 0)
           = waiting_producers ths + (if is_Waiting_not_full t then 1 else 0)"
    and "running_producers (ths[i := t]) + (if is_Pushing (ths ! i) then 1 else 0)
           = running_producers ths + (if is_Pushing t then 1 else 0)"
  by (rule count_where_update [OF assms])+

lemma signal_not_empty_counts:
  assumes "signal_not_empty ths ths'"
  shows "if waiting_consumers ths = 0 then ths' = ths
     else waiting_consumers ths' + 1 = waiting_consumers ths \<and> running_consumers ths' = running_consumers ths + 1
       \<and> waiting_producers ths' = waiting_producers ths \<and> running_producers ths' = running_producers ths"
proof (cases "Waiting_not_empty \<in> set ths")
  case True
  then obtain i where i: "i < length ths" "ths ! i = Waiting_not_empty" "ths' = ths[i := Popping]"
    using assms by (auto simp: signal_not_empty_def)
  have "waiting_consumers ths \<noteq> 0" using True count_where_pos [of "\<lambda>t. t = Waiting_not_empty" ths] by auto
  then show ?thesis using thread_counts [OF i(1), of Popping] i(2,3) by simp
next
  case False
  then have "waiting_consumers ths = 0" using count_where_pos [of "\<lambda>t. t = Waiting_not_empty" ths] by auto
  with False assms show ?thesis by (simp add: signal_not_empty_def)
qed

lemma signal_not_full_counts:
  assumes "signal_not_full ths ths'"
  shows "if waiting_producers ths = 0 then ths' = ths
     else waiting_producers ths' + 1 = waiting_producers ths \<and> running_producers ths' = running_producers ths + 1
       \<and> waiting_consumers ths' = waiting_consumers ths \<and> running_consumers ths' = running_consumers ths"
proof (cases "\<exists>t \<in> set ths. is_Waiting_not_full t")
  case True
  then obtain i m where i: "i < length ths" "ths ! i = Waiting_not_full m" "ths' = ths[i := Pushing m]"
    using assms by (auto simp: signal_not_full_def)
  have "waiting_producers ths \<noteq> 0" using True count_where_pos [of is_Waiting_not_full ths] by auto
  then show ?thesis using thread_counts [OF i(1), of "Pushing m"] i(2,3) by simp
next
  case False
  then have "waiting_producers ths = 0" using count_where_pos [of is_Waiting_not_full ths] by auto
  with False assms show ?thesis by (simp add: signal_not_full_def)
qed

lemma map_wake_counts [simp]:
  "waiting_consumers (map wake ths) = 0" "waiting_producers (map wake ths) = 0"
proof -
  have "wake t \<noteq> Waiting_not_empty \<and> \<not> is_Waiting_not_full (wake t)" for t by (cases t) simp_all
  then show "waiting_consumers (map wake ths) = 0" "waiting_producers (map wake ths) = 0"
    by (auto simp: count_where_def filter_empty_conv)
qed

text \<open>What the two operations that may wait do, branch by branch.\<close>

lemma message_queue_push_cases:
  assumes "message_queue_push q (Some m) = (r, q')"
  shows "case r of
     None \<Rightarrow> q' = q \<and> mq_count q = MESSAGE_QUEUE_CAPACITY \<and> \<not> mq_shutting_down q
   | Some MESSAGE_QUEUE_OK \<Rightarrow> q' = mq_put m q \<and> mq_count q \<noteq> MESSAGE_QUEUE_CAPACITY \<and> \<not> mq_shutting_down q
   | Some _ \<Rightarrow> q' = q \<and> (mq_shutting_down q \<or> GATEWAY_MESSAGE_MAX_SIZE < msg_length m)"
  using assms by (auto simp: message_queue_push_def split: if_splits)

lemma message_queue_pop_cases:
  assumes "message_queue_pop q (Some old) = (r, out, q')"
  shows "case r of
     None \<Rightarrow> q' = q \<and> mq_count q = 0 \<and> \<not> mq_shutting_down q
   | Some MESSAGE_QUEUE_OK \<Rightarrow> mq_take q = (the out, q') \<and> mq_count q \<noteq> 0
   | Some _ \<Rightarrow> q' = q \<and> mq_count q = 0 \<and> mq_shutting_down q"
  using assms by (auto simp: message_queue_pop_def split: if_splits prod.splits)

lemma message_queue_try_pop_cases:
  assumes "message_queue_try_pop q (Some old) = (r, out, q')"
  shows "case r of
     MESSAGE_QUEUE_OK \<Rightarrow> mq_take q = (the out, q') \<and> mq_count q \<noteq> 0
   | _ \<Rightarrow> q' = q \<and> mq_count q = 0"
  using assms by (auto simp: message_queue_try_pop_def split: if_splits prod.splits)

lemma mq_put_simps [simp]:
  "mq_count (mq_put m q) = mq_count q + 1" "mq_shutting_down (mq_put m q) = mq_shutting_down q"
  by (simp_all add: mq_put_def)

lemma mq_take_simps:
  assumes "mq_take q = (m, q')"
  shows "mq_count q' = mq_count q - 1" "mq_shutting_down q' = mq_shutting_down q"
  using assms by (auto simp: mq_take_def)

lemma mq_take_keeps:
  assumes "mq_system_inv s" "mq_take (queue s) = (m, q')" "mq_count (queue s) \<noteq> 0"
  shows "mq_inv q' \<and> (delivered s @ [m]) @ mq_contents q' = accepted s"
  using assms mq.deq_inv [of "queue s"] mq.deq_contents [of "queue s"] by (simp add: mq_system_inv_def)

lemma mq_put_keeps:
  assumes "mq_system_inv s" "mq_count (queue s) \<noteq> MESSAGE_QUEUE_CAPACITY"
  shows "mq_inv (mq_put m (queue s)) \<and> delivered s @ mq_contents (mq_put m (queue s)) = accepted s @ [m]"
proof -
  have "mq_inv (queue s)" "mq_count (queue s) < MESSAGE_QUEUE_CAPACITY"
    using assms by (auto simp: mq_system_inv_def mq_inv_def)
  with assms(1) show ?thesis by (simp add: mq.enq_inv mq.enq_contents mq_system_inv_def flip: append_assoc)
qed

lemma list_all_update: "list_all P xs \<Longrightarrow> P y \<Longrightarrow> list_all P (xs[i := y])"
  using set_update_subset_insert [of xs i y] by (auto simp: list_all_iff)

lemma signals_ok:
  "signal_not_empty ths ths' \<Longrightarrow> list_all thread_ok ths \<Longrightarrow> list_all thread_ok ths'"
  "signal_not_full ths ths' \<Longrightarrow> list_all thread_ok ths \<Longrightarrow> list_all thread_ok ths'"
proof -
  show "signal_not_empty ths ths' \<Longrightarrow> list_all thread_ok ths \<Longrightarrow> list_all thread_ok ths'"
    by (auto simp: signal_not_empty_def list_all_update split: if_splits)
  assume sig: "signal_not_full ths ths'" and ok: "list_all thread_ok ths"
  show "list_all thread_ok ths'"
  proof (cases "ths' = ths")
    case True
    with ok show ?thesis by simp
  next
    case False
    then obtain i m where i: "i < length ths" "ths ! i = Waiting_not_full m" "ths' = ths[i := Pushing m]"
      using sig by (auto simp: signal_not_full_def split: if_splits)
    then have "thread_ok (Waiting_not_full m)" using ok by (metis list_all_length)
    with ok i show ?thesis by (simp add: list_all_update)
  qed
qed

lemma thread_ok_wake: "thread_ok t \<Longrightarrow> thread_ok (wake t)"
  by (cases t) auto

lemma mq_step_ok: "mq_step s s' \<Longrightarrow> list_all thread_ok (threads s) \<Longrightarrow> list_all thread_ok (threads s')"
proof (induction rule: mq_step.induct)
  case (push_wait i s m q')
  then have "thread_ok (Pushing m)" by (metis list_all_length)
  with push_wait show ?case by (simp add: list_all_update)
next
  case (shutdown s)
  then show ?case by (simp add: list_all_iff thread_ok_wake)
next
  case (spurious i s)
  then have "thread_ok (threads s ! i)" by (simp add: list_all_length)
  with spurious show ?case by (simp add: list_all_update thread_ok_wake)
qed (auto simp: list_all_update intro: signals_ok)

lemma mq_step_inv: "mq_step s s' \<Longrightarrow> list_all thread_ok (threads s) \<Longrightarrow> mq_system_inv s \<Longrightarrow> mq_system_inv s'"
proof (induction rule: mq_step.induct)
  case (call_push i s m)
  then show ?case using thread_counts [OF call_push(1), of "Pushing m"] by (auto simp: mq_system_inv_def)
next
  case (call_pop i s)
  then show ?case using thread_counts [OF call_pop(1), of Popping] by (auto simp: mq_system_inv_def)
next
  case (push_ok i s m q' ths')
  note c = message_queue_push_cases [OF push_ok(3), simplified]
  note keep = mq_put_keeps [OF push_ok(6), of m]
  show ?case
    using push_ok c keep thread_counts [OF push_ok(1), of Ready] signal_not_empty_counts [OF push_ok(4)]
    by (auto simp: mq_system_inv_def split: if_splits)
next
  case (push_refused i s m r q')
  then have "thread_ok (Pushing m)" by (metis list_all_length)
  with push_refused show ?case
    using thread_counts [OF push_refused(1), of Ready] message_queue_push_cases [OF push_refused(3)]
    by (auto simp: mq_system_inv_def split: mq_result.splits)
next
  case (push_wait i s m q')
  then show ?case
    using thread_counts [OF push_wait(1), of "Waiting_not_full m"] message_queue_push_cases [OF push_wait(3)]
    by (auto simp: mq_system_inv_def)
next
  case (pop_ok i s old m q' ths')
  note c = message_queue_pop_cases [OF pop_ok(3), simplified]
  show ?case
    using pop_ok c mq_take_keeps [OF pop_ok(6), of m q'] mq_take_simps [of "queue s" m q']
      thread_counts [OF pop_ok(1), of Ready] signal_not_full_counts [OF pop_ok(4)]
    by (auto simp: mq_system_inv_def split: if_splits)
next
  case (pop_refused i s old r out q')
  then show ?case
    using thread_counts [OF pop_refused(1), of Ready] message_queue_pop_cases [OF pop_refused(3)]
    by (auto simp: mq_system_inv_def split: mq_result.splits)
next
  case (pop_wait i s old out q')
  then show ?case
    using thread_counts [OF pop_wait(1), of Waiting_not_empty] message_queue_pop_cases [OF pop_wait(3)]
    by (auto simp: mq_system_inv_def)
next
  case (try_pop_ok i s old m q' ths')
  note c = message_queue_try_pop_cases [OF try_pop_ok(3), simplified]
  show ?case
    using try_pop_ok c mq_take_keeps [OF try_pop_ok(6), of m q'] mq_take_simps [of "queue s" m q']
      signal_not_full_counts [OF try_pop_ok(4)]
    by (auto simp: mq_system_inv_def split: if_splits)
next
  case (try_pop_refused s old r out q')
  then show ?case using message_queue_try_pop_cases [OF try_pop_refused(1)] by (auto split: mq_result.splits)
next
  case (shutdown s)
  then show ?case by (simp add: mq_system_inv_def message_queue_shutdown_def mq_inv_def mq_contents_def)
next
  case (spurious i s)
  then show ?case
    using thread_counts [OF spurious(1), of "wake (threads s ! i)"]
    by (cases "threads s ! i") (auto simp: mq_system_inv_def)
qed

lemma mq_steps_inv:
  "mq_step\<^sup>*\<^sup>* s s' \<Longrightarrow> list_all thread_ok (threads s) \<Longrightarrow> mq_system_inv s
   \<Longrightarrow> list_all thread_ok (threads s') \<and> mq_system_inv s'"
  by (induction rule: rtranclp_induct) (auto intro: mq_step_inv mq_step_ok)

lemma mq_start_inv:
  assumes "length (mq_items q) = MESSAGE_QUEUE_CAPACITY"
  shows "list_all thread_ok (threads (mq_start (snd (message_queue_init q a b c)) n))
    \<and> mq_system_inv (mq_start (snd (message_queue_init q a b c)) n)"
proof -
  have "waiting_consumers (replicate n Ready) = 0" "waiting_producers (replicate n Ready) = 0"
    by (auto simp: count_where_def)
  moreover have "mq_contents (snd (message_queue_init q a b c)) = []"
    by (simp add: mq_contents_def message_queue_init_def Let_def)
  ultimately show ?thesis
    using message_queue_init_ok [OF assms] by (auto simp: mq_system_inv_def mq_start_def list_all_iff)
qed

section \<open>Properties of the queue\<close>

text \<open>What \<open>message_queue_pop\<close> does, on every branch: a NULL destination is an error; an empty
  queue makes the caller wait, or returns SHUTDOWN once the queue is shut down; otherwise the
  oldest message is delivered, also after a shutdown, and exactly it leaves the queue.\<close>
theorem message_queue_pop_spec:
  assumes "mq_inv q"
  shows "case message_queue_pop q message of
     (r, out, q') \<Rightarrow>
       (if message = None then r = Some MESSAGE_QUEUE_ERROR \<and> out = message \<and> q' = q
        else (case mq_contents q of
           [] \<Rightarrow> r = (if mq_shutting_down q then Some MESSAGE_QUEUE_SHUTDOWN else None) \<and> out = message \<and> q' = q
         | m # ms \<Rightarrow> r = Some MESSAGE_QUEUE_OK \<and> out = Some m \<and> mq_contents q' = ms \<and> mq_inv q'
                     \<and> mq_shutting_down q' = mq_shutting_down q))"
proof (cases "mq_count q = 0")
  case True
  then have "mq_contents q = []" using mq.size_contents [OF assms] by simp
  with True show ?thesis by (auto simp: message_queue_pop_def)
next
  case False
  then have pos: "0 < mq_count q" by simp
  obtain m q' where t: "mq_take q = (m, q')" by (cases "mq_take q")
  have "mq_contents q = m # mq_contents q'" "mq_inv q'"
    using mq.deq_contents [OF assms pos] mq.deq_inv [OF assms pos] t by auto
  with False t mq_take_simps [OF t] show ?thesis by (auto simp: message_queue_pop_def)
qed

text \<open>A concrete queue and two concrete runs, for the witnesses.\<close>

definition example_message :: gateway_message where
  "example_message = \<lparr>msg_data = ''{}'', msg_length = 2\<rparr>"

definition example_queue :: message_queue where
  "example_queue = \<lparr>mq_items = replicate 32 example_message, mq_head = 31, mq_tail = 31, mq_count = 0,
     mq_shutting_down = False\<rparr>"

lemma example_init:
  "snd (message_queue_init example_queue 0 0 0) = example_queue\<lparr>mq_head := 0, mq_tail := 0\<rparr>"
  by (simp add: message_queue_init_def example_queue_def)

lemma example_length: "length (mq_items example_queue) = 32"
  by (simp add: example_queue_def)

theorem message_queue_pop_spec_witness:
  "mq_inv (mq_put example_message (example_queue\<lparr>mq_head := 0, mq_tail := 0\<rparr>))
   \<and> fst (message_queue_pop (mq_put example_message (example_queue\<lparr>mq_head := 0, mq_tail := 0\<rparr>)) (Some example_message))
     = Some MESSAGE_QUEUE_OK"
proof -
  let ?q = "mq_put example_message (example_queue\<lparr>mq_head := 0, mq_tail := 0\<rparr>)"
  have inv: "mq_inv ?q" by (simp add: mq_inv_def mq_put_def example_queue_def mq_consts)
  have "mq_contents ?q = [example_message]"
    by (simp add: mq_contents_def mq_put_def example_queue_def mq_consts ring_contents_def)
  with message_queue_pop_spec [OF inv, of "Some example_message"] inv show ?thesis
    by (auto split: prod.splits)
qed

text \<open>C2: Under any interleaving of any number of threads calling push, pop, try_pop and shutdown,
  with any wake-ups, no message is lost, duplicated or reordered: what was delivered followed by
  what is still queued is exactly what was accepted, and at most 32 messages are queued.\<close>
theorem mq_no_loss:
  assumes "length (mq_items q) = 32"
    and "mq_step\<^sup>*\<^sup>* (mq_start (snd (message_queue_init q a b c)) n) s"
  shows "delivered s @ mq_contents (queue s) = accepted s
    \<and> length (accepted s) \<le> length (delivered s) + 32"
proof -
  have inv: "mq_system_inv s"
    using mq_steps_inv [OF assms(2)] mq_start_inv [of q a b c n] assms(1) by (simp add: mq_consts)
  then have eq: "delivered s @ mq_contents (queue s) = accepted s" and q: "mq_inv (queue s)"
    by (auto simp: mq_system_inv_def)
  have "length (mq_contents (queue s)) \<le> 32"
    using mq.size_contents [OF q] mq.size_bound [OF q] by (simp add: mq_consts)
  moreover have "length (accepted s) = length (delivered s) + length (mq_contents (queue s))"
    by (simp flip: eq)
  ultimately show ?thesis using eq by simp
qed

text \<open>C3: No wake-up is ever lost: in every reachable state, if a consumer waits although messages are
  queued, some consumer is on its way to take one; if a producer waits although there is room, some
  producer is on its way; and producers and consumers never all wait for each other.\<close>
theorem mq_no_lost_wakeup:
  assumes "length (mq_items q) = 32"
    and "mq_step\<^sup>*\<^sup>* (mq_start (snd (message_queue_init q a b c)) n) s"
  shows "(Waiting_not_empty \<in> set (threads s) \<and> 0 < mq_count (queue s) \<longrightarrow> Popping \<in> set (threads s))
    \<and> ((\<exists>m. Waiting_not_full m \<in> set (threads s)) \<and> mq_count (queue s) < 32 \<longrightarrow> (\<exists>m. Pushing m \<in> set (threads s)))
    \<and> \<not> (Waiting_not_empty \<in> set (threads s) \<and> (\<exists>m. Waiting_not_full m \<in> set (threads s))
          \<and> Popping \<notin> set (threads s) \<and> (\<forall>m. Pushing m \<notin> set (threads s)))"
proof -
  have inv: "mq_system_inv s"
    using mq_steps_inv [OF assms(2)] mq_start_inv [of q a b c n] assms(1) by (simp add: mq_consts)
  have cons: "0 < waiting_consumers (threads s) \<longleftrightarrow> Waiting_not_empty \<in> set (threads s)"
    "0 < running_consumers (threads s) \<longleftrightarrow> Popping \<in> set (threads s)"
    by (auto simp: count_where_pos)
  have prod: "0 < waiting_producers (threads s) \<longleftrightarrow> (\<exists>m. Waiting_not_full m \<in> set (threads s))"
    "0 < running_producers (threads s) \<longleftrightarrow> (\<exists>m. Pushing m \<in> set (threads s))"
    by (force simp: count_where_pos is_Waiting_not_full_def is_Pushing_def)+
  show ?thesis
    using inv unfolding cons [symmetric] prod [symmetric]
    by (auto simp: mq_system_inv_def mq_consts simp flip: cons prod)
qed

text \<open>Shutdown releases everybody: in every reachable state with a queue that is shut down no
  thread waits, a push is refused, a pop never waits, and popping drains the queue before it reports
  SHUTDOWN.\<close>
theorem mq_shutdown_releases:
  assumes "length (mq_items q) = 32"
    and "mq_step\<^sup>*\<^sup>* (mq_start (snd (message_queue_init q a b c)) n) s"
    and "mq_shutting_down (queue s)"
  shows "Waiting_not_empty \<notin> set (threads s) \<and> (\<forall>m. Waiting_not_full m \<notin> set (threads s))
    \<and> fst (message_queue_push (queue s) (Some m)) \<in> {Some MESSAGE_QUEUE_SHUTDOWN, Some MESSAGE_QUEUE_ERROR}
    \<and> fst (message_queue_pop (queue s) (Some old)) =
        Some (if mq_contents (queue s) = [] then MESSAGE_QUEUE_SHUTDOWN else MESSAGE_QUEUE_OK)"
proof -
  have inv: "mq_system_inv s"
    using mq_steps_inv [OF assms(2)] mq_start_inv [of q a b c n] assms(1) by (simp add: mq_consts)
  then have none: "waiting_consumers (threads s) = 0" "waiting_producers (threads s) = 0"
    and q: "mq_inv (queue s)" using assms(3) by (auto simp: mq_system_inv_def)
  have "Waiting_not_empty \<notin> set (threads s)" "\<forall>m. Waiting_not_full m \<notin> set (threads s)"
    using none by (auto simp: count_where_def filter_empty_conv)
  moreover have "mq_contents (queue s) = [] \<longleftrightarrow> mq_count (queue s) = 0"
    using mq.size_contents [OF q] by auto
  ultimately show ?thesis
    using assms(3) by (auto simp: message_queue_push_def message_queue_pop_def split: prod.split)
qed

text \<open>Three threads: two wait for a message, the first pushes one, which wakes the second only.\<close>

definition example_state :: "mq_thread list \<Rightarrow> mq_system" where
  "example_state ths = (mq_start (snd (message_queue_init example_queue 0 0 0)) 3)\<lparr>threads := ths\<rparr>"

definition example_pushed :: mq_system where
  "example_pushed = (example_state [Ready, Popping, Waiting_not_empty])
     \<lparr>queue := mq_put example_message (queue (example_state [])), accepted := [example_message]\<rparr>"

lemma example_state_simps [simp]:
  "threads (example_state ths) = ths" "accepted (example_state ths) = []" "delivered (example_state ths) = []"
  "(example_state ths)\<lparr>threads := ths'\<rparr> = example_state ths'"
  "(example_state ths)\<lparr>queue := snd (message_queue_init example_queue 0 0 0), threads := ths'\<rparr> = example_state ths'"
  "queue (example_state ths) = snd (message_queue_init example_queue 0 0 0)"
  by (simp_all add: example_state_def mq_start_def)

lemma example_run:
  "mq_step\<^sup>*\<^sup>* (mq_start (snd (message_queue_init example_queue 0 0 0)) 3) example_pushed"
proof -
  define q where "q = snd (message_queue_init example_queue 0 0 0)"
  have q: "mq_count q = 0" "\<not> mq_shutting_down q" by (simp_all add: q_def example_init, simp_all add: example_queue_def)
  have pop: "message_queue_pop q (Some old) = (None, Some old, q)" for old
    using q by (simp add: message_queue_pop_def)
  have "mq_start (snd (message_queue_init example_queue 0 0 0)) 3 = example_state [Ready, Ready, Ready]"
    by (simp add: example_state_def mq_start_def numeral_3_eq_3)
  moreover have "mq_step (example_state [Ready, Ready, Ready]) (example_state [Ready, Popping, Ready])"
    using mq_step.call_pop [of 1 "example_state [Ready, Ready, Ready]"] by simp
  moreover have "mq_step (example_state [Ready, Popping, Ready]) (example_state [Ready, Waiting_not_empty, Ready])"
    using mq_step.pop_wait [of 1 "example_state [Ready, Popping, Ready]" example_message] pop by (simp add: q_def)
  moreover have "mq_step (example_state [Ready, Waiting_not_empty, Ready]) (example_state [Ready, Waiting_not_empty, Popping])"
    using mq_step.call_pop [of 2 "example_state [Ready, Waiting_not_empty, Ready]"] by (simp add: numeral_2_eq_2)
  moreover have "mq_step (example_state [Ready, Waiting_not_empty, Popping])
      (example_state [Ready, Waiting_not_empty, Waiting_not_empty])"
    using mq_step.pop_wait [of 2 "example_state [Ready, Waiting_not_empty, Popping]" example_message] pop
    by (simp add: q_def numeral_2_eq_2)
  moreover have "mq_step (example_state [Ready, Waiting_not_empty, Waiting_not_empty])
      (example_state [Pushing example_message, Waiting_not_empty, Waiting_not_empty])"
    using mq_step.call_push [of 0 "example_state [Ready, Waiting_not_empty, Waiting_not_empty]" example_message]
    by (simp add: example_message_def mq_consts)
  moreover have "mq_step (example_state [Pushing example_message, Waiting_not_empty, Waiting_not_empty]) example_pushed"
  proof -
    have "signal_not_empty [Ready, Waiting_not_empty, Waiting_not_empty] [Ready, Popping, Waiting_not_empty]"
      unfolding signal_not_empty_def by (simp, rule exI [of _ 1], simp)
    moreover have "message_queue_push q (Some example_message) = (Some MESSAGE_QUEUE_OK, mq_put example_message q)"
      using q by (simp add: message_queue_push_def example_message_def mq_consts)
    ultimately show ?thesis
      using mq_step.push_ok [of 0 "example_state [Pushing example_message, Waiting_not_empty, Waiting_not_empty]"
          example_message "mq_put example_message q" "[Ready, Popping, Waiting_not_empty]"]
      by (simp add: example_pushed_def q_def) (simp add: example_state_def mq_start_def)
  qed
  ultimately show ?thesis by (metis (no_types, lifting) rtranclp.rtrancl_into_rtrancl rtranclp.rtrancl_refl)
qed

theorem mq_no_loss_witness:
  "accepted example_pushed = [example_message]
   \<and> delivered example_pushed @ mq_contents (queue example_pushed) = accepted example_pushed"
  using mq_no_loss [OF example_length example_run] by (simp add: example_pushed_def)

theorem mq_no_lost_wakeup_witness:
  "Waiting_not_empty \<in> set (threads example_pushed) \<and> 0 < mq_count (queue example_pushed)
   \<and> Popping \<in> set (threads example_pushed)"
proof -
  have "Waiting_not_empty \<in> set (threads example_pushed)" "0 < mq_count (queue example_pushed)"
    by (simp_all add: example_pushed_def mq_put_def)
  then show ?thesis using mq_no_lost_wakeup [OF example_length example_run] by simp
qed

theorem mq_shutdown_releases_witness:
  "fst (message_queue_pop (message_queue_shutdown (queue example_pushed)) (Some example_message))
     = Some MESSAGE_QUEUE_OK"
proof -
  let ?s = "example_pushed\<lparr>queue := message_queue_shutdown (queue example_pushed),
    threads := map wake (threads example_pushed)\<rparr>"
  have run: "mq_step\<^sup>*\<^sup>* (mq_start (snd (message_queue_init example_queue 0 0 0)) 3) ?s"
    by (rule rtranclp.rtrancl_into_rtrancl [OF example_run mq_step.shutdown])
  have "mq_shutting_down (queue ?s)" by (simp add: message_queue_shutdown_def)
  moreover have "mq_contents (queue ?s) \<noteq> []"
    by (simp add: mq_contents_def example_pushed_def message_queue_shutdown_def ring_contents_def)
  ultimately show ?thesis
    using mq_shutdown_releases [OF example_length run, of _ example_message] by simp
qed

end
