(* ===== verification/Device_Manager.thy ===== *)
theory Device_Manager
  imports Frame_Parser
begin

text \<open>
  \<^verbatim>\<open>gateway/device_manager.c\<close>, \<^verbatim>\<open>gateway/device_manager.h\<close>: the registry of connected nodes, with the
  queue of commands waiting for each node. \<open>devices\<close> holds the live entries \<open>devices[0..count)\<close>, so
  \<open>count\<close> is its length; the queue of a device is the ring of the code. Every operation runs under
  the mutex of the manager, so it is one atomic step; \<open>time(NULL)\<close> is the argument \<open>now\<close> (-1 for a
  failure). The lemmas: the invariant of the registry, and a refinement: on the map from node ids
  to devices with a list of pending commands, each operation is its specification.
\<close>

section \<open>State\<close>

datatype device_transport = DEVICE_TRANSPORT_BLUETOOTH | DEVICE_TRANSPORT_WIFI

record device =
  dev_node_id :: string
  dev_transport :: device_transport
  dev_fd :: int
  dev_online :: bool
  dev_thread_id :: nat
  dev_last_seen :: int
  dev_command_queue :: "frame_command list"
  dev_command_head :: nat
  dev_command_tail :: nat
  dev_command_count :: nat

record device_manager =
  devices :: "device list"

datatype dm_result = DEVICE_MANAGER_QUEUE_EMPTY | DEVICE_MANAGER_OK | DEVICE_MANAGER_ERROR
  | DEVICE_MANAGER_NOT_FOUND | DEVICE_MANAGER_EXISTS | DEVICE_MANAGER_FULL | DEVICE_MANAGER_CONFLICT
  | DEVICE_MANAGER_OFFLINE | DEVICE_MANAGER_QUEUE_FULL | DEVICE_MANAGER_BUFFER_TOO_SMALL

definition DEVICE_MANAGER_MAX_DEVICES :: nat where "DEVICE_MANAGER_MAX_DEVICES = 16"
definition DEVICE_NODE_ID_SIZE :: nat where "DEVICE_NODE_ID_SIZE = 32"
definition DEVICE_COMMAND_QUEUE_CAPACITY :: nat where "DEVICE_COMMAND_QUEUE_CAPACITY = 8"

lemmas dm_consts = DEVICE_MANAGER_MAX_DEVICES_def DEVICE_NODE_ID_SIZE_def DEVICE_COMMAND_QUEUE_CAPACITY_def

text \<open>A slot after \<open>memset\<close>.\<close>

definition zero_device :: device where
  "zero_device = \<lparr>dev_node_id = [], dev_transport = DEVICE_TRANSPORT_BLUETOOTH, dev_fd = 0,
     dev_online = False, dev_thread_id = 0, dev_last_seen = 0,
     dev_command_queue = replicate DEVICE_COMMAND_QUEUE_CAPACITY zero_frame_command,
     dev_command_head = 0, dev_command_tail = 0, dev_command_count = 0\<rparr>"

section \<open>Operations\<close>

definition device_manager_init :: "int \<Rightarrow> dm_result \<times> device_manager" where
  "device_manager_init mutex_init =
     (if mutex_init \<noteq> 0 then DEVICE_MANAGER_ERROR else DEVICE_MANAGER_OK, \<lparr>devices = []\<rparr>)"

definition device_manager_find_index_locked :: "device_manager \<Rightarrow> string \<Rightarrow> nat option" where
  "device_manager_find_index_locked manager node_id = find_index (\<lambda>d. dev_node_id d = node_id) (devices manager)"

definition no_node_id :: "string option \<Rightarrow> bool" where
  "no_node_id node_id = (node_id = None \<or> node_id = Some [])"

definition set_device :: "nat \<Rightarrow> device \<Rightarrow> device_manager \<Rightarrow> device_manager" where
  "set_device i d manager = manager\<lparr>devices := (devices manager)[i := d]\<rparr>"

definition device_manager_find :: "device_manager \<Rightarrow> string option \<Rightarrow> device option
    \<Rightarrow> dm_result \<times> device option" where
  "device_manager_find manager node_id out_device =
     (if no_node_id node_id \<or> out_device = None then (DEVICE_MANAGER_ERROR, out_device)
      else (case device_manager_find_index_locked manager (the node_id) of
              None \<Rightarrow> (DEVICE_MANAGER_NOT_FOUND, out_device)
            | Some index \<Rightarrow> (DEVICE_MANAGER_OK, Some (devices manager ! index))))"

definition device_manager_register :: "device_manager \<Rightarrow> string option \<Rightarrow> device_transport \<Rightarrow> int
    \<Rightarrow> nat \<Rightarrow> int \<Rightarrow> dm_result \<times> device_manager" where
  "device_manager_register manager node_id transport fd thread_id now =
     (if no_node_id node_id then (DEVICE_MANAGER_ERROR, manager)
      else if DEVICE_NODE_ID_SIZE \<le> length (the node_id) then (DEVICE_MANAGER_ERROR, manager)
      else if now = -1 then (DEVICE_MANAGER_ERROR, manager)
      else (case device_manager_find_index_locked manager (the node_id) of
              Some _ \<Rightarrow> (DEVICE_MANAGER_EXISTS, manager)
            | None \<Rightarrow>
                if length (devices manager) = DEVICE_MANAGER_MAX_DEVICES then (DEVICE_MANAGER_FULL, manager)
                else
                  (DEVICE_MANAGER_OK, manager\<lparr>devices := devices manager @
                     [zero_device\<lparr>dev_node_id := the node_id, dev_transport := transport, dev_fd := fd,
                        dev_online := 0 < fd, dev_thread_id := thread_id, dev_last_seen := now\<rparr>]\<rparr>)))"

definition device_manager_unregister :: "device_manager \<Rightarrow> string option \<Rightarrow> dm_result \<times> device_manager" where
  "device_manager_unregister manager node_id =
     (if no_node_id node_id then (DEVICE_MANAGER_ERROR, manager)
      else (case device_manager_find_index_locked manager (the node_id) of
              None \<Rightarrow> (DEVICE_MANAGER_NOT_FOUND, manager)
            | Some index \<Rightarrow>
                (DEVICE_MANAGER_OK,
                 manager\<lparr>devices := take index (devices manager) @ drop (index + 1) (devices manager)\<rparr>)))"

definition device_manager_set_online :: "device_manager \<Rightarrow> string option \<Rightarrow> int \<Rightarrow> int
    \<Rightarrow> dm_result \<times> device_manager" where
  "device_manager_set_online manager node_id online fd =
     (if no_node_id node_id \<or> (online \<noteq> 0 \<and> online \<noteq> 1) then (DEVICE_MANAGER_ERROR, manager)
      else if online \<noteq> 0 \<and> fd < 0 then (DEVICE_MANAGER_ERROR, manager)
      else (case device_manager_find_index_locked manager (the node_id) of
              None \<Rightarrow> (DEVICE_MANAGER_NOT_FOUND, manager)
            | Some index \<Rightarrow>
                (DEVICE_MANAGER_OK,
                 set_device index ((devices manager ! index)
                   \<lparr>dev_online := online \<noteq> 0, dev_fd := (if online \<noteq> 0 then fd else -1)\<rparr>) manager)))"

definition device_manager_update_last_seen :: "device_manager \<Rightarrow> string option \<Rightarrow> int
    \<Rightarrow> dm_result \<times> device_manager" where
  "device_manager_update_last_seen manager node_id now =
     (if no_node_id node_id then (DEVICE_MANAGER_ERROR, manager)
      else if now = -1 then (DEVICE_MANAGER_ERROR, manager)
      else (case device_manager_find_index_locked manager (the node_id) of
              None \<Rightarrow> (DEVICE_MANAGER_NOT_FOUND, manager)
            | Some index \<Rightarrow>
                (DEVICE_MANAGER_OK,
                 set_device index ((devices manager ! index)\<lparr>dev_last_seen := now\<rparr>) manager)))"

text \<open>
  The queue of a device. \<open>dev_pending\<close> is what the copy loop of the two collecting operations reads,
  \<open>command_queue[(command_head + i) % 8]\<close> for \<open>i < command_count\<close>.
\<close>

definition dev_pending :: "device \<Rightarrow> frame_command list" where
  "dev_pending d =
     ring_contents DEVICE_COMMAND_QUEUE_CAPACITY (dev_command_queue d) (dev_command_head d) (dev_command_count d)"

definition clear_queue :: "device \<Rightarrow> device" where
  "clear_queue d = d\<lparr>dev_command_head := 0, dev_command_tail := 0, dev_command_count := 0\<rparr>"

definition dev_put :: "frame_command \<Rightarrow> device \<Rightarrow> device" where
  "dev_put command d =
     d\<lparr>dev_command_queue := (dev_command_queue d)[dev_command_tail d := command],
       dev_command_tail := (dev_command_tail d + 1) mod DEVICE_COMMAND_QUEUE_CAPACITY,
       dev_command_count := dev_command_count d + 1\<rparr>"

definition dev_take :: "device \<Rightarrow> frame_command \<times> device" where
  "dev_take d =
     (dev_command_queue d ! dev_command_head d,
      d\<lparr>dev_command_head := (dev_command_head d + 1) mod DEVICE_COMMAND_QUEUE_CAPACITY,
        dev_command_count := dev_command_count d - 1\<rparr>)"

text \<open>The copy into the caller's array, which keeps its entries beyond the copied ones.\<close>

definition copy_out :: "frame_command list \<Rightarrow> frame_command list option \<Rightarrow> frame_command list option" where
  "copy_out cmds out = map_option (\<lambda>arr. cmds @ drop (length cmds) arr) out"

text \<open>The result of the collecting operations: code, state, \<open>out_commands\<close>, \<open>out_count\<close>.\<close>

type_synonym dm_collect = "dm_result \<times> device_manager \<times> frame_command list option \<times> nat option"

definition device_manager_disconnect_collect_commands :: "device_manager \<Rightarrow> string option \<Rightarrow> int \<Rightarrow> nat
    \<Rightarrow> frame_command list option \<Rightarrow> nat \<Rightarrow> nat option \<Rightarrow> dm_collect" where
  "device_manager_disconnect_collect_commands manager node_id fd thread_id out_commands command_capacity out_count =
     (if no_node_id node_id \<or> fd < 0 \<or> out_count = None then (DEVICE_MANAGER_ERROR, manager, out_commands, out_count)
      else if out_commands = None \<and> command_capacity \<noteq> 0 then (DEVICE_MANAGER_ERROR, manager, out_commands, out_count)
      else (case device_manager_find_index_locked manager (the node_id) of
              None \<Rightarrow> (DEVICE_MANAGER_NOT_FOUND, manager, out_commands, Some 0)
            | Some index \<Rightarrow>
                let d = devices manager ! index; pending_count = dev_command_count d in
                if dev_fd d \<noteq> fd \<or> dev_thread_id d \<noteq> thread_id
                then (DEVICE_MANAGER_CONFLICT, manager, out_commands, Some 0)
                else if out_commands \<noteq> None \<and> command_capacity < pending_count
                then (DEVICE_MANAGER_BUFFER_TOO_SMALL, manager, out_commands, Some 0)
                else
                  (DEVICE_MANAGER_OK,
                   set_device index (clear_queue (d\<lparr>dev_online := False, dev_fd := -1\<rparr>)) manager,
                   copy_out (dev_pending d) out_commands, Some pending_count)))"

definition device_manager_disconnect :: "device_manager \<Rightarrow> string option \<Rightarrow> int \<Rightarrow> nat
    \<Rightarrow> dm_result \<times> device_manager" where
  "device_manager_disconnect manager node_id fd thread_id =
     (case device_manager_disconnect_collect_commands manager node_id fd thread_id None 0 (Some 0) of
        (r, manager', _, _) \<Rightarrow> (r, manager'))"

definition device_manager_enqueue_command :: "device_manager \<Rightarrow> string option \<Rightarrow> frame_command option
    \<Rightarrow> dm_result \<times> device_manager" where
  "device_manager_enqueue_command manager node_id command =
     (if no_node_id node_id \<or> command = None then (DEVICE_MANAGER_ERROR, manager)
      else if cmd_target_node (the command) = [] \<or> cmd_target_node (the command) \<noteq> the node_id
      then (DEVICE_MANAGER_ERROR, manager)
      else (case device_manager_find_index_locked manager (the node_id) of
              None \<Rightarrow> (DEVICE_MANAGER_NOT_FOUND, manager)
            | Some index \<Rightarrow>
                let d = devices manager ! index in
                if \<not> dev_online d \<or> dev_fd d < 0 then (DEVICE_MANAGER_OFFLINE, manager)
                else if DEVICE_COMMAND_QUEUE_CAPACITY \<le> dev_command_count d
                then (DEVICE_MANAGER_QUEUE_FULL, manager)
                else (DEVICE_MANAGER_OK, set_device index (dev_put (the command) d) manager)))"

definition device_manager_try_dequeue_command :: "device_manager \<Rightarrow> string option \<Rightarrow> int \<Rightarrow> nat
    \<Rightarrow> frame_command option \<Rightarrow> dm_result \<times> device_manager \<times> frame_command option" where
  "device_manager_try_dequeue_command manager node_id fd thread_id out_command =
     (if no_node_id node_id \<or> fd < 0 \<or> out_command = None then (DEVICE_MANAGER_ERROR, manager, out_command)
      else (case device_manager_find_index_locked manager (the node_id) of
              None \<Rightarrow> (DEVICE_MANAGER_NOT_FOUND, manager, out_command)
            | Some index \<Rightarrow>
                let d = devices manager ! index in
                if \<not> dev_online d \<or> dev_fd d < 0 \<or> dev_thread_id d \<noteq> thread_id
                then (DEVICE_MANAGER_CONFLICT, manager, out_command)
                else if dev_command_count d = 0 then (DEVICE_MANAGER_QUEUE_EMPTY, manager, out_command)
                else (case dev_take d of (command, d') \<Rightarrow>
                  (DEVICE_MANAGER_OK, set_device index d' manager, Some command))))"

text \<open>A node that is not in the registry yet.\<close>

definition bind_new_device :: "device_manager \<Rightarrow> string \<Rightarrow> device_transport \<Rightarrow> int \<Rightarrow> nat \<Rightarrow> frame_command list option \<Rightarrow> int
    \<Rightarrow> dm_collect" where
  "bind_new_device manager node_id transport fd thread_id out_commands now =
     (if DEVICE_MANAGER_MAX_DEVICES \<le> length (devices manager)
      then (DEVICE_MANAGER_FULL, manager, out_commands, Some 0)
      else
        (DEVICE_MANAGER_OK, manager\<lparr>devices := devices manager @
           [zero_device\<lparr>dev_node_id := node_id, dev_transport := transport, dev_fd := fd,
              dev_online := True, dev_thread_id := thread_id, dev_last_seen := now\<rparr>]\<rparr>,
         out_commands, Some 0))"

text \<open>A node at \<open>index\<close>: the same connection again, or a new one in place of the old one.\<close>

definition bind_known_device :: "device_manager \<Rightarrow> nat \<Rightarrow> device_transport \<Rightarrow> int \<Rightarrow> nat \<Rightarrow> frame_command list option \<Rightarrow> nat \<Rightarrow> int
    \<Rightarrow> dm_collect" where
  "bind_known_device manager index transport fd thread_id out_commands command_capacity now =
     (let d = devices manager ! index; pending_count = dev_command_count d in
      if dev_transport d \<noteq> transport then (DEVICE_MANAGER_CONFLICT, manager, out_commands, Some 0)
      else if dev_online d \<and> dev_fd d = fd \<and> dev_thread_id d = thread_id
      then (DEVICE_MANAGER_OK, set_device index (d\<lparr>dev_last_seen := now\<rparr>) manager, out_commands, Some 0)
      else if out_commands \<noteq> None \<and> command_capacity < pending_count
      then (DEVICE_MANAGER_BUFFER_TOO_SMALL, manager, out_commands, Some 0)
      else
        (DEVICE_MANAGER_OK,
         set_device index ((clear_queue d)\<lparr>dev_fd := fd, dev_online := True,
           dev_thread_id := thread_id, dev_last_seen := now\<rparr>) manager,
         copy_out (dev_pending d) out_commands, Some pending_count))"

definition device_manager_bind_connection_collect_commands :: "device_manager \<Rightarrow> string option
    \<Rightarrow> device_transport \<Rightarrow> int \<Rightarrow> nat \<Rightarrow> frame_command list option \<Rightarrow> nat \<Rightarrow> nat option \<Rightarrow> int \<Rightarrow> dm_collect" where
  "device_manager_bind_connection_collect_commands manager node_id transport fd thread_id
       out_commands command_capacity out_count now =
     (if no_node_id node_id \<or> fd < 0 \<or> out_count = None then (DEVICE_MANAGER_ERROR, manager, out_commands, out_count)
      else if DEVICE_NODE_ID_SIZE \<le> length (the node_id) then (DEVICE_MANAGER_ERROR, manager, out_commands, out_count)
      else if out_commands = None \<and> command_capacity \<noteq> 0 then (DEVICE_MANAGER_ERROR, manager, out_commands, out_count)
      else (case device_manager_find_index_locked manager (the node_id) of
              None \<Rightarrow> bind_new_device manager (the node_id) transport fd thread_id out_commands now
            | Some index \<Rightarrow> bind_known_device manager index transport fd thread_id out_commands command_capacity now))"

lemmas bind_connection_defs = device_manager_bind_connection_collect_commands_def bind_new_device_def bind_known_device_def

definition device_manager_bind_connection :: "device_manager \<Rightarrow> string option \<Rightarrow> device_transport \<Rightarrow> int
    \<Rightarrow> nat \<Rightarrow> int \<Rightarrow> dm_result \<times> device_manager" where
  "device_manager_bind_connection manager node_id transport fd thread_id now =
     (case device_manager_bind_connection_collect_commands manager node_id transport fd thread_id None 0 (Some 0) now of
        (r, manager', _, _) \<Rightarrow> (r, manager'))"

section \<open>The queue of a device is a bounded FIFO\<close>

definition dev_queue_inv :: "device \<Rightarrow> bool" where
  "dev_queue_inv d =
     (length (dev_command_queue d) = DEVICE_COMMAND_QUEUE_CAPACITY
      \<and> dev_command_head d < DEVICE_COMMAND_QUEUE_CAPACITY
      \<and> dev_command_count d \<le> DEVICE_COMMAND_QUEUE_CAPACITY
      \<and> dev_command_tail d = (dev_command_head d + dev_command_count d) mod DEVICE_COMMAND_QUEUE_CAPACITY)"

lemma dev_put_inv:
  "dev_queue_inv d \<Longrightarrow> dev_command_count d < DEVICE_COMMAND_QUEUE_CAPACITY \<Longrightarrow> dev_queue_inv (dev_put c d)"
  by (auto simp: dev_queue_inv_def dev_put_def mod_simps)

lemma dev_put_pending:
  "dev_queue_inv d \<Longrightarrow> dev_command_count d < DEVICE_COMMAND_QUEUE_CAPACITY
   \<Longrightarrow> dev_pending (dev_put c d) = dev_pending d @ [c]"
  by (simp add: dev_queue_inv_def dev_pending_def dev_put_def ring_enqueue)

lemma dev_take_inv: "dev_queue_inv d \<Longrightarrow> 0 < dev_command_count d \<Longrightarrow> dev_queue_inv (snd (dev_take d))"
  using ring_tail_dequeue [of "dev_command_count d" "dev_command_head d" DEVICE_COMMAND_QUEUE_CAPACITY]
  by (auto simp: dev_queue_inv_def dev_take_def dm_consts)

lemma dev_take_pending:
  "dev_queue_inv d \<Longrightarrow> 0 < dev_command_count d \<Longrightarrow> dev_pending d = fst (dev_take d) # dev_pending (snd (dev_take d))"
  by (simp add: dev_queue_inv_def dev_pending_def dev_take_def ring_dequeue)

interpretation devq: bounded_fifo dev_queue_inv dev_pending dev_command_count DEVICE_COMMAND_QUEUE_CAPACITY
    dev_put dev_take
  by unfold_locales
    (simp_all add: dev_put_inv dev_put_pending dev_take_inv dev_take_pending,
     simp_all add: dev_queue_inv_def dev_pending_def)

lemma dev_frame_simps [simp]:
  "dev_node_id (dev_put c d) = dev_node_id d" "dev_transport (dev_put c d) = dev_transport d"
  "dev_fd (dev_put c d) = dev_fd d" "dev_online (dev_put c d) = dev_online d"
  "dev_thread_id (dev_put c d) = dev_thread_id d" "dev_last_seen (dev_put c d) = dev_last_seen d"
  "dev_node_id (clear_queue d) = dev_node_id d" "dev_transport (clear_queue d) = dev_transport d"
  "dev_fd (clear_queue d) = dev_fd d" "dev_online (clear_queue d) = dev_online d"
  "dev_thread_id (clear_queue d) = dev_thread_id d" "dev_last_seen (clear_queue d) = dev_last_seen d"
  "dev_node_id (snd (dev_take d)) = dev_node_id d" "dev_transport (snd (dev_take d)) = dev_transport d"
  "dev_fd (snd (dev_take d)) = dev_fd d" "dev_online (snd (dev_take d)) = dev_online d"
  "dev_thread_id (snd (dev_take d)) = dev_thread_id d" "dev_last_seen (snd (dev_take d)) = dev_last_seen d"
  by (simp_all add: dev_put_def clear_queue_def dev_take_def)

lemma dev_pending_other [simp]:
  "dev_pending (clear_queue d) = []"
  "dev_pending (d\<lparr>dev_online := b\<rparr>) = dev_pending d" "dev_pending (d\<lparr>dev_fd := f\<rparr>) = dev_pending d"
  "dev_pending (d\<lparr>dev_thread_id := t\<rparr>) = dev_pending d" "dev_pending (d\<lparr>dev_last_seen := n\<rparr>) = dev_pending d"
  "dev_pending (d\<lparr>dev_node_id := i\<rparr>) = dev_pending d" "dev_pending (d\<lparr>dev_transport := tr\<rparr>) = dev_pending d"
  "dev_pending zero_device = []"
  by (simp_all add: dev_pending_def clear_queue_def zero_device_def)

lemma dev_queue_inv_other [simp]:
  "dev_queue_inv d \<Longrightarrow> dev_queue_inv (clear_queue d)"
  "dev_queue_inv (d\<lparr>dev_online := b\<rparr>) = dev_queue_inv d" "dev_queue_inv (d\<lparr>dev_fd := f\<rparr>) = dev_queue_inv d"
  "dev_queue_inv (d\<lparr>dev_thread_id := t\<rparr>) = dev_queue_inv d" "dev_queue_inv (d\<lparr>dev_last_seen := n\<rparr>) = dev_queue_inv d"
  "dev_queue_inv (d\<lparr>dev_node_id := i\<rparr>) = dev_queue_inv d" "dev_queue_inv (d\<lparr>dev_transport := tr\<rparr>) = dev_queue_inv d"
  "dev_queue_inv zero_device"
  by (simp_all add: dev_queue_inv_def clear_queue_def zero_device_def dm_consts)

section \<open>The invariant\<close>

definition dev_ok :: "device \<Rightarrow> bool" where
  "dev_ok d =
     (dev_node_id d \<noteq> [] \<and> length (dev_node_id d) < DEVICE_NODE_ID_SIZE \<and> dev_queue_inv d
      \<and> (dev_online d \<longrightarrow> 0 \<le> dev_fd d)
      \<and> list_all (\<lambda>c. cmd_target_node c = dev_node_id d) (dev_pending d))"

definition dm_inv :: "device_manager \<Rightarrow> bool" where
  "dm_inv m =
     (length (devices m) \<le> DEVICE_MANAGER_MAX_DEVICES \<and> distinct (map dev_node_id (devices m))
      \<and> list_all dev_ok (devices m))"

section \<open>The specification\<close>

text \<open>
  What the registry promises: a map from node ids to the connection of the node and the list of
  commands waiting for it, oldest first. \<open>dm_op\<close> is a call with its arguments (for the collecting
  operations \<open>Some capacity\<close> stands for an array of that capacity, \<open>None\<close> for the variants without
  one); \<open>dm_exec\<close> makes the call on the registry and gives the result, the new registry and the
  commands handed to the caller; \<open>dm_spec\<close> is what it should do to the map.
\<close>

record node_view =
  nv_transport :: device_transport
  nv_fd :: int
  nv_online :: bool
  nv_thread_id :: nat
  nv_last_seen :: int
  nv_pending :: "frame_command list"

definition view :: "device \<Rightarrow> node_view" where
  "view d = \<lparr>nv_transport = dev_transport d, nv_fd = dev_fd d, nv_online = dev_online d,
     nv_thread_id = dev_thread_id d, nv_last_seen = dev_last_seen d, nv_pending = dev_pending d\<rparr>"

definition dm_abs :: "device_manager \<Rightarrow> string \<Rightarrow> node_view option" where
  "dm_abs m = table_map dev_node_id view (devices m)"

datatype dm_op =
    Register "string option" device_transport int nat int
  | Unregister "string option"
  | Set_Online "string option" int int
  | Update_Last_Seen "string option" int
  | Bind "string option" device_transport int nat "nat option" int
  | Disconnect "string option" int nat "nat option"
  | Enqueue "string option" "frame_command option"
  | Try_Dequeue "string option" int nat

definition collected :: "dm_collect \<Rightarrow> dm_result \<times> device_manager \<times> frame_command list" where
  "collected c = (case c of (r, m, cmds, n) \<Rightarrow> (r, m, take (the n) (the cmds)))"

fun dm_exec :: "dm_op \<Rightarrow> device_manager \<Rightarrow> dm_result \<times> device_manager \<times> frame_command list" where
  "dm_exec (Register i tr fd th now) m = (case device_manager_register m i tr fd th now of (r, m') \<Rightarrow> (r, m', []))"
| "dm_exec (Unregister i) m = (case device_manager_unregister m i of (r, m') \<Rightarrow> (r, m', []))"
| "dm_exec (Set_Online i online fd) m = (case device_manager_set_online m i online fd of (r, m') \<Rightarrow> (r, m', []))"
| "dm_exec (Update_Last_Seen i now) m = (case device_manager_update_last_seen m i now of (r, m') \<Rightarrow> (r, m', []))"
| "dm_exec (Bind i tr fd th None now) m =
     (case device_manager_bind_connection m i tr fd th now of (r, m') \<Rightarrow> (r, m', []))"
| "dm_exec (Bind i tr fd th (Some cap) now) m =
     collected (device_manager_bind_connection_collect_commands m i tr fd th
       (Some (replicate cap zero_frame_command)) cap (Some 0) now)"
| "dm_exec (Disconnect i fd th None) m = (case device_manager_disconnect m i fd th of (r, m') \<Rightarrow> (r, m', []))"
| "dm_exec (Disconnect i fd th (Some cap)) m =
     collected (device_manager_disconnect_collect_commands m i fd th
       (Some (replicate cap zero_frame_command)) cap (Some 0))"
| "dm_exec (Enqueue i c) m = (case device_manager_enqueue_command m i c of (r, m') \<Rightarrow> (r, m', []))"
| "dm_exec (Try_Dequeue i fd th) m =
     (case device_manager_try_dequeue_command m i fd th (Some zero_frame_command) of
        (r, m', c) \<Rightarrow> (r, m', if r = DEVICE_MANAGER_OK then [the c] else []))"

type_synonym dm_map = "string \<Rightarrow> node_view option"

definition fresh_view :: "device_transport \<Rightarrow> int \<Rightarrow> bool \<Rightarrow> nat \<Rightarrow> int \<Rightarrow> node_view" where
  "fresh_view tr fd online th now = \<lparr>nv_transport = tr, nv_fd = fd, nv_online = online, nv_thread_id = th,
     nv_last_seen = now, nv_pending = []\<rparr>"

fun dm_spec :: "dm_op \<Rightarrow> dm_map \<Rightarrow> dm_result \<times> dm_map \<times> frame_command list" where
  "dm_spec (Register i tr fd th now) A =
     (if no_node_id i \<or> 32 \<le> length (the i) \<or> now = -1 then (DEVICE_MANAGER_ERROR, A, [])
      else if the i \<in> dom A then (DEVICE_MANAGER_EXISTS, A, [])
      else if card (dom A) = 16 then (DEVICE_MANAGER_FULL, A, [])
      else (DEVICE_MANAGER_OK, A(the i \<mapsto> fresh_view tr fd (0 < fd) th now), []))"
| "dm_spec (Unregister i) A =
     (if no_node_id i then (DEVICE_MANAGER_ERROR, A, [])
      else if the i \<notin> dom A then (DEVICE_MANAGER_NOT_FOUND, A, [])
      else (DEVICE_MANAGER_OK, A(the i := None), []))"
| "dm_spec (Set_Online i online fd) A =
     (if no_node_id i \<or> online \<notin> {0, 1} \<or> (online = 1 \<and> fd < 0) then (DEVICE_MANAGER_ERROR, A, [])
      else (case A (the i) of
              None \<Rightarrow> (DEVICE_MANAGER_NOT_FOUND, A, [])
            | Some v \<Rightarrow> (DEVICE_MANAGER_OK,
                A(the i \<mapsto> v\<lparr>nv_online := online = 1, nv_fd := (if online = 1 then fd else -1)\<rparr>), [])))"
| "dm_spec (Update_Last_Seen i now) A =
     (if no_node_id i \<or> now = -1 then (DEVICE_MANAGER_ERROR, A, [])
      else (case A (the i) of
              None \<Rightarrow> (DEVICE_MANAGER_NOT_FOUND, A, [])
            | Some v \<Rightarrow> (DEVICE_MANAGER_OK, A(the i \<mapsto> v\<lparr>nv_last_seen := now\<rparr>), [])))"
| "dm_spec (Bind i tr fd th out now) A =
     (if no_node_id i \<or> fd < 0 \<or> 32 \<le> length (the i) then (DEVICE_MANAGER_ERROR, A, [])
      else (case A (the i) of
              None \<Rightarrow>
                if 16 \<le> card (dom A) then (DEVICE_MANAGER_FULL, A, [])
                else (DEVICE_MANAGER_OK, A(the i \<mapsto> fresh_view tr fd True th now), [])
            | Some v \<Rightarrow>
                if nv_transport v \<noteq> tr then (DEVICE_MANAGER_CONFLICT, A, [])
                else if nv_online v \<and> nv_fd v = fd \<and> nv_thread_id v = th
                then (DEVICE_MANAGER_OK, A(the i \<mapsto> v\<lparr>nv_last_seen := now\<rparr>), [])
                else if out \<noteq> None \<and> the out < length (nv_pending v)
                then (DEVICE_MANAGER_BUFFER_TOO_SMALL, A, [])
                else (DEVICE_MANAGER_OK, A(the i \<mapsto> fresh_view tr fd True th now),
                      if out = None then [] else nv_pending v)))"
| "dm_spec (Disconnect i fd th out) A =
     (if no_node_id i \<or> fd < 0 then (DEVICE_MANAGER_ERROR, A, [])
      else (case A (the i) of
              None \<Rightarrow> (DEVICE_MANAGER_NOT_FOUND, A, [])
            | Some v \<Rightarrow>
                if nv_fd v \<noteq> fd \<or> nv_thread_id v \<noteq> th then (DEVICE_MANAGER_CONFLICT, A, [])
                else if out \<noteq> None \<and> the out < length (nv_pending v)
                then (DEVICE_MANAGER_BUFFER_TOO_SMALL, A, [])
                else (DEVICE_MANAGER_OK, A(the i \<mapsto> v\<lparr>nv_online := False, nv_fd := -1, nv_pending := []\<rparr>),
                      if out = None then [] else nv_pending v)))"
| "dm_spec (Enqueue i c) A =
     (if no_node_id i \<or> c = None \<or> cmd_target_node (the c) \<noteq> the i then (DEVICE_MANAGER_ERROR, A, [])
      else (case A (the i) of
              None \<Rightarrow> (DEVICE_MANAGER_NOT_FOUND, A, [])
            | Some v \<Rightarrow>
                if \<not> nv_online v then (DEVICE_MANAGER_OFFLINE, A, [])
                else if length (nv_pending v) = 8 then (DEVICE_MANAGER_QUEUE_FULL, A, [])
                else (DEVICE_MANAGER_OK, A(the i \<mapsto> v\<lparr>nv_pending := nv_pending v @ [the c]\<rparr>), [])))"
| "dm_spec (Try_Dequeue i fd th) A =
     (if no_node_id i \<or> fd < 0 then (DEVICE_MANAGER_ERROR, A, [])
      else (case A (the i) of
              None \<Rightarrow> (DEVICE_MANAGER_NOT_FOUND, A, [])
            | Some v \<Rightarrow>
                if \<not> nv_online v \<or> nv_thread_id v \<noteq> th then (DEVICE_MANAGER_CONFLICT, A, [])
                else (case nv_pending v of
                        [] \<Rightarrow> (DEVICE_MANAGER_QUEUE_EMPTY, A, [])
                      | c # cs \<Rightarrow> (DEVICE_MANAGER_OK, A(the i \<mapsto> v\<lparr>nv_pending := cs\<rparr>), [c]))))"

section \<open>The registry implements the specification\<close>

lemma dm_find_None: "device_manager_find_index_locked m i = None \<longleftrightarrow> dm_abs m i = None"
  by (simp add: device_manager_find_index_locked_def dm_abs_def table_map_None)

lemma dm_find_Some:
  assumes "device_manager_find_index_locked m i = Some k" "dm_inv m"
  shows "dm_abs m i = Some (view (devices m ! k))" "dev_node_id (devices m ! k) = i"
    "dev_ok (devices m ! k)" "k < length (devices m)"
  using assms table_map_Some [of dev_node_id i "devices m" k view]
    find_index_SomeD [of "\<lambda>d. dev_node_id d = i" "devices m" k]
  by (auto simp: device_manager_find_index_locked_def dm_abs_def dm_inv_def list_all_length)

lemma dm_card: "dm_inv m \<Longrightarrow> card (dom (dm_abs m)) = length (devices m)"
  by (simp add: dm_abs_def card_table_map dm_inv_def)

lemma dm_set_device:
  assumes "dm_inv m" "device_manager_find_index_locked m i = Some k" "dev_node_id d = i" "dev_ok d"
  shows "dm_inv (set_device k d m)" "dm_abs (set_device k d m) = (dm_abs m)(i \<mapsto> view d)"
proof -
  have f: "find_index (\<lambda>d. dev_node_id d = i) (devices m) = Some k"
    using assms(2) by (simp add: device_manager_find_index_locked_def)
  have dist: "distinct (map dev_node_id (devices m))" using assms(1) by (simp add: dm_inv_def)
  have "set ((devices m)[k := d]) \<subseteq> insert d (set (devices m))" by (rule set_update_subset_insert)
  then show "dm_inv (set_device k d m)"
    using assms distinct_keys_update [OF dist f assms(3)] by (auto simp: dm_inv_def set_device_def list_all_iff)
  show "dm_abs (set_device k d m) = (dm_abs m)(i \<mapsto> view d)"
    using table_map_update [OF dist f assms(3), of view] by (simp add: dm_abs_def set_device_def)
qed

lemma dm_add_device:
  assumes "dm_inv m" "dm_abs m i = None" "length (devices m) < DEVICE_MANAGER_MAX_DEVICES"
    "dev_node_id d = i" "dev_ok d"
  shows "dm_inv (m\<lparr>devices := devices m @ [d]\<rparr>)" "dm_abs (m\<lparr>devices := devices m @ [d]\<rparr>) = (dm_abs m)(i \<mapsto> view d)"
proof -
  have "dev_node_id d \<notin> dev_node_id ` set (devices m)"
    using assms(2,4) dom_table_map [of dev_node_id view "devices m"] by (auto simp: dm_abs_def)
  with assms table_map_append [of dev_node_id d "devices m" view]
  show "dm_inv (m\<lparr>devices := devices m @ [d]\<rparr>)" "dm_abs (m\<lparr>devices := devices m @ [d]\<rparr>) = (dm_abs m)(i \<mapsto> view d)"
    by (auto simp: dm_inv_def dm_abs_def)
qed

lemma dm_remove_device:
  assumes "dm_inv m" "device_manager_find_index_locked m i = Some k"
  shows "dm_inv (m\<lparr>devices := take k (devices m) @ drop (k + 1) (devices m)\<rparr>)"
    "dm_abs (m\<lparr>devices := take k (devices m) @ drop (k + 1) (devices m)\<rparr>) = (dm_abs m)(i := None)"
proof -
  have f: "find_index (\<lambda>d. dev_node_id d = i) (devices m) = Some k"
    using assms(2) by (simp add: device_manager_find_index_locked_def)
  have dist: "distinct (map dev_node_id (devices m))" using assms(1) by (simp add: dm_inv_def)
  show "dm_abs (m\<lparr>devices := take k (devices m) @ drop (k + 1) (devices m)\<rparr>) = (dm_abs m)(i := None)"
    using table_map_remove [OF dist f, of view] by (simp add: dm_abs_def)
  have "set (take k (devices m) @ drop (k + 1) (devices m)) \<subseteq> set (devices m)"
    using set_take_subset set_drop_subset by fastforce
  then show "dm_inv (m\<lparr>devices := take k (devices m) @ drop (k + 1) (devices m)\<rparr>)"
    using assms(1) distinct_keys_remove [OF dist, of k] by (auto simp: dm_inv_def list_all_iff)
qed

definition refines :: "dm_op \<Rightarrow> device_manager \<Rightarrow> bool" where
  "refines op m = (case dm_exec op m of (r, m', out) \<Rightarrow> dm_inv m' \<and> dm_spec op (dm_abs m) = (r, dm_abs m', out))"

lemma view_simps [simp]:
  "nv_transport (view d) = dev_transport d" "nv_fd (view d) = dev_fd d" "nv_online (view d) = dev_online d"
  "nv_thread_id (view d) = dev_thread_id d" "nv_last_seen (view d) = dev_last_seen d"
  "nv_pending (view d) = dev_pending d"
  by (simp_all add: view_def)

lemma dom_dm_abs: "i \<in> dom (dm_abs m) \<longleftrightarrow> device_manager_find_index_locked m i \<noteq> None"
  using dm_find_None [of m i] by auto

lemma dev_ok_pending:
  assumes "dev_ok d" shows "length (dev_pending d) = dev_command_count d" "dev_command_count d \<le> 8"
  using assms devq.size_contents [of d] devq.size_bound [of d] by (auto simp: dev_ok_def dm_consts)

lemma dev_ok_fresh:
  "i \<noteq> [] \<Longrightarrow> length i < 32 \<Longrightarrow> (online \<longrightarrow> 0 \<le> fd) \<Longrightarrow>
   dev_ok (zero_device\<lparr>dev_node_id := i, dev_transport := tr, dev_fd := fd, dev_online := online,
     dev_thread_id := th, dev_last_seen := now\<rparr>)"
  by (simp add: dev_ok_def dm_consts)

lemma refines_register: "dm_inv m \<Longrightarrow> refines (Register i tr fd th now) m"
proof (cases "no_node_id i \<or> 32 \<le> length (the i) \<or> now = -1")
  case True
  assume "dm_inv m"
  with True show ?thesis by (auto simp: refines_def device_manager_register_def dm_consts)
next
  case ok: False
  assume inv: "dm_inv m"
  show ?thesis
  proof (cases "device_manager_find_index_locked m (the i)")
    case (Some k)
    with ok inv show ?thesis by (auto simp: refines_def device_manager_register_def dm_consts dom_dm_abs)
  next
    case None
    let ?d = "zero_device\<lparr>dev_node_id := the i, dev_transport := tr, dev_fd := fd, dev_online := 0 < fd,
      dev_thread_id := th, dev_last_seen := now\<rparr>"
    have d: "dev_ok ?d" using ok by (intro dev_ok_fresh) (auto simp: no_node_id_def)
    have nid: "dev_node_id ?d = the i" by simp
    have le: "length (devices m) \<le> 16" using inv by (simp add: dm_inv_def dm_consts)
    have v: "view ?d = fresh_view tr fd (0 < fd) th now" by (simp add: view_def fresh_view_def)
    from None ok inv le dm_add_device [OF inv iffD1 [OF dm_find_None None] _ nid d] v show ?thesis
      by (auto simp: refines_def device_manager_register_def dm_consts dom_dm_abs dm_card)
  qed
qed

lemma refines_unregister: "dm_inv m \<Longrightarrow> refines (Unregister i) m"
  using dm_remove_device [of m "the i"]
  by (auto simp: refines_def device_manager_unregister_def dom_dm_abs split: option.split)

text \<open>The case analysis of every operation on an existing device.\<close>

lemma dm_lookup [consumes 1, case_names None Some]:
  assumes "dm_inv m"
  obtains (None) "device_manager_find_index_locked m i = None" "dm_abs m i = None"
  | (Some) k where "device_manager_find_index_locked m i = Some k" "dm_abs m i = Some (view (devices m ! k))"
      "dev_ok (devices m ! k)" "dev_node_id (devices m ! k) = i"
      "\<forall>d. dev_node_id d = i \<longrightarrow> dev_ok d \<longrightarrow>
         dm_inv (set_device k d m) \<and> dm_abs (set_device k d m) = (dm_abs m)(i \<mapsto> view d)"
proof (cases "device_manager_find_index_locked m i")
  case None
  moreover from None have "dm_abs m i = None" by (simp only: dm_find_None)
  ultimately show ?thesis by (rule that(1))
next
  case (Some k)
  show ?thesis
    using that(2) [OF Some] dm_find_Some [OF Some assms] dm_set_device [OF assms Some] by blast
qed

lemma refines_set_online: assumes "dm_inv m" shows "refines (Set_Online i online fd) m"
using assms
proof (cases rule: dm_lookup [where i = "the i"])
  case None
  with assms show ?thesis by (auto simp: refines_def device_manager_set_online_def)
next
  case (Some k)
  let ?d = "(devices m ! k)\<lparr>dev_online := online \<noteq> 0, dev_fd := (if online \<noteq> 0 then fd else -1)\<rparr>"
  show ?thesis
  proof (cases "no_node_id i \<or> online \<notin> {0, 1} \<or> (online = 1 \<and> fd < 0)")
    case True
    with assms show ?thesis by (auto simp: refines_def device_manager_set_online_def)
  next
    case False
    then have "dev_ok ?d" "dev_node_id ?d = the i" using Some by (auto simp: dev_ok_def)
    with Some(5) have "dm_inv (set_device k ?d m)" "dm_abs (set_device k ?d m) = (dm_abs m)(the i \<mapsto> view ?d)"
      by blast+
    moreover have "view ?d = (view (devices m ! k))\<lparr>nv_online := online = 1, nv_fd := (if online = 1 then fd else -1)\<rparr>"
      using False by (auto simp: view_def)
    ultimately show ?thesis using False Some by (auto simp: refines_def device_manager_set_online_def)
  qed
qed

lemma refines_update_last_seen: assumes "dm_inv m" shows "refines (Update_Last_Seen i now) m"
using assms
proof (cases rule: dm_lookup [where i = "the i"])
  case None
  with assms show ?thesis by (auto simp: refines_def device_manager_update_last_seen_def)
next
  case (Some k)
  let ?d = "(devices m ! k)\<lparr>dev_last_seen := now\<rparr>"
  have "dev_ok ?d" "dev_node_id ?d = the i" using Some by (auto simp: dev_ok_def)
  with Some(5) have "dm_inv (set_device k ?d m)" "dm_abs (set_device k ?d m) = (dm_abs m)(the i \<mapsto> view ?d)"
    by blast+
  moreover have "view ?d = (view (devices m ! k))\<lparr>nv_last_seen := now\<rparr>" by (auto simp: view_def)
  ultimately show ?thesis using Some assms by (auto simp: refines_def device_manager_update_last_seen_def)
qed

lemma refines_enqueue: assumes "dm_inv m" shows "refines (Enqueue i c) m"
using assms
proof (cases rule: dm_lookup [where i = "the i"])
  case None
  with assms show ?thesis by (auto simp: refines_def device_manager_enqueue_command_def no_node_id_def)
next
  case (Some k)
  let ?d = "devices m ! k"
  show ?thesis
  proof (cases "no_node_id i \<or> c = None \<or> cmd_target_node (the c) \<noteq> the i \<or> \<not> dev_online ?d \<or> dev_command_count ?d = 8")
    case True
    with Some assms dev_ok_pending [OF Some(3)] show ?thesis
      by (auto simp: refines_def device_manager_enqueue_command_def no_node_id_def Let_def dm_consts dev_ok_def)
  next
    case False
    with dev_ok_pending [OF Some(3)] have less: "dev_command_count ?d < DEVICE_COMMAND_QUEUE_CAPACITY"
      by (auto simp: dm_consts)
    have q: "dev_queue_inv ?d" using Some by (simp add: dev_ok_def)
    have "dev_ok (dev_put (the c) ?d)" "dev_node_id (dev_put (the c) ?d) = the i"
      using False Some devq.enq_inv [OF q less] devq.enq_contents [OF q less]
      by (auto simp: dev_ok_def)
    with Some(5) have "dm_inv (set_device k (dev_put (the c) ?d) m)"
      "dm_abs (set_device k (dev_put (the c) ?d) m) = (dm_abs m)(the i \<mapsto> view (dev_put (the c) ?d))"
      by blast+
    moreover have "view (dev_put (the c) ?d) = (view ?d)\<lparr>nv_pending := dev_pending ?d @ [the c]\<rparr>"
      by (simp add: view_def devq.enq_contents [OF q less])
    ultimately show ?thesis
      using False Some less dev_ok_pending [OF Some(3)]
      by (auto simp: refines_def device_manager_enqueue_command_def no_node_id_def Let_def dm_consts dev_ok_def)
  qed
qed

lemma refines_try_dequeue: assumes "dm_inv m" shows "refines (Try_Dequeue i fd th) m"
using assms
proof (cases rule: dm_lookup [where i = "the i"])
  case None
  with assms show ?thesis by (auto simp: refines_def device_manager_try_dequeue_command_def)
next
  case (Some k)
  let ?d = "devices m ! k"
  have q: "dev_queue_inv ?d" using Some by (simp add: dev_ok_def)
  have len: "dev_command_count ?d = length (dev_pending ?d)" using dev_ok_pending [OF Some(3)] by simp
  show ?thesis
  proof (cases "no_node_id i \<or> fd < 0 \<or> \<not> dev_online ?d \<or> dev_thread_id ?d \<noteq> th \<or> dev_pending ?d = []")
    case True
    with Some assms len show ?thesis
      by (auto simp: refines_def device_manager_try_dequeue_command_def Let_def dev_ok_def split: list.split)
  next
    case False
    then have pos: "0 < dev_command_count ?d" using len by simp
    obtain c d' where t: "dev_take ?d = (c, d')" by (cases "dev_take ?d")
    have pend: "dev_pending ?d = c # dev_pending d'" and d': "d' = snd (dev_take ?d)"
      using devq.deq_contents [OF q pos] t by auto
    have "dev_ok d'" "dev_node_id d' = the i"
      using Some devq.deq_inv [OF q pos] pend by (auto simp: dev_ok_def d')
    with Some(5) have "dm_inv (set_device k d' m)" "dm_abs (set_device k d' m) = (dm_abs m)(the i \<mapsto> view d')"
      by blast+
    moreover have "view d' = (view ?d)\<lparr>nv_pending := dev_pending d'\<rparr>" by (simp add: view_def d')
    ultimately show ?thesis
      using False Some t pend len
      by (auto simp: refines_def device_manager_try_dequeue_command_def Let_def dev_ok_def)
  qed
qed

text \<open>The two operations with collection: the variants without an array are calls of the others.\<close>

lemma bind_as_collect:
  "dm_exec (Bind i tr fd th out now) m =
     (case device_manager_bind_connection_collect_commands m i tr fd th
        (map_option (\<lambda>cap. replicate cap zero_frame_command) out) (case out of None \<Rightarrow> 0 | Some cap \<Rightarrow> cap) (Some 0) now
      of (r, m', cmds, n) \<Rightarrow> (r, m', case cmds of None \<Rightarrow> [] | Some arr \<Rightarrow> take (the n) arr))"
proof (cases out)
  case None
  have "fst (snd (snd (device_manager_bind_connection_collect_commands m i tr fd th None 0 (Some 0) now))) = None"
    by (simp add: bind_connection_defs Let_def copy_out_def split: option.split)
  with None show ?thesis
    by (cases "device_manager_bind_connection_collect_commands m i tr fd th None 0 (Some 0) now")
      (simp add: device_manager_bind_connection_def)
next
  case (Some cap)
  have "fst (snd (snd (device_manager_bind_connection_collect_commands m i tr fd th
      (Some (replicate cap zero_frame_command)) cap (Some 0) now))) \<noteq> None"
    by (simp add: bind_connection_defs Let_def copy_out_def split: option.split)
  with Some show ?thesis
    by (cases "device_manager_bind_connection_collect_commands m i tr fd th
        (Some (replicate cap zero_frame_command)) cap (Some 0) now") (auto simp: collected_def)
qed

lemma disconnect_as_collect:
  "dm_exec (Disconnect i fd th out) m =
     (case device_manager_disconnect_collect_commands m i fd th
        (map_option (\<lambda>cap. replicate cap zero_frame_command) out) (case out of None \<Rightarrow> 0 | Some cap \<Rightarrow> cap) (Some 0)
      of (r, m', cmds, n) \<Rightarrow> (r, m', case cmds of None \<Rightarrow> [] | Some arr \<Rightarrow> take (the n) arr))"
proof (cases out)
  case None
  have "fst (snd (snd (device_manager_disconnect_collect_commands m i fd th None 0 (Some 0)))) = None"
    by (simp add: device_manager_disconnect_collect_commands_def Let_def copy_out_def split: option.split)
  with None show ?thesis
    by (cases "device_manager_disconnect_collect_commands m i fd th None 0 (Some 0)")
      (simp add: device_manager_disconnect_def)
next
  case (Some cap)
  have "fst (snd (snd (device_manager_disconnect_collect_commands m i fd th
      (Some (replicate cap zero_frame_command)) cap (Some 0)))) \<noteq> None"
    by (simp add: device_manager_disconnect_collect_commands_def Let_def copy_out_def split: option.split)
  with Some show ?thesis
    by (cases "device_manager_disconnect_collect_commands m i fd th
        (Some (replicate cap zero_frame_command)) cap (Some 0)") (auto simp: collected_def)
qed

lemma refines_disconnect: assumes "dm_inv m" shows "refines (Disconnect i fd th out) m"
  using assms
proof (cases rule: dm_lookup [where i = "the i"])
  case None
  with assms show ?thesis
    by (auto simp: refines_def disconnect_as_collect device_manager_disconnect_collect_commands_def
        split: option.split)
next
  case (Some k)
  let ?d = "devices m ! k"
  let ?d' = "clear_queue (?d\<lparr>dev_online := False, dev_fd := -1\<rparr>)"
  have len: "dev_command_count ?d = length (dev_pending ?d)" using dev_ok_pending [OF Some(3)] by simp
  show ?thesis
  proof (cases "no_node_id i \<or> fd < 0 \<or> dev_fd ?d \<noteq> fd \<or> dev_thread_id ?d \<noteq> th
      \<or> (out \<noteq> None \<and> the out < length (dev_pending ?d))")
    case True
    with Some assms len show ?thesis
      by (auto simp: refines_def disconnect_as_collect device_manager_disconnect_collect_commands_def Let_def
          split: option.split)
  next
    case False
    have "dev_ok ?d'" "dev_node_id ?d' = the i" using Some by (auto simp: dev_ok_def)
    with Some(5) have "dm_inv (set_device k ?d' m)" "dm_abs (set_device k ?d' m) = (dm_abs m)(the i \<mapsto> view ?d')"
      by blast+
    moreover have "view ?d' = (view ?d)\<lparr>nv_online := False, nv_fd := -1, nv_pending := []\<rparr>"
      by (simp add: view_def)
    moreover have "\<not> no_node_id i" "\<not> fd < 0" "dev_fd ?d = fd" "dev_thread_id ?d = th"
      "out = Some cap \<Longrightarrow> length (dev_pending ?d) \<le> cap" for cap
      using False by auto
    ultimately show ?thesis
      using Some(1,2) len
      by (cases out) (simp_all add: refines_def disconnect_as_collect
          device_manager_disconnect_collect_commands_def Let_def copy_out_def)
  qed
qed

lemma refines_bind: assumes "dm_inv m" shows "refines (Bind i tr fd th out now) m"
  using assms
proof (cases rule: dm_lookup [where i = "the i"])
  case None
  let ?d = "zero_device\<lparr>dev_node_id := the i, dev_transport := tr, dev_fd := fd, dev_online := True,
    dev_thread_id := th, dev_last_seen := now\<rparr>"
  show ?thesis
  proof (cases "no_node_id i \<or> fd < 0 \<or> 32 \<le> length (the i) \<or> 16 \<le> length (devices m)")
    case True
    with None assms show ?thesis
      by (auto simp: refines_def bind_as_collect bind_connection_defs dm_consts dm_card
          split: option.split)
  next
    case False
    then have d: "dev_ok ?d" by (intro dev_ok_fresh) (auto simp: no_node_id_def)
    have less: "length (devices m) < DEVICE_MANAGER_MAX_DEVICES" using False by (simp add: dm_consts)
    have nid: "dev_node_id ?d = the i" by simp
    have "view ?d = fresh_view tr fd True th now" by (simp add: view_def fresh_view_def)
    with False None assms dm_add_device [OF assms None(2) less nid d] show ?thesis
      by (auto simp: refines_def bind_as_collect bind_connection_defs dm_consts dm_card
          split: option.split)
  qed
next
  case (Some k)
  let ?d = "devices m ! k"
  let ?d1 = "?d\<lparr>dev_last_seen := now\<rparr>"
  let ?d2 = "(clear_queue ?d)\<lparr>dev_fd := fd, dev_online := True, dev_thread_id := th, dev_last_seen := now\<rparr>"
  have len: "dev_command_count ?d = length (dev_pending ?d)" using dev_ok_pending [OF Some(3)] by simp
  consider (refused) "no_node_id i \<or> fd < 0 \<or> 32 \<le> length (the i) \<or> dev_transport ?d \<noteq> tr
      \<or> (\<not> (dev_online ?d \<and> dev_fd ?d = fd \<and> dev_thread_id ?d = th) \<and> out \<noteq> None \<and> the out < length (dev_pending ?d))"
    | (same) "\<not> no_node_id i" "0 \<le> fd" "length (the i) < 32" "dev_transport ?d = tr"
      "dev_online ?d \<and> dev_fd ?d = fd \<and> dev_thread_id ?d = th"
    | (takeover) "\<not> no_node_id i" "0 \<le> fd" "length (the i) < 32" "dev_transport ?d = tr"
      "\<not> (dev_online ?d \<and> dev_fd ?d = fd \<and> dev_thread_id ?d = th)"
      "\<not> (out \<noteq> None \<and> the out < length (dev_pending ?d))"
    by linarith
  then show ?thesis
  proof cases
    case refused
    with Some(1,2) assms len show ?thesis
      by (cases out) (auto simp: refines_def bind_as_collect
          bind_connection_defs Let_def dm_consts split: option.split)
  next
    case same
    have "dev_ok ?d1" "dev_node_id ?d1 = the i" using Some by (auto simp: dev_ok_def)
    with Some(5) have "dm_inv (set_device k ?d1 m)" "dm_abs (set_device k ?d1 m) = (dm_abs m)(the i \<mapsto> view ?d1)"
      by blast+
    moreover have "view ?d1 = (view ?d)\<lparr>nv_last_seen := now\<rparr>" by (simp add: view_def)
    ultimately show ?thesis
      using same Some(1,2)
      by (cases out) (simp_all add: refines_def bind_as_collect
          bind_connection_defs Let_def dm_consts)
  next
    case takeover
    have "dev_ok ?d2" "dev_node_id ?d2 = the i" using Some takeover by (auto simp: dev_ok_def)
    with Some(5) have "dm_inv (set_device k ?d2 m)" "dm_abs (set_device k ?d2 m) = (dm_abs m)(the i \<mapsto> view ?d2)"
      by blast+
    moreover have "view ?d2 = fresh_view tr fd True th now" using takeover by (simp add: view_def fresh_view_def)
    moreover have "device_manager_bind_connection_collect_commands m i tr fd th arr cap (Some 0) now =
        (DEVICE_MANAGER_OK, set_device k ?d2 m, copy_out (dev_pending ?d) arr, Some (length (dev_pending ?d)))"
      if "arr = None \<and> cap = 0 \<or> arr \<noteq> None \<and> length (dev_pending ?d) \<le> cap" for arr cap
      using takeover(1-5) Some(1) that len
      by (cases arr) (auto simp: bind_connection_defs Let_def dm_consts)
    moreover have "dm_spec (Bind i tr fd th out now) (dm_abs m) =
        (DEVICE_MANAGER_OK, (dm_abs m)(the i \<mapsto> fresh_view tr fd True th now),
         if out = None then [] else dev_pending ?d)"
      using takeover Some(2) by auto
    ultimately show ?thesis
      using takeover(6) unfolding refines_def bind_as_collect
      by (cases out) (simp_all add: copy_out_def del: dm_spec.simps)
  qed
qed

lemma dm_refinement: assumes "dm_inv m" shows "refines op m"
  by (cases op) (simp_all add: assms refines_register refines_unregister refines_set_online
      refines_update_last_seen refines_bind refines_disconnect refines_enqueue refines_try_dequeue)

lemma dm_inv_empty: "dm_inv \<lparr>devices = []\<rparr>" "dm_abs \<lparr>devices = []\<rparr> = Map.empty"
  by (auto simp: dm_inv_def dm_abs_def table_map_def)

section \<open>Histories\<close>

text \<open>
  What a sequence of calls accepts for a node, and what leaves its queue. The calls that hand out what
  they remove are those the workers and the application make; the variants without an array, and
  unregistering, drop the pending commands. The mark says whether a command was handed out (true) or
  dropped.
\<close>

fun op_node :: "dm_op \<Rightarrow> string option" where
  "op_node (Register i _ _ _ _) = i"
| "op_node (Unregister i) = i"
| "op_node (Set_Online i _ _) = i"
| "op_node (Update_Last_Seen i _) = i"
| "op_node (Bind i _ _ _ _ _) = i"
| "op_node (Disconnect i _ _ _) = i"
| "op_node (Enqueue i _) = i"
| "op_node (Try_Dequeue i _ _) = i"

fun collecting :: "dm_op \<Rightarrow> bool" where
  "collecting (Unregister _) = False"
| "collecting (Bind _ _ _ _ out _) = (out \<noteq> None)"
| "collecting (Disconnect _ _ _ out) = (out \<noteq> None)"
| "collecting _ = True"

fun accepted_by :: "dm_op \<Rightarrow> dm_result \<Rightarrow> frame_command list" where
  "accepted_by (Enqueue _ c) r = (if r = DEVICE_MANAGER_OK then [the c] else [])"
| "accepted_by _ r = []"

definition for_node :: "string \<Rightarrow> dm_op \<Rightarrow> 'a list \<Rightarrow> 'a list" where
  "for_node n op cs = (if op_node op = Some n then cs else [])"

definition pending_for :: "string \<Rightarrow> dm_map \<Rightarrow> frame_command list" where
  "pending_for n A = (case A n of None \<Rightarrow> [] | Some v \<Rightarrow> nv_pending v)"

fun dropped_by :: "dm_op \<Rightarrow> dm_result \<Rightarrow> frame_command list \<Rightarrow> frame_command list \<Rightarrow> frame_command list" where
  "dropped_by op r before after =
     (if \<not> collecting op \<and> r = DEVICE_MANAGER_OK \<and> after = [] then before else [])"

fun dm_history :: "string \<Rightarrow> dm_op list \<Rightarrow> device_manager
    \<Rightarrow> device_manager \<times> frame_command list \<times> (bool \<times> frame_command) list" where
  "dm_history n [] m = (m, [], [])"
| "dm_history n (op # ops) m =
     (case dm_exec op m of (r, m1, out) \<Rightarrow>
       let dropped = dropped_by op r (pending_for n (dm_abs m)) (pending_for n (dm_abs m1)) in
       (case dm_history n ops m1 of (m', acc, left) \<Rightarrow>
         (m', for_node n op (accepted_by op r) @ acc,
          for_node n op (map (Pair True) out @ map (Pair False) dropped) @ left)))"

lemma pending_for_simps [simp]:
  "pending_for n (A(i \<mapsto> v)) = (if n = i then nv_pending v else pending_for n A)"
  "A n = None \<Longrightarrow> pending_for n A = []" "A n = Some v \<Longrightarrow> pending_for n A = nv_pending v"
  "nv_pending (fresh_view tr fd b th now) = []"
  by (simp_all add: pending_for_def fresh_view_def)

lemma dm_spec_conserves:
  assumes "dm_spec op A = (r, A', out)"
  shows "for_node n op (out @ dropped_by op r (pending_for n A) (pending_for n A')) @ pending_for n A'
    = pending_for n A @ for_node n op (accepted_by op r)"
proof (cases op)
  case (Register i tr fd th now)
  with assms show ?thesis by (auto simp: for_node_def no_node_id_def domIff split: if_splits)
next
  case (Unregister i)
  with assms show ?thesis by (auto simp: for_node_def no_node_id_def domIff pending_for_def split: if_splits)
next
  case (Set_Online i b fd)
  with assms show ?thesis by (auto simp: for_node_def no_node_id_def split: if_splits option.splits)
next
  case (Update_Last_Seen i now)
  with assms show ?thesis by (auto simp: for_node_def no_node_id_def split: if_splits option.splits)
next
  case (Bind i tr fd th out now)
  with assms show ?thesis by (auto simp: for_node_def no_node_id_def split: if_splits option.splits)
next
  case (Disconnect i fd th out)
  with assms show ?thesis by (auto simp: for_node_def no_node_id_def split: if_splits option.splits)
next
  case (Enqueue i c)
  with assms show ?thesis by (auto simp: for_node_def no_node_id_def split: if_splits option.splits)
next
  case (Try_Dequeue i fd th)
  with assms show ?thesis by (auto simp: for_node_def no_node_id_def split: if_splits option.splits list.splits)
qed

lemma dm_step:
  assumes "dm_inv m" "dm_exec op m = (r, m', out)"
  shows "dm_inv m'" "dm_spec op (dm_abs m) = (r, dm_abs m', out)"
  using dm_refinement [OF assms(1), of op] assms(2) by (auto simp: refines_def)

lemma dm_history_conserves:
  "dm_inv m \<Longrightarrow> dm_history n ops m = (m', acc, left) \<Longrightarrow>
   dm_inv m' \<and> map snd left @ pending_for n (dm_abs m') = pending_for n (dm_abs m) @ acc
   \<and> (list_all collecting ops \<longrightarrow> list_all fst left)"
proof (induction ops arbitrary: m acc left)
  case Nil
  then show ?case by simp
next
  case (Cons op ops)
  obtain r m1 out where e: "dm_exec op m = (r, m1, out)" by (cases "dm_exec op m")
  define dropped where "dropped = dropped_by op r (pending_for n (dm_abs m)) (pending_for n (dm_abs m1))"
  obtain acc1 left1 where h: "dm_history n ops m1 = (m', acc1, left1)"
    "acc = for_node n op (accepted_by op r) @ acc1"
    "left = for_node n op (map (Pair True) out @ map (Pair False) dropped) @ left1"
    using Cons.prems(2) e by (auto simp: dropped_def Let_def split: prod.splits)
  have snds: "map snd (for_node n op (map (Pair True) out @ map (Pair False) dropped)) = for_node n op (out @ dropped)"
    by (simp add: for_node_def comp_def)
  have fsts: "collecting op \<Longrightarrow> list_all fst (for_node n op (map (Pair True) out @ map (Pair False) dropped))"
    by (auto simp: dropped_def for_node_def list_all_iff)
  from dm_step [OF Cons.prems(1) e] have "dm_inv m1" "dm_spec op (dm_abs m) = (r, dm_abs m1, out)" by auto
  with Cons.IH [OF _ h(1)] dm_spec_conserves [of op "dm_abs m" r "dm_abs m1" out n] fsts
  show ?case by (simp add: h(2,3) snds flip: dropped_def del: dropped_by.simps)
qed

section \<open>Properties of the registry\<close>

text \<open>C1: Every operation of the device manager keeps the registry well formed (at most 16 devices,
  distinct non-empty ids below 32 bytes, well-formed rings, an online device has a descriptor, and
  only commands for a device in its queue) and does to the map from node ids to connections and
  pending commands exactly what its specification says: same result code, same commands handed out,
  errors included.\<close>
theorem device_manager_implements_spec:
  assumes "dm_inv m"
  shows "case dm_exec op m of (r, m', out) \<Rightarrow> dm_inv m' \<and> dm_spec op (dm_abs m) = (r, dm_abs m', out)"
  using dm_refinement [OF assms, of op] by (simp add: refines_def)

theorem device_manager_implements_spec_witness:
  "fst (dm_exec (Bind (Some ''N1'') DEVICE_TRANSPORT_WIFI 5 7 (Some 8) 100) \<lparr>devices = []\<rparr>) = DEVICE_MANAGER_OK
   \<and> dm_abs (fst (snd (dm_exec (Bind (Some ''N1'') DEVICE_TRANSPORT_WIFI 5 7 (Some 8) 100) \<lparr>devices = []\<rparr>)))
       = [''N1'' \<mapsto> fresh_view DEVICE_TRANSPORT_WIFI 5 True 7 100]"
  using device_manager_implements_spec [OF dm_inv_empty(1), of "Bind (Some ''N1'') DEVICE_TRANSPORT_WIFI 5 7 (Some 8) 100"]
  by (auto simp: no_node_id_def dm_inv_empty(2) simp del: dm_exec.simps split: prod.splits)

text \<open>C15: No command is lost, duplicated, reordered or sent to another node: for every node and every
  sequence of operations, the commands that left its queue followed by those still pending are
  exactly the commands that were pending before followed by the accepted ones, in order. A command
  leaves by being handed out to the caller; only unregistering, and binding or disconnecting without
  an array for the commands, drop the queue, which the workers never do.\<close>
theorem device_commands_conserved:
  assumes "dm_inv m"
  shows "case dm_history n ops m of (m', acc, left) \<Rightarrow>
     map snd left @ pending_for n (dm_abs m') = pending_for n (dm_abs m) @ acc
     \<and> (list_all collecting ops \<longrightarrow> list_all fst left)
     \<and> list_all (\<lambda>c. cmd_target_node c = n) (pending_for n (dm_abs m'))"
proof -
  obtain m' acc left where h: "dm_history n ops m = (m', acc, left)" by (cases "dm_history n ops m")
  from dm_history_conserves [OF assms h]
  have inv: "dm_inv m'" and eq: "map snd left @ pending_for n (dm_abs m') = pending_for n (dm_abs m) @ acc"
    and all: "list_all collecting ops \<longrightarrow> list_all fst left" by auto
  from inv have "list_all (\<lambda>c. cmd_target_node c = n) (pending_for n (dm_abs m'))"
    by (cases rule: dm_lookup [where i = n]) (auto simp: dev_ok_def)
  with eq h all show ?thesis by simp
qed

theorem device_commands_conserved_witness:
  "case dm_history ''N1''
     [Bind (Some ''N1'') DEVICE_TRANSPORT_WIFI 5 7 (Some 8) 100,
      Enqueue (Some ''N1'') (Some (zero_frame_command\<lparr>cmd_target_node := ''N1'', cmd_sequence := 1\<rparr>)),
      Unregister (Some ''N1'')]
     \<lparr>devices = []\<rparr> of
     (m', acc, left) \<Rightarrow> acc = [zero_frame_command\<lparr>cmd_target_node := ''N1'', cmd_sequence := 1\<rparr>]
       \<and> map snd left @ pending_for ''N1'' (dm_abs m') = acc"
proof -
  let ?ops = "[Bind (Some ''N1'') DEVICE_TRANSPORT_WIFI 5 7 (Some 8) 100,
      Enqueue (Some ''N1'') (Some (zero_frame_command\<lparr>cmd_target_node := ''N1'', cmd_sequence := 1\<rparr>)),
      Unregister (Some ''N1'')]"
  have "fst (snd (dm_history ''N1'' ?ops \<lparr>devices = []\<rparr>)) = [zero_frame_command\<lparr>cmd_target_node := ''N1'', cmd_sequence := 1\<rparr>]"
    by (simp add: bind_connection_defs device_manager_enqueue_command_def device_manager_unregister_def
        device_manager_find_index_locked_def no_node_id_def for_node_def collected_def copy_out_def dm_consts
        zero_device_def zero_frame_command_def Let_def del: dropped_by.simps split: prod.split)
  with device_commands_conserved [OF dm_inv_empty(1), of "''N1''" ?ops] show ?thesis
    by (auto simp: dm_inv_empty(2) simp del: dm_history.simps split: prod.splits)
qed

text \<open>A worker that no longer owns a connection cannot disturb the one that replaced it: if the
  registry records another thread for the node, disconnecting it and taking its commands are refused
  with CONFLICT and change nothing.\<close>
theorem stale_worker_is_refused:
  assumes "dm_inv m" and "dm_abs m i = Some v" and "nv_thread_id v \<noteq> th" and "i \<noteq> []" and "0 \<le> fd"
  shows "dm_exec (Disconnect (Some i) fd th (Some cap)) m = (DEVICE_MANAGER_CONFLICT, m, [])
       \<and> dm_exec (Try_Dequeue (Some i) fd th) m = (DEVICE_MANAGER_CONFLICT, m, [])"
  using assms(1)
proof (cases rule: dm_lookup [where i = i])
  case None
  with assms(2) show ?thesis by simp
next
  case (Some k)
  with assms(2-5) show ?thesis
    by (auto simp: device_manager_disconnect_collect_commands_def device_manager_try_dequeue_command_def
        no_node_id_def collected_def Let_def)
qed

theorem stale_worker_is_refused_witness:
  "dm_exec (Try_Dequeue (Some ''N1'') 5 8)
      \<lparr>devices = [zero_device\<lparr>dev_node_id := ''N1'', dev_fd := 5, dev_online := True, dev_thread_id := 7\<rparr>]\<rparr>
    = (DEVICE_MANAGER_CONFLICT,
       \<lparr>devices = [zero_device\<lparr>dev_node_id := ''N1'', dev_fd := 5, dev_online := True, dev_thread_id := 7\<rparr>]\<rparr>, [])"
proof -
  let ?d = "zero_device\<lparr>dev_node_id := ''N1'', dev_fd := 5, dev_online := True, dev_thread_id := 7\<rparr>"
  let ?m = "\<lparr>devices = [?d]\<rparr>"
  have "dm_inv ?m" by (simp add: dm_inv_def dev_ok_def dm_consts)
  moreover have "dm_abs ?m ''N1'' = Some (view ?d)" by (simp add: dm_abs_def table_map_def)
  ultimately show ?thesis
    using stale_worker_is_refused [of ?m "''N1''" "view ?d" 8 5 0] by simp
qed

text \<open>Although it asks for the descriptor of the connection, \<open>device_manager_try_dequeue_command\<close>
  does not compare it with the recorded one: any two non-negative descriptors give the same result,
  so only the thread identifies the owner.\<close>
theorem try_dequeue_ignores_fd:
  "device_manager_try_dequeue_command m node_id (int a) thread_id out
     = device_manager_try_dequeue_command m node_id (int b) thread_id out"
  by (simp add: device_manager_try_dequeue_command_def)

text \<open>Descriptor 0 is a valid connection for \<open>device_manager_bind_connection\<close>, which puts the node
  online, but not for \<open>device_manager_register\<close>, which registers the same connection as offline.\<close>
theorem fd_zero_online:
  "(case device_manager_register \<lparr>devices = []\<rparr> (Some ''N1'') tr 0 th 100 of
      (r, m) \<Rightarrow> r = DEVICE_MANAGER_OK \<and> map dev_online (devices m) = [False])
   \<and> (case device_manager_bind_connection \<lparr>devices = []\<rparr> (Some ''N1'') tr 0 th 100 of
      (r, m) \<Rightarrow> r = DEVICE_MANAGER_OK \<and> map dev_online (devices m) = [True])"
  by (simp add: device_manager_register_def device_manager_bind_connection_def
      bind_connection_defs device_manager_find_index_locked_def
      no_node_id_def dm_consts)

end
