(* ===== verification/Command_Manager.thy ===== *)
theory Command_Manager
  imports Frame_Parser
begin

text \<open>
  \<^verbatim>\<open>server/command_manager.c\<close>, \<^verbatim>\<open>server/command_manager.h\<close>: the server's table of commands sent and the
  answers to them. \<open>entries\<close> is the array of 64 slots, \<open>ce_fields\<close> the live fields of a slot
  (\<open>fields[0..field_count)\<close>); \<open>True\<close> stands for the return code 0 and \<open>False\<close> for -1; \<open>now\<close> is
  \<open>time(NULL)\<close>. The state of a slot is ordered by the life of a command. The lemmas: the table only
  ever fills up from the front, so the sequence numbers are 1, 2, 3, ... and answers find their
  command; what each operation does to the state of a command; what the timeout check reports; and
  that no slot is ever freed.
\<close>

section \<open>State\<close>

datatype command_state = COMMAND_STATE_FREE | COMMAND_STATE_WAITING | COMMAND_STATE_ACKED
  | COMMAND_STATE_NACKED | COMMAND_STATE_TIMEOUT

text \<open>The order of a command's life: free, then waiting, then one of three final states.\<close>

fun state_rank :: "command_state \<Rightarrow> nat" where
  "state_rank COMMAND_STATE_FREE = 0"
| "state_rank COMMAND_STATE_WAITING = 1"
| "state_rank COMMAND_STATE_ACKED = 2"
| "state_rank COMMAND_STATE_NACKED = 2"
| "state_rank COMMAND_STATE_TIMEOUT = 2"

instantiation command_state :: order
begin

definition less_eq_command_state :: "command_state \<Rightarrow> command_state \<Rightarrow> bool" where
  "less_eq_command_state a b = (a = b \<or> state_rank a < state_rank b)"

definition less_command_state :: "command_state \<Rightarrow> command_state \<Rightarrow> bool" where
  "less_command_state a b = (state_rank a < state_rank b)"

instance
  by standard (auto simp: less_eq_command_state_def less_command_state_def)

end

record command_entry =
  ce_state :: command_state
  ce_sequence :: u32
  ce_sender :: string
  ce_target_node :: string
  ce_fields :: "frame_kv list"
  ce_sent_time :: int
  ce_retries :: int

record command_manager =
  entries :: "command_entry list"
  next_sequence :: u32

definition COMMAND_MANAGER_MAX_COMMANDS :: nat where "COMMAND_MANAGER_MAX_COMMANDS = 64"
definition COMMAND_TARGET_NODE_SIZE :: nat where "COMMAND_TARGET_NODE_SIZE = 32"

lemmas cm_consts = COMMAND_MANAGER_MAX_COMMANDS_def COMMAND_TARGET_NODE_SIZE_def

definition zero_command_entry :: command_entry where
  "zero_command_entry = \<lparr>ce_state = COMMAND_STATE_FREE, ce_sequence = 0, ce_sender = [], ce_target_node = [],
     ce_fields = [], ce_sent_time = 0, ce_retries = 0\<rparr>"

section \<open>Operations\<close>

text \<open>The argument tells whether \<open>calloc\<close> found memory.\<close>

definition command_manager_create :: "bool \<Rightarrow> command_manager option" where
  "command_manager_create allocated =
     (if \<not> allocated then None
      else Some \<lparr>entries = replicate COMMAND_MANAGER_MAX_COMMANDS zero_command_entry, next_sequence = 1\<rparr>)"

definition command_manager_build_cmd :: "string option \<Rightarrow> nat \<Rightarrow> string option \<Rightarrow> u32
    \<Rightarrow> frame_kv list option \<Rightarrow> nat \<Rightarrow> (frame_error + nat) \<times> string option" where
  "command_manager_build_cmd out out_size sender sequence kvs field_count =
     frame_build_command_kv out out_size sender sequence kvs field_count"

definition command_manager_find :: "command_manager \<Rightarrow> u32 \<Rightarrow> nat option" where
  "command_manager_find manager sequence =
     find_index (\<lambda>e. ce_state e \<noteq> COMMAND_STATE_FREE \<and> ce_sequence e = sequence) (entries manager)"

definition command_manager_send :: "command_manager \<Rightarrow> string option \<Rightarrow> string option
    \<Rightarrow> frame_kv list option \<Rightarrow> nat \<Rightarrow> u32 option \<Rightarrow> int \<Rightarrow> bool \<times> command_manager \<times> u32 option" where
  "command_manager_send manager target_node sender kvs field_count sequence_out now =
     (if sender = None \<or> sender = Some [] \<or> target_node = None \<or> target_node = Some [] \<or> sequence_out = None
      then (False, manager, sequence_out)
      else if kvs = None \<and> 0 < field_count then (False, manager, sequence_out)
      else if FRAME_DATA_MAX_FIELDS < field_count then (False, manager, sequence_out)
      else (case find_index (\<lambda>e. ce_state e = COMMAND_STATE_FREE) (entries manager) of
              None \<Rightarrow> (False, manager, sequence_out)
            | Some i \<Rightarrow>
                if 32 \<le> length (the sender) \<or> COMMAND_TARGET_NODE_SIZE \<le> length (the target_node)
                then (False, manager, sequence_out)
                else
                  (let entry = \<lparr>ce_state = COMMAND_STATE_WAITING, ce_sequence = next_sequence manager,
                         ce_sender = the sender, ce_target_node = the target_node,
                         ce_fields = (if 0 < field_count then take field_count (the kvs) else []),
                         ce_sent_time = now, ce_retries = 0\<rparr>;
                       next = next_sequence manager + 1
                   in (True,
                       \<lparr>entries = (entries manager)[i := entry], next_sequence = (if next = 0 then 1 else next)\<rparr>,
                       Some (ce_sequence entry)))))"

text \<open>The common body of the two answer handlers, with the state they set.\<close>

definition answer_command :: "command_manager \<Rightarrow> u32 \<Rightarrow> string \<Rightarrow> command_state \<Rightarrow> bool \<times> command_manager" where
  "answer_command manager sequence node_id state =
     (case command_manager_find manager sequence of
        None \<Rightarrow> (False, manager)
      | Some i \<Rightarrow>
          let entry = entries manager ! i in
          if ce_target_node entry \<noteq> node_id then (False, manager)
          else if ce_state entry \<noteq> COMMAND_STATE_WAITING then (True, manager)
          else (True, manager\<lparr>entries := (entries manager)[i := entry\<lparr>ce_state := state\<rparr>]\<rparr>))"

definition command_manager_on_ack :: "command_manager \<Rightarrow> frame_ack option \<Rightarrow> bool \<times> command_manager" where
  "command_manager_on_ack manager ack =
     (case ack of
        None \<Rightarrow> (False, manager)
      | Some a \<Rightarrow> answer_command manager (ack_sequence a) (ack_node_id a) COMMAND_STATE_ACKED)"

definition command_manager_on_nack :: "command_manager \<Rightarrow> frame_nack option \<Rightarrow> bool \<times> command_manager" where
  "command_manager_on_nack manager nack =
     (case nack of
        None \<Rightarrow> (False, manager)
      | Some a \<Rightarrow> answer_command manager (nack_sequence a) (nack_node_id a) COMMAND_STATE_NACKED)"

definition command_manager_query :: "command_manager \<Rightarrow> u32 \<Rightarrow> command_state option
    \<Rightarrow> bool \<times> command_state option" where
  "command_manager_query manager sequence state_out =
     (if state_out = None then (False, state_out)
      else (case command_manager_find manager sequence of
              None \<Rightarrow> (False, state_out)
            | Some i \<Rightarrow> (True, Some (ce_state (entries manager ! i)))))"

text \<open>
  The timeout check. Each output array is an \<open>option\<close>: \<open>None\<close> when the caller passed NULL, otherwise
  the list of the entries written so far.
\<close>

record timeout_report =
  retry_sequences :: "u32 list option"
  retry_target_nodes :: "string list option"
  retry_fields :: "frame_kv list list option"
  retry_field_counts :: "nat list option"
  retries_counted :: nat
  timeout_sequences :: "u32 list option"
  timeouts_counted :: nat

definition push_out :: "'a \<Rightarrow> 'a list option \<Rightarrow> 'a list option" where
  "push_out x = map_option (\<lambda>xs. xs @ [x])"

definition report_retry :: "nat \<Rightarrow> command_entry \<Rightarrow> timeout_report \<Rightarrow> timeout_report" where
  "report_retry retry_capacity entry rep =
     (if retry_sequences rep \<noteq> None then
        (if retries_counted rep < retry_capacity then
           rep\<lparr>retry_sequences := push_out (ce_sequence entry) (retry_sequences rep),
             retry_target_nodes := push_out (fst (snprintf COMMAND_TARGET_NODE_SIZE (ce_target_node entry)))
               (retry_target_nodes rep),
             retry_fields := push_out (ce_fields entry) (retry_fields rep),
             retry_field_counts := push_out (length (ce_fields entry)) (retry_field_counts rep),
             retries_counted := retries_counted rep + 1\<rparr>
         else rep)
      else rep\<lparr>retries_counted := retries_counted rep + 1\<rparr>)"

definition report_timeout :: "nat \<Rightarrow> command_entry \<Rightarrow> timeout_report \<Rightarrow> timeout_report" where
  "report_timeout timeout_capacity entry rep =
     (if timeout_sequences rep \<noteq> None then
        (if timeouts_counted rep < timeout_capacity then
           rep\<lparr>timeout_sequences := push_out (ce_sequence entry) (timeout_sequences rep),
             timeouts_counted := timeouts_counted rep + 1\<rparr>
         else rep)
      else rep\<lparr>timeouts_counted := timeouts_counted rep + 1\<rparr>)"

definition expired :: "int \<Rightarrow> int \<Rightarrow> command_entry \<Rightarrow> bool" where
  "expired now timeout_sec entry =
     (ce_state entry = COMMAND_STATE_WAITING \<and> \<not> now - ce_sent_time entry < timeout_sec)"

fun timeouts_loop :: "int \<Rightarrow> int \<Rightarrow> int \<Rightarrow> nat \<Rightarrow> nat \<Rightarrow> command_entry list \<Rightarrow> timeout_report
    \<Rightarrow> command_entry list \<times> timeout_report" where
  "timeouts_loop now timeout_sec max_retries retry_capacity timeout_capacity [] rep = ([], rep)"
| "timeouts_loop now timeout_sec max_retries retry_capacity timeout_capacity (entry # es) rep =
     (let (entry', rep') =
        (if \<not> expired now timeout_sec entry then (entry, rep)
         else if ce_retries entry < max_retries then
           (entry\<lparr>ce_retries := ce_retries entry + 1, ce_sent_time := now\<rparr>, report_retry retry_capacity entry rep)
         else (entry\<lparr>ce_state := COMMAND_STATE_TIMEOUT\<rparr>, report_timeout timeout_capacity entry rep));
        (es', rep'') = timeouts_loop now timeout_sec max_retries retry_capacity timeout_capacity es rep'
      in (entry' # es', rep''))"

definition command_manager_check_timeouts :: "command_manager \<Rightarrow> int \<Rightarrow> int \<Rightarrow> int
    \<Rightarrow> u32 list option \<Rightarrow> string list option \<Rightarrow> frame_kv list list option \<Rightarrow> nat list option \<Rightarrow> nat
    \<Rightarrow> nat option \<Rightarrow> u32 list option \<Rightarrow> nat \<Rightarrow> nat option
    \<Rightarrow> bool \<times> command_manager \<times> timeout_report \<times> nat option \<times> nat option" where
  "command_manager_check_timeouts manager now timeout_sec max_retries rseqs rnodes rfields rcounts
       retry_capacity retry_count tseqs timeout_capacity timeout_count =
     (let rep0 = \<lparr>retry_sequences = rseqs, retry_target_nodes = rnodes, retry_fields = rfields,
            retry_field_counts = rcounts, retries_counted = 0, timeout_sequences = tseqs, timeouts_counted = 0\<rparr>
      in if timeout_sec < 0 \<or> max_retries < 0 then (False, manager, rep0, retry_count, timeout_count)
         else
           (let (es, rep) = timeouts_loop now timeout_sec max_retries retry_capacity timeout_capacity
                  (entries manager) rep0
            in (True, manager\<lparr>entries := es\<rparr>, rep,
                map_option (\<lambda>_. retries_counted rep) retry_count,
                map_option (\<lambda>_. timeouts_counted rep) timeout_count)))"

section \<open>The shape of the table\<close>

text \<open>
  After \<open>k\<close> successful sends the first \<open>k\<close> slots hold the commands with the sequence numbers 1 to
  \<open>k\<close>, the others are free, and the next number is \<open>k + 1\<close>.
\<close>

definition slot_ok :: "nat \<Rightarrow> nat \<Rightarrow> command_entry \<Rightarrow> bool" where
  "slot_ok k i e =
     (if i < k then ce_state e \<noteq> COMMAND_STATE_FREE \<and> ce_sequence e = of_nat (i + 1)
        \<and> length (ce_target_node e) < 32 \<and> 0 \<le> ce_retries e
      else ce_state e = COMMAND_STATE_FREE)"

definition cm_filled :: "nat \<Rightarrow> command_manager \<Rightarrow> bool" where
  "cm_filled k m =
     (k \<le> 64 \<and> length (entries m) = 64 \<and> next_sequence m = of_nat (k + 1)
      \<and> (\<forall>i < 64. slot_ok k i (entries m ! i)))"

lemma cm_filled_create: "cm_filled 0 \<lparr>entries = replicate COMMAND_MANAGER_MAX_COMMANDS zero_command_entry, next_sequence = 1\<rparr>"
  by (simp add: cm_filled_def slot_ok_def cm_consts zero_command_entry_def)

lemma u32_small_eq: "a < 2 ^ 32 \<Longrightarrow> b < 2 ^ 32 \<Longrightarrow> (of_nat a :: u32) = of_nat b \<longleftrightarrow> a = b"
  by (simp add: word_of_nat_eq_iff take_bit_nat_eq_self)

lemma find_free:
  assumes "cm_filled k m"
  shows "find_index (\<lambda>e. ce_state e = COMMAND_STATE_FREE) (entries m) = (if k < 64 then Some k else None)"
proof (cases "k < 64")
  case True
  with assms show ?thesis
    by (auto simp: cm_filled_def slot_ok_def intro!: find_index_SomeI)
next
  case False
  with assms show ?thesis
    by (auto simp: cm_filled_def slot_ok_def find_index_None in_set_conv_nth)
qed

lemma find_sequence:
  assumes "cm_filled k m"
  shows "command_manager_find m sequence =
    (if 1 \<le> unat sequence \<and> unat sequence \<le> k then Some (unat sequence - 1) else None)"
proof -
  have k: "k \<le> 64" "length (entries m) = 64" using assms by (auto simp: cm_filled_def)
  have hit: "ce_state (entries m ! i) \<noteq> COMMAND_STATE_FREE \<and> ce_sequence (entries m ! i) = sequence
      \<longleftrightarrow> i < k \<and> unat sequence = i + 1" if "i < 64" for i
  proof (cases "i < k")
    case True
    have "slot_ok k i (entries m ! i)" using assms that by (simp add: cm_filled_def)
    moreover have "sequence = of_nat (i + 1) \<longleftrightarrow> unat sequence = i + 1"
      using that u32_small_eq [of "unat sequence" "i + 1"] unsigned_less [of sequence, where 'a = nat] by simp
    ultimately show ?thesis using True by (auto simp: slot_ok_def)
  next
    case False
    with assms that show ?thesis by (simp add: cm_filled_def slot_ok_def)
  qed
  show ?thesis
  proof (cases "1 \<le> unat sequence \<and> unat sequence \<le> k")
    case True
    then obtain i where i: "unat sequence = i + 1" "i < k" by (metis Suc_eq_plus1 Suc_le_eq not0_implies_Suc One_nat_def not_one_le_zero)
    then have "find_index (\<lambda>e. ce_state e \<noteq> COMMAND_STATE_FREE \<and> ce_sequence e = sequence) (entries m) = Some i"
      using hit [of i] k by (intro find_index_SomeI) (auto simp: hit)
    with i show ?thesis by (simp add: command_manager_find_def)
  next
    case False
    have "\<not> (ce_state e \<noteq> COMMAND_STATE_FREE \<and> ce_sequence e = sequence)" if e: "e \<in> set (entries m)" for e
    proof -
      obtain i where i: "i < 64" "e = entries m ! i" using e k by (auto simp: in_set_conv_nth)
      have "\<not> (i < k \<and> unat sequence = i + 1)" using False by auto
      with hit [OF i(1)] show ?thesis by (simp only: i(2)) simp
    qed
    then have "command_manager_find m sequence = None"
      unfolding command_manager_find_def find_index_None by blast
    with False show ?thesis by auto
  qed
qed

lemma cm_filled_nth:
  "cm_filled k m \<Longrightarrow> i < k \<Longrightarrow> ce_state (entries m ! i) \<noteq> COMMAND_STATE_FREE
     \<and> ce_sequence (entries m ! i) = of_nat (i + 1) \<and> length (ce_target_node (entries m ! i)) < 32
     \<and> 0 \<le> ce_retries (entries m ! i)"
  unfolding cm_filled_def slot_ok_def by (metis order_less_le_trans)

definition send_args_ok :: "string option \<Rightarrow> string option \<Rightarrow> frame_kv list option \<Rightarrow> nat \<Rightarrow> bool" where
  "send_args_ok target_node sender kvs field_count =
     (sender \<noteq> None \<and> sender \<noteq> Some [] \<and> target_node \<noteq> None \<and> target_node \<noteq> Some []
      \<and> (kvs = None \<longrightarrow> field_count = 0) \<and> field_count \<le> 16
      \<and> length (the sender) < 32 \<and> length (the target_node) < 32)"

definition sent_entry :: "u32 \<Rightarrow> string \<Rightarrow> string \<Rightarrow> frame_kv list option \<Rightarrow> nat \<Rightarrow> int \<Rightarrow> command_entry" where
  "sent_entry sequence target sender kvs field_count now =
     \<lparr>ce_state = COMMAND_STATE_WAITING, ce_sequence = sequence, ce_sender = sender, ce_target_node = target,
      ce_fields = (if 0 < field_count then take field_count (the kvs) else []), ce_sent_time = now, ce_retries = 0\<rparr>"

lemma send_eq:
  assumes "cm_filled k m"
  shows "command_manager_send m target sender kvs field_count (Some old) now =
    (if send_args_ok target sender kvs field_count \<and> k < 64
     then (True, \<lparr>entries = (entries m)[k := sent_entry (of_nat (k + 1)) (the target) (the sender) kvs field_count now],
                  next_sequence = of_nat (k + 2)\<rparr>, Some (of_nat (k + 1)))
     else (False, m, Some old))"
proof -
  have k: "k \<le> 64" "next_sequence m = of_nat (k + 1)" using assms by (auto simp: cm_filled_def)
  have "(of_nat (k + 2) :: u32) \<noteq> of_nat 0" using k(1) by (subst u32_small_eq) simp_all
  then have "next_sequence m + 1 \<noteq> 0" "next_sequence m + 1 = of_nat (k + 2)"
    by (simp_all add: k(2) add.commute)
  then show ?thesis
    unfolding command_manager_send_def find_free [OF assms]
    by (auto simp: send_args_ok_def sent_entry_def frame_consts cm_consts Let_def k(2))
qed

lemma send_filled:
  assumes "cm_filled k m" "send_args_ok target sender kvs field_count" "k < 64"
  shows "cm_filled (k + 1) \<lparr>entries = (entries m)[k := sent_entry (of_nat (k + 1)) (the target) (the sender) kvs field_count now],
                  next_sequence = of_nat (k + 2)\<rparr>"
  using assms by (auto simp: cm_filled_def slot_ok_def sent_entry_def send_args_ok_def nth_list_update less_Suc_eq)

text \<open>What an answer does, in terms of the sequence number.\<close>

lemma answer_eq:
  assumes "cm_filled k m"
  shows "answer_command m sequence node_id state =
    (let i = unat sequence - 1; e = entries m ! i in
     if 1 \<le> unat sequence \<and> unat sequence \<le> k \<and> ce_target_node e = node_id
     then (True, if ce_state e = COMMAND_STATE_WAITING
                 then m\<lparr>entries := (entries m)[i := e\<lparr>ce_state := state\<rparr>]\<rparr> else m)
     else (False, m))"
  by (simp add: answer_command_def find_sequence [OF assms] Let_def)

lemma cm_filled_set_state:
  assumes "cm_filled k m" "i < k" "state \<noteq> COMMAND_STATE_FREE"
  shows "cm_filled k (m\<lparr>entries := (entries m)[i := (entries m ! i)\<lparr>ce_state := state\<rparr>]\<rparr>)"
  using assms by (auto simp: cm_filled_def slot_ok_def nth_list_update)

lemma answer_filled:
  assumes "cm_filled k m" "state \<noteq> COMMAND_STATE_FREE"
  shows "cm_filled k (snd (answer_command m sequence node_id state))"
proof -
  have "unat sequence - 1 < k" if "1 \<le> unat sequence" "unat sequence \<le> k" using that by simp
  with cm_filled_set_state [OF assms(1) _ assms(2)] assms(1) show ?thesis
    by (simp add: answer_eq [OF assms(1)] Let_def)
qed

section \<open>The timeout check, entry by entry\<close>

definition after_check :: "int \<Rightarrow> int \<Rightarrow> int \<Rightarrow> command_entry \<Rightarrow> command_entry" where
  "after_check now timeout_sec max_retries e =
     (if \<not> expired now timeout_sec e then e
      else if ce_retries e < max_retries then e\<lparr>ce_retries := ce_retries e + 1, ce_sent_time := now\<rparr>
      else e\<lparr>ce_state := COMMAND_STATE_TIMEOUT\<rparr>)"

definition to_retry :: "int \<Rightarrow> int \<Rightarrow> int \<Rightarrow> command_entry \<Rightarrow> bool" where
  "to_retry now timeout_sec max_retries e = (expired now timeout_sec e \<and> ce_retries e < max_retries)"

definition to_time_out :: "int \<Rightarrow> int \<Rightarrow> int \<Rightarrow> command_entry \<Rightarrow> bool" where
  "to_time_out now timeout_sec max_retries e = (expired now timeout_sec e \<and> \<not> ce_retries e < max_retries)"

lemma timeouts_loop_entries:
  "fst (timeouts_loop now ts mr rc tc es rep) = map (after_check now ts mr) es"
  by (induction es arbitrary: rep) (simp_all add: Let_def after_check_def split_def)

text \<open>The report grows by the retried and the timed out entries, up to the capacities.\<close>

lemma timeouts_loop_retries:
  assumes "retry_sequences rep = Some a" "retry_target_nodes rep = Some b" "retry_fields rep = Some c"
    "retry_field_counts rep = Some d"
  shows "let rep' = snd (timeouts_loop now ts mr rc tc es rep);
             rs = take (rc - retries_counted rep) (filter (to_retry now ts mr) es)
         in retry_sequences rep' = Some (a @ map ce_sequence rs)
          \<and> retry_target_nodes rep' = Some (b @ map (\<lambda>e. take 31 (ce_target_node e)) rs)
          \<and> retry_fields rep' = Some (c @ map ce_fields rs)
          \<and> retry_field_counts rep' = Some (d @ map (\<lambda>e. length (ce_fields e)) rs)
          \<and> retries_counted rep' = retries_counted rep + length rs"
  using assms
proof (induction es arbitrary: rep a b c d)
  case Nil
  then show ?case by simp
next
  case (Cons e es)
  consider (retry) "to_retry now ts mr e" "retries_counted rep < rc" | (full) "to_retry now ts mr e" "\<not> retries_counted rep < rc"
    | (other) "\<not> to_retry now ts mr e" by blast
  then show ?case
  proof cases
    case retry
    let ?rep = "report_retry rc e rep"
    have "retry_sequences ?rep = Some (a @ [ce_sequence e])" "retry_target_nodes ?rep = Some (b @ [take 31 (ce_target_node e)])"
      "retry_fields ?rep = Some (c @ [ce_fields e])" "retry_field_counts ?rep = Some (d @ [length (ce_fields e)])"
      "retries_counted ?rep = retries_counted rep + 1"
      using retry Cons.prems by (simp_all add: report_retry_def push_out_def snprintf_def cm_consts)
    note IH = Cons.IH [OF this(1-4)] this(5)
    have "snd (timeouts_loop now ts mr rc tc (e # es) rep) = snd (timeouts_loop now ts mr rc tc es ?rep)"
      using retry by (simp add: to_retry_def Let_def split: prod.split)
    moreover have "rc - retries_counted rep = Suc (rc - (retries_counted rep + 1))" using retry by simp
    ultimately show ?thesis using IH retry by (simp add: Let_def)
  next
    case full
    then have "snd (timeouts_loop now ts mr rc tc (e # es) rep) = snd (timeouts_loop now ts mr rc tc es rep)"
      using Cons.prems by (simp add: to_retry_def Let_def report_retry_def split: prod.split)
    with Cons.IH [OF Cons.prems] full show ?thesis by (simp add: Let_def)
  next
    case other
    let ?rep = "if expired now ts e then report_timeout tc e rep else rep"
    have "snd (timeouts_loop now ts mr rc tc (e # es) rep) = snd (timeouts_loop now ts mr rc tc es ?rep)"
      using other by (auto simp: to_retry_def Let_def split: prod.split)
    moreover have "retry_sequences ?rep = Some a" "retry_target_nodes ?rep = Some b" "retry_fields ?rep = Some c"
      "retry_field_counts ?rep = Some d" "retries_counted ?rep = retries_counted rep"
      using Cons.prems by (simp_all add: report_timeout_def)
    ultimately show ?thesis using Cons.IH [of ?rep a b c d] other by (simp add: Let_def)
  qed
qed

lemma timeouts_loop_timeouts:
  assumes "timeout_sequences rep = Some a"
  shows "let rep' = snd (timeouts_loop now ts mr rc tc es rep);
             rs = take (tc - timeouts_counted rep) (filter (to_time_out now ts mr) es)
         in timeout_sequences rep' = Some (a @ map ce_sequence rs) \<and> timeouts_counted rep' = timeouts_counted rep + length rs"
  using assms
proof (induction es arbitrary: rep a)
  case Nil
  then show ?case by simp
next
  case (Cons e es)
  consider (out) "to_time_out now ts mr e" "timeouts_counted rep < tc" | (full) "to_time_out now ts mr e" "\<not> timeouts_counted rep < tc"
    | (other) "\<not> to_time_out now ts mr e" by blast
  then show ?case
  proof cases
    case out
    let ?rep = "report_timeout tc e rep"
    have "timeout_sequences ?rep = Some (a @ [ce_sequence e])" "timeouts_counted ?rep = timeouts_counted rep + 1"
      using out Cons.prems by (simp_all add: report_timeout_def push_out_def)
    note IH = Cons.IH [OF this(1)] this(2)
    have "snd (timeouts_loop now ts mr rc tc (e # es) rep) = snd (timeouts_loop now ts mr rc tc es ?rep)"
      using out by (simp add: to_time_out_def Let_def split: prod.split)
    moreover have "tc - timeouts_counted rep = Suc (tc - (timeouts_counted rep + 1))" using out by simp
    ultimately show ?thesis using IH out by (simp add: Let_def)
  next
    case full
    then have "snd (timeouts_loop now ts mr rc tc (e # es) rep) = snd (timeouts_loop now ts mr rc tc es rep)"
      using Cons.prems by (simp add: to_time_out_def Let_def report_timeout_def split: prod.split)
    with Cons.IH [OF Cons.prems] full show ?thesis by (simp add: Let_def)
  next
    case other
    let ?rep = "if expired now ts e then report_retry rc e rep else rep"
    have "snd (timeouts_loop now ts mr rc tc (e # es) rep) = snd (timeouts_loop now ts mr rc tc es ?rep)"
      using other by (auto simp: to_time_out_def Let_def split: prod.split)
    moreover have "timeout_sequences ?rep = Some a" "timeouts_counted ?rep = timeouts_counted rep"
      using Cons.prems by (simp_all add: report_retry_def)
    ultimately show ?thesis using Cons.IH [of ?rep a] other by (simp add: Let_def)
  qed
qed

lemma after_check_filled:
  "cm_filled k m \<Longrightarrow> cm_filled k (m\<lparr>entries := map (after_check now ts mr) (entries m)\<rparr>)"
  by (auto simp: cm_filled_def slot_ok_def after_check_def expired_def)

section \<open>Histories\<close>

text \<open>A call of the server on its command table, and the sequence number it assigned, if any.\<close>

datatype cm_op =
    Send_Command "string option" "string option" "frame_kv list option" nat int
  | Receive_Ack "frame_ack option"
  | Receive_Nack "frame_nack option"
  | Check_Timeouts int int int nat nat

fun cm_exec :: "cm_op \<Rightarrow> command_manager \<Rightarrow> command_manager \<times> u32 list" where
  "cm_exec (Send_Command target sender kvs field_count now) m =
     (case command_manager_send m target sender kvs field_count (Some 0) now of
        (ok, m', sequence) \<Rightarrow> (m', if ok then [the sequence] else []))"
| "cm_exec (Receive_Ack ack) m = (snd (command_manager_on_ack m ack), [])"
| "cm_exec (Receive_Nack nack) m = (snd (command_manager_on_nack m nack), [])"
| "cm_exec (Check_Timeouts now timeout_sec max_retries retry_capacity timeout_capacity) m =
     (case command_manager_check_timeouts m now timeout_sec max_retries (Some []) (Some []) (Some []) (Some [])
        retry_capacity (Some 0) (Some []) timeout_capacity (Some 0) of (ok, m', _) \<Rightarrow> (m', []))"

fun cm_run :: "cm_op list \<Rightarrow> command_manager \<Rightarrow> command_manager \<times> u32 list" where
  "cm_run [] m = (m, [])"
| "cm_run (op # ops) m =
     (case cm_exec op m of (m1, s) \<Rightarrow> (case cm_run ops m1 of (m', ss) \<Rightarrow> (m', s @ ss)))"

definition cm_start :: command_manager where
  "cm_start = the (command_manager_create True)"

lemma cm_start_filled: "cm_filled 0 cm_start"
  using cm_filled_create by (simp add: cm_start_def command_manager_create_def)

lemma check_timeouts_entries:
  "snd (cm_exec (Check_Timeouts now ts mr rc tc) m) = []"
  "fst (cm_exec (Check_Timeouts now ts mr rc tc) m) =
     (if ts < 0 \<or> mr < 0 then m else m\<lparr>entries := map (after_check now ts mr) (entries m)\<rparr>)"
  by (simp_all add: command_manager_check_timeouts_def Let_def split_def timeouts_loop_entries)

lemma cm_exec_filled:
  assumes "cm_filled k m" "cm_exec op m = (m', ss)"
  shows "\<exists>k'. k \<le> k' \<and> k' \<le> 64 \<and> cm_filled k' m' \<and> ss = map (\<lambda>i. of_nat (i + 1)) [k..<k']"
proof (cases op)
  case (Send_Command target sender kvs field_count now)
  show ?thesis
  proof (cases "send_args_ok target sender kvs field_count \<and> k < 64")
    case True
    with send_filled [OF assms(1)] assms(2) Send_Command show ?thesis
      by (intro exI [of _ "k + 1"]) (auto simp: send_eq [OF assms(1)])
  next
    case False
    with assms Send_Command show ?thesis
      by (intro exI [of _ k]) (simp add: send_eq [OF assms(1)], simp add: cm_filled_def)
  qed
next
  case (Receive_Ack ack)
  with assms answer_filled [OF assms(1)] show ?thesis
    by (intro exI [of _ k]) (auto simp: command_manager_on_ack_def cm_filled_def split: option.splits)
next
  case (Receive_Nack nack)
  with assms answer_filled [OF assms(1)] show ?thesis
    by (intro exI [of _ k]) (auto simp: command_manager_on_nack_def cm_filled_def split: option.splits)
next
  case (Check_Timeouts now ts mr rc tc)
  with assms have "m' = (if ts < 0 \<or> mr < 0 then m else m\<lparr>entries := map (after_check now ts mr) (entries m)\<rparr>)" "ss = []"
    using check_timeouts_entries [of now ts mr rc tc m] by simp_all
  moreover have "k \<le> 64" using assms(1) by (simp add: cm_filled_def)
  ultimately show ?thesis
    using after_check_filled [OF assms(1)] assms(1) by (intro exI [of _ k]) auto
qed

lemma cm_run_filled:
  "cm_filled k m \<Longrightarrow> cm_run ops m = (m', ss) \<Longrightarrow>
   \<exists>k'. k \<le> k' \<and> k' \<le> 64 \<and> cm_filled k' m' \<and> ss = map (\<lambda>i. of_nat (i + 1)) [k..<k']"
proof (induction ops arbitrary: m k ss)
  case Nil
  then show ?case by (intro exI [of _ k]) (auto simp: cm_filled_def)
next
  case (Cons op ops)
  obtain m1 s1 where e: "cm_exec op m = (m1, s1)" by (cases "cm_exec op m")
  obtain s2 where r: "cm_run ops m1 = (m', s2)" "ss = s1 @ s2" using Cons.prems(2) e by (auto split: prod.splits)
  obtain k1 where k1: "k \<le> k1" "cm_filled k1 m1" "s1 = map (\<lambda>i. of_nat (i + 1)) [k..<k1]"
    using cm_exec_filled [OF Cons.prems(1) e] by blast
  obtain k2 where k2: "k1 \<le> k2" "k2 \<le> 64" "cm_filled k2 m'" "s2 = map (\<lambda>i. of_nat (i + 1)) [k1..<k2]"
    using Cons.IH [OF k1(2) r(1)] by blast
  have "[k..<k2] = [k..<k1] @ [k1..<k2]" using k1(1) k2(1) by (metis le_Suc_ex upt_add_eq_append)
  with k1 k2 r(2) show ?case by (intro exI [of _ k2]) simp
qed

lemma cm_run_start:
  obtains k where "k \<le> 64" "cm_filled k (fst (cm_run ops cm_start))"
    "snd (cm_run ops cm_start) = map (\<lambda>i. of_nat (i + 1)) [0..<k]"
  using cm_run_filled [OF cm_start_filled, of ops "fst (cm_run ops cm_start)" "snd (cm_run ops cm_start)"] by auto

abbreviation slots_advance :: "command_entry list \<Rightarrow> command_entry list \<Rightarrow> bool" where
  "slots_advance \<equiv> list_all2 (\<lambda>e e'. ce_state e \<le> ce_state e')"

lemma slots_advance_refl: "slots_advance es es"
  by (simp add: list_all2_conv_all_nth)

lemma slots_advance_update: "ce_state (es ! i) \<le> ce_state e \<Longrightarrow> slots_advance es (es[i := e])"
  by (cases "i < length es") (auto simp: list_all2_conv_all_nth nth_list_update)

lemma state_bounds [simp]: "COMMAND_STATE_FREE \<le> st" "COMMAND_STATE_WAITING \<le> COMMAND_STATE_ACKED"
  "COMMAND_STATE_WAITING \<le> COMMAND_STATE_NACKED" "COMMAND_STATE_WAITING \<le> COMMAND_STATE_TIMEOUT"
  by (cases st) (simp_all add: less_eq_command_state_def)

lemma answer_advances:
  "COMMAND_STATE_WAITING \<le> st \<Longrightarrow> slots_advance (entries m) (entries (snd (answer_command m sq n st)))"
  by (auto simp: answer_command_def Let_def slots_advance_refl slots_advance_update split: option.split)

section \<open>Properties of the command table\<close>

text \<open>C16: In every history the server assigns the sequence numbers 1, 2, 3, ... to its commands, so no
  two commands ever share one and 0 is never used, at most 64 commands are accepted, and a send
  succeeds exactly when its arguments are valid and fewer than 64 commands were accepted before:
  the table is never freed, so whether the earlier commands were answered does not matter.\<close>
theorem command_sequences:
  "case cm_run ops cm_start of
     (m, seqs) \<Rightarrow>
       seqs = map of_nat [1..<length seqs + 1] \<and> length seqs \<le> 64 \<and> distinct seqs \<and> 0 \<notin> set seqs
       \<and> fst (command_manager_send m target sender kvs field_count (Some 0) now)
         = (send_args_ok target sender kvs field_count \<and> length seqs < 64)"
proof (cases rule: cm_run_start [of ops])
  case (1 k)
  have eq: "map (\<lambda>i. of_nat (i + 1) :: u32) [0..<k] = map of_nat [1..<k + 1]"
  proof -
    have "[1..<k + 1] = map Suc [0..<k]" by (simp add: map_Suc_upt del: upt_Suc)
    then show ?thesis by (simp only: map_map comp_def Suc_eq_plus1)
  qed
  have inj: "inj_on (of_nat :: nat \<Rightarrow> u32) {1..<k + 1}" "0 \<notin> (of_nat :: nat \<Rightarrow> u32) ` {1..<k + 1}"
    using 1(1) u32_small_eq [of 0] by (auto simp: inj_on_def u32_small_eq)
  have "distinct (map of_nat [1..<k + 1] :: u32 list)" "(0 :: u32) \<notin> set (map of_nat [1..<k + 1])"
    using inj by (simp_all add: distinct_map del: upt_Suc)
  with 1 eq show ?thesis
    by (cases "cm_run ops cm_start") (simp add: send_eq del: upt_Suc)
qed

text \<open>C23: The life of a command only goes forward (free, waiting, then acknowledged, refused or timed
  out for good): no operation, on any table, ever moves a slot backwards or out of a final state.\<close>
theorem command_state_monotone:
  "list_all2 (\<lambda>e e'. ce_state e \<le> ce_state e') (entries m) (entries (fst (cm_exec op m)))"
proof (cases op)
  case (Send_Command target sender kvs field_count now)
  then show ?thesis
    by (auto simp: command_manager_send_def Let_def slots_advance_refl slots_advance_update
        split: option.split dest!: find_index_SomeD)
next
  case (Receive_Ack ack)
  then show ?thesis
    by (cases ack) (simp_all add: command_manager_on_ack_def slots_advance_refl answer_advances)
next
  case (Receive_Nack nack)
  then show ?thesis
    by (cases nack) (simp_all add: command_manager_on_nack_def slots_advance_refl answer_advances)
next
  case (Check_Timeouts now ts mr rc tc)
  then show ?thesis
    using check_timeouts_entries(2) [of now ts mr rc tc m]
    by (auto simp: list_all2_conv_all_nth after_check_def expired_def simp del: cm_exec.simps)
qed

text \<open>C24: In every reachable table an ACK is accepted exactly when its sequence number was assigned
  and it comes from the node the command was sent to; it then makes a waiting command ACKED, leaves
  a finished one as it is, and never touches another command. An ACK from another node, or with an
  unknown number, changes nothing.\<close>
theorem command_ack_spec:
  "case cm_run ops cm_start of
     (m, seqs) \<Rightarrow>
       (let i = unat (ack_sequence ack) - 1; e = entries m ! i in
        command_manager_on_ack m (Some ack) =
          (if ack_sequence ack \<in> set seqs \<and> ce_target_node e = ack_node_id ack
           then (True, if ce_state e = COMMAND_STATE_WAITING
                       then m\<lparr>entries := (entries m)[i := e\<lparr>ce_state := COMMAND_STATE_ACKED\<rparr>]\<rparr> else m)
           else (False, m)))"
proof (cases rule: cm_run_start [of ops])
  case (1 k)
  have "ack_sequence ack \<in> set (snd (cm_run ops cm_start)) \<longleftrightarrow> 1 \<le> unat (ack_sequence ack) \<and> unat (ack_sequence ack) \<le> k"
  proof -
    have "unat (of_nat (i + 1) :: u32) = i + 1" if "i < k" for i
      using that 1(1) by (simp only: unsigned_of_nat) (simp add: take_bit_nat_eq_self)
    then have "ack_sequence ack = of_nat (i + 1) \<longleftrightarrow> unat (ack_sequence ack) = i + 1" if "i < k" for i
      using that by (metis unsigned_word_eqI)
    then show ?thesis
      unfolding 1(3) by (auto simp: image_iff Bex_def) (metis Suc_le_D Suc_le_eq One_nat_def Suc_eq_plus1)
  qed
  then show ?thesis
    using answer_eq [OF 1(2), of "ack_sequence ack" "ack_node_id ack" COMMAND_STATE_ACKED]
    by (cases "cm_run ops cm_start") (simp add: command_manager_on_ack_def Let_def)
qed

text \<open>\<open>command_manager_check_timeouts\<close> changes every slot on its own (a waiting command past the
  threshold is retried while it has retries left, else it checks out) and reports, up to the
  capacities and in table order, exactly those commands: the arrays for the retries are parallel, so
  the number, target node and fields at one index belong to the same command, and the counts are
  the lengths. Negative limits are refused and change nothing.\<close>
lemma check_timeouts_eq:
  "command_manager_check_timeouts m now ts mr (Some []) (Some []) (Some []) (Some []) rc (Some a) (Some []) tc (Some b) =
     (if ts < 0 \<or> mr < 0
      then (False, m, \<lparr>retry_sequences = Some [], retry_target_nodes = Some [], retry_fields = Some [],
              retry_field_counts = Some [], retries_counted = 0, timeout_sequences = Some [], timeouts_counted = 0\<rparr>,
            Some a, Some b)
      else
        (let retried = take rc (filter (to_retry now ts mr) (entries m));
             timed_out = take tc (filter (to_time_out now ts mr) (entries m))
         in (True, m\<lparr>entries := map (after_check now ts mr) (entries m)\<rparr>,
             \<lparr>retry_sequences = Some (map ce_sequence retried),
              retry_target_nodes = Some (map (\<lambda>e. take 31 (ce_target_node e)) retried),
              retry_fields = Some (map ce_fields retried),
              retry_field_counts = Some (map (\<lambda>e. length (ce_fields e)) retried),
              retries_counted = length retried,
              timeout_sequences = Some (map ce_sequence timed_out), timeouts_counted = length timed_out\<rparr>,
             Some (length retried), Some (length timed_out))))"
proof -
  let ?rep = "\<lparr>retry_sequences = Some [], retry_target_nodes = Some [], retry_fields = Some [],
      retry_field_counts = Some [], retries_counted = 0, timeout_sequences = Some [], timeouts_counted = 0\<rparr>"
  have "timeouts_loop now ts mr rc tc (entries m) ?rep =
      (map (after_check now ts mr) (entries m), snd (timeouts_loop now ts mr rc tc (entries m) ?rep))"
    by (simp add: prod_eq_iff timeouts_loop_entries)
  moreover note timeouts_loop_retries [of ?rep "[]" "[]" "[]" "[]" now ts mr rc tc "entries m"]
    timeouts_loop_timeouts [of ?rep "[]" now ts mr rc tc "entries m"]
  ultimately show ?thesis
    by (cases "snd (timeouts_loop now ts mr rc tc (entries m) ?rep)")
      (simp add: command_manager_check_timeouts_def Let_def)
qed

text \<open>Checks at times at least the threshold apart.\<close>

fun spaced :: "int \<Rightarrow> int \<Rightarrow> int list \<Rightarrow> bool" where
  "spaced timeout_sec t [] = True"
| "spaced timeout_sec t (u # us) = (t + timeout_sec \<le> u \<and> spaced timeout_sec u us)"

lemma checks_entry:
  "ce_state e = COMMAND_STATE_WAITING \<Longrightarrow> ce_retries e \<le> mr \<Longrightarrow> 0 \<le> ts
   \<Longrightarrow> spaced ts (ce_sent_time e) checks \<Longrightarrow>
   ce_state (foldl (\<lambda>e now. after_check now ts mr e) e checks) =
     (if int (length checks) \<le> mr - ce_retries e then COMMAND_STATE_WAITING else COMMAND_STATE_TIMEOUT)"
proof (induction checks arbitrary: e)
  case Nil
  then show ?case by simp
next
  case (Cons now checks)
  have exp: "expired now ts e" using Cons.prems by (simp add: expired_def)
  show ?case
  proof (cases "ce_retries e < mr")
    case True
    let ?e = "e\<lparr>ce_retries := ce_retries e + 1, ce_sent_time := now\<rparr>"
    have "after_check now ts mr e = ?e" using exp True by (simp add: after_check_def)
    moreover have "ce_state (foldl (\<lambda>e now. after_check now ts mr e) ?e checks) =
        (if int (length checks) \<le> mr - ce_retries ?e then COMMAND_STATE_WAITING else COMMAND_STATE_TIMEOUT)"
      by (rule Cons.IH) (use Cons.prems True in simp_all)
    ultimately show ?thesis by simp
  next
    case False
    let ?e = "e\<lparr>ce_state := COMMAND_STATE_TIMEOUT\<rparr>"
    have "after_check now ts mr e = ?e" using exp False by (simp add: after_check_def)
    moreover have "foldl (\<lambda>e now. after_check now ts mr e) ?e checks = ?e"
      by (induction checks) (simp_all add: after_check_def expired_def)
    ultimately show ?thesis using False by simp
  qed
qed

definition check_all :: "int \<Rightarrow> int \<Rightarrow> command_manager \<Rightarrow> int list \<Rightarrow> command_manager" where
  "check_all ts mr m checks = foldl (\<lambda>m now. fst (cm_exec (Check_Timeouts now ts mr 16 16) m)) m checks"

lemma check_all_entries:
  assumes "0 \<le> ts" "0 \<le> mr"
  shows "entries (check_all ts mr m checks) = map (\<lambda>e. foldl (\<lambda>e now. after_check now ts mr e) e checks) (entries m)"
  unfolding check_all_def
proof (induction checks arbitrary: m)
  case Nil
  then show ?case by simp
next
  case (Cons now checks)
  have "fst (cm_exec (Check_Timeouts now ts mr 16 16) m) = m\<lparr>entries := map (after_check now ts mr) (entries m)\<rparr>"
    using assms check_timeouts_entries(2) [of now ts mr 16 16 m] by simp
  with Cons show ?case by simp
qed

lemma spaced_append: "spaced ts t (us @ [u]) \<Longrightarrow> spaced ts t us"
  by (induction us arbitrary: t) auto

lemma check_all_snoc: "check_all ts mr m (checks @ [now]) = fst (cm_exec (Check_Timeouts now ts mr 16 16) (check_all ts mr m checks))"
  by (simp add: check_all_def)

text \<open>What the checks leave alone, and when the next check finds the command due.\<close>

lemma checks_keep:
  "ce_sequence (foldl (\<lambda>e now. after_check now ts mr e) e checks) = ce_sequence e
   \<and> ce_target_node (foldl (\<lambda>e now. after_check now ts mr e) e checks) = ce_target_node e
   \<and> ce_fields (foldl (\<lambda>e now. after_check now ts mr e) e checks) = ce_fields e"
  by (induction checks arbitrary: e) (simp_all add: after_check_def)

lemma checks_due:
  "ce_state e = COMMAND_STATE_WAITING \<Longrightarrow> ce_retries e \<le> mr \<Longrightarrow> 0 \<le> ts \<Longrightarrow> spaced ts (ce_sent_time e) (checks @ [now]) \<Longrightarrow>
   to_retry now ts mr (foldl (\<lambda>e now. after_check now ts mr e) e checks) = (int (length checks) < mr - ce_retries e)
   \<and> to_time_out now ts mr (foldl (\<lambda>e now. after_check now ts mr e) e checks) = (int (length checks) = mr - ce_retries e)"
proof (induction checks arbitrary: e)
  case Nil
  then show ?case by (auto simp: to_retry_def to_time_out_def expired_def)
next
  case (Cons u checks)
  have exp: "expired u ts e" using Cons.prems by (simp add: expired_def)
  show ?case
  proof (cases "ce_retries e < mr")
    case True
    let ?e = "e\<lparr>ce_retries := ce_retries e + 1, ce_sent_time := u\<rparr>"
    have a: "after_check u ts mr e = ?e" using exp True by (simp add: after_check_def)
    have "to_retry now ts mr (foldl (\<lambda>e now. after_check now ts mr e) ?e checks) = (int (length checks) < mr - ce_retries ?e)
        \<and> to_time_out now ts mr (foldl (\<lambda>e now. after_check now ts mr e) ?e checks) = (int (length checks) = mr - ce_retries ?e)"
      by (rule Cons.IH) (use Cons.prems True in simp_all)
    then show ?thesis by (simp add: a) linarith
  next
    case False
    let ?e = "e\<lparr>ce_state := COMMAND_STATE_TIMEOUT\<rparr>"
    have a: "after_check u ts mr e = ?e" using exp False by (simp add: after_check_def)
    have "foldl (\<lambda>e now. after_check now ts mr e) ?e checks = ?e"
      by (induction checks) (simp_all add: after_check_def expired_def)
    with False Cons.prems(2) show ?thesis by (simp add: a to_retry_def to_time_out_def expired_def)
  qed
qed

text \<open>C17: An unanswered command does not wait for ever: take any checks at least the threshold apart, and
  one more. After the first ones the command is still waiting if there were no more than
  \<open>max_retries\<close>, else it has timed out, with the same number, target and fields; it is due for a retry
  in each of the first \<open>max_retries\<close> checks, and found timed out in the one after these and in no other.
  The next check reports the commands that are due, with number, target and fields at the same index,
  and the numbers of those that time out, in table order; both lists are cut after 16 entries, as in the
  server, although all the due commands are counted as retried.\<close>
theorem unanswered_command_times_out:
  assumes "i < length (entries m)" and "ce_state (entries m ! i) = COMMAND_STATE_WAITING"
    and "ce_retries (entries m ! i) = 0" and "0 \<le> timeout_sec"
    and "spaced timeout_sec (ce_sent_time (entries m ! i)) (checks @ [now])"
  shows "let m1 = check_all timeout_sec (int max_retries) m checks; e = entries m1 ! i;
             due = filter (to_retry now timeout_sec (int max_retries)) (entries m1);
             late = filter (to_time_out now timeout_sec (int max_retries)) (entries m1)
    in ce_state e = (if length checks \<le> max_retries then COMMAND_STATE_WAITING else COMMAND_STATE_TIMEOUT)
       \<and> ce_sequence e = ce_sequence (entries m ! i) \<and> ce_target_node e = ce_target_node (entries m ! i)
       \<and> ce_fields e = ce_fields (entries m ! i)
       \<and> (e \<in> set due) = (length checks < max_retries) \<and> (e \<in> set late) = (length checks = max_retries)
       \<and> command_manager_check_timeouts m1 now timeout_sec (int max_retries) (Some []) (Some []) (Some []) (Some [])
             16 (Some 0) (Some []) 16 (Some 0) =
           (True, check_all timeout_sec (int max_retries) m (checks @ [now]),
            \<lparr>retry_sequences = Some (map ce_sequence (take 16 due)),
             retry_target_nodes = Some (map (\<lambda>e. take 31 (ce_target_node e)) (take 16 due)),
             retry_fields = Some (map ce_fields (take 16 due)),
             retry_field_counts = Some (map (\<lambda>e. length (ce_fields e)) (take 16 due)), retries_counted = length (take 16 due),
             timeout_sequences = Some (map ce_sequence (take 16 late)), timeouts_counted = length (take 16 late)\<rparr>,
            Some (length (take 16 due)), Some (length (take 16 late)))"
proof -
  let ?m = "check_all timeout_sec (int max_retries) m checks"
  let ?e = "foldl (\<lambda>e now. after_check now timeout_sec (int max_retries) e) (entries m ! i) checks"
  have e: "entries ?m ! i = ?e" "i < length (entries ?m)"
    using assms(1) by (simp_all add: check_all_entries [OF assms(4)])
  have state: "ce_state ?e = (if length checks \<le> max_retries then COMMAND_STATE_WAITING else COMMAND_STATE_TIMEOUT)"
    using checks_entry [OF assms(2) _ assms(4) spaced_append [OF assms(5)], of "int max_retries"] assms(3) by simp
  have due: "to_retry now timeout_sec (int max_retries) ?e = (length checks < max_retries)"
    "to_time_out now timeout_sec (int max_retries) ?e = (length checks = max_retries)"
    using checks_due [OF assms(2) _ assms(4,5), of "int max_retries"] assms(3) by simp_all
  have mem: "?e \<in> set (entries ?m)" using e by (metis nth_mem)
  have next': "check_all timeout_sec (int max_retries) m (checks @ [now]) =
      ?m\<lparr>entries := map (after_check now timeout_sec (int max_retries)) (entries ?m)\<rparr>"
    unfolding check_all_snoc check_timeouts_entries(2) using assms(4) by simp
  show ?thesis
    unfolding Let_def next' e(1) using state due mem checks_keep [of timeout_sec "int max_retries" "entries m ! i" checks] assms(4)
    by (simp add: check_timeouts_eq Let_def)
qed

theorem unanswered_command_times_out_witness:
  "ce_state (entries (check_all 5 (int 1) \<lparr>entries = [sent_entry 1 ''N1'' ''GW'' None 0 100], next_sequence = 2\<rparr> [105, 111]) ! 0)
     = COMMAND_STATE_TIMEOUT"
  using unanswered_command_times_out [of 0 "\<lparr>entries = [sent_entry 1 ''N1'' ''GW'' None 0 100], next_sequence = 2\<rparr>" 5 "[105, 111]" 116 1]
  by (simp add: sent_entry_def Let_def)

end
