(* ===== verification/Node_Store.thy ===== *)
theory Node_Store
  imports Frame_Parser
begin

text \<open>
  \<^verbatim>\<open>server/node_store.c\<close>, \<^verbatim>\<open>server/node_store.h\<close>: the latest report of each node on the server.
  \<open>ns_entries\<close> holds the slots in use (\<open>entries[0..count)\<close>), so \<open>count\<close> is its length; \<open>True\<close>
  stands for the return code 0. The clock is an argument, -1 when \<open>time\<close> fails. The lemmas: the
  invariant, and the store as a map from node ids to the report and its time, where an update of a
  full store drops the report that is oldest.
\<close>

section \<open>State and operations\<close>

record node_entry =
  ne_used :: bool
  ne_last_update :: int
  ne_data :: frame_data

record node_store =
  ns_entries :: "node_entry list"
  ns_capacity :: nat

definition node_store_now :: "int \<Rightarrow> int" where
  "node_store_now clock = (if clock = -1 then 0 else clock)"

text \<open>The two flags tell whether \<open>malloc\<close> and \<open>calloc\<close> found memory.\<close>

definition node_store_create :: "nat \<Rightarrow> bool \<Rightarrow> bool \<Rightarrow> node_store option" where
  "node_store_create max_nodes store_allocated entries_allocated =
     (if max_nodes = 0 then None
      else if \<not> store_allocated then None
      else if \<not> entries_allocated then None
      else Some \<lparr>ns_entries = [], ns_capacity = max_nodes\<rparr>)"

definition node_store_find :: "node_store \<Rightarrow> string \<Rightarrow> nat option" where
  "node_store_find store node_id =
     find_index (\<lambda>e. ne_used e \<and> data_node_id (ne_data e) = node_id) (ns_entries store)"

definition node_store_find_const :: "node_store \<Rightarrow> string \<Rightarrow> node_entry option" where
  "node_store_find_const store node_id =
     map_option (\<lambda>i. ns_entries store ! i)
       (find_index (\<lambda>e. ne_used e \<and> data_node_id (ne_data e) = node_id) (ns_entries store))"

text \<open>The search for the slot with the oldest update, from index \<open>i\<close> on.\<close>

fun oldest_loop :: "node_entry list \<Rightarrow> nat \<Rightarrow> nat \<Rightarrow> nat \<Rightarrow> nat" where
  "oldest_loop es 0 i oldest = oldest"
| "oldest_loop es (Suc n) i oldest =
     oldest_loop es n (i + 1) (if ne_last_update (es ! i) < ne_last_update (es ! oldest) then i else oldest)"

definition oldest_slot :: "node_entry list \<Rightarrow> nat" where
  "oldest_slot es = oldest_loop es (length es - 1) 1 0"

definition node_store_update :: "node_store \<Rightarrow> frame_data option \<Rightarrow> int \<Rightarrow> bool \<times> node_store" where
  "node_store_update store data clock =
     (case data of
        None \<Rightarrow> (False, store)
      | Some d \<Rightarrow>
          if data_node_id d = [] then (False, store)
          else
            (let now = node_store_now clock; es = ns_entries store;
                 fresh = \<lparr>ne_used = True, ne_last_update = now, ne_data = d\<rparr>
             in (case node_store_find store (data_node_id d) of
                   Some i \<Rightarrow> (True, store\<lparr>ns_entries := es[i := (es ! i)\<lparr>ne_data := d, ne_last_update := now\<rparr>]\<rparr>)
                 | None \<Rightarrow>
                     if length es < ns_capacity store then (True, store\<lparr>ns_entries := es @ [fresh]\<rparr>)
                     else (True, store\<lparr>ns_entries := es[oldest_slot es := fresh]\<rparr>))))"

definition missing_id :: "string option \<Rightarrow> bool" where
  "missing_id node_id = (node_id = None \<or> node_id = Some [])"

definition node_store_query :: "node_store \<Rightarrow> string option \<Rightarrow> frame_data option \<Rightarrow> bool \<times> frame_data option" where
  "node_store_query store node_id out =
     (if missing_id node_id \<or> out = None then (False, out)
      else (case node_store_find store (the node_id) of
              None \<Rightarrow> (False, out)
            | Some i \<Rightarrow> (True, Some (ne_data (ns_entries store ! i)))))"

definition node_store_query_device_type :: "node_store \<Rightarrow> string option \<Rightarrow> frame_device_type option
    \<Rightarrow> bool \<times> frame_device_type option" where
  "node_store_query_device_type store node_id type_out =
     (if missing_id node_id \<or> type_out = None then (False, type_out)
      else (case node_store_find_const store (the node_id) of
              None \<Rightarrow> (False, type_out)
            | Some entry \<Rightarrow>
                (True, Some (frame_device_type_from_text
                   (frame_data_find_field (Some (ne_data entry)) (Some ''DEV''))))))"

definition node_store_is_online :: "node_store \<Rightarrow> string option \<Rightarrow> int \<Rightarrow> bool option \<Rightarrow> int
    \<Rightarrow> bool \<times> bool option" where
  "node_store_is_online store node_id timeout_sec online_out clock =
     (if missing_id node_id \<or> timeout_sec < 0 \<or> online_out = None then (False, online_out)
      else (case node_store_find_const store (the node_id) of
              None \<Rightarrow> (False, online_out)
            | Some entry \<Rightarrow> (True, Some (node_store_now clock - ne_last_update entry < timeout_sec))))"

text \<open>The callback gets the report, its time and the caller's state and tells whether to stop.\<close>

fun foreach_loop :: "(frame_data \<Rightarrow> int \<Rightarrow> 'u \<Rightarrow> bool \<times> 'u) \<Rightarrow> node_entry list \<Rightarrow> 'u \<Rightarrow> 'u" where
  "foreach_loop callback [] u = u"
| "foreach_loop callback (e # es) u =
     (if \<not> ne_used e then foreach_loop callback es u
      else (case callback (ne_data e) (ne_last_update e) u of
              (stop, u') \<Rightarrow> if stop then u' else foreach_loop callback es u'))"

definition node_store_foreach :: "node_store \<Rightarrow> (frame_data \<Rightarrow> int \<Rightarrow> 'u \<Rightarrow> bool \<times> 'u) option \<Rightarrow> 'u \<Rightarrow> 'u" where
  "node_store_foreach store callback u =
     (case callback of None \<Rightarrow> u | Some f \<Rightarrow> foreach_loop f (ns_entries store) u)"

section \<open>The oldest slot\<close>

lemma oldest_loop_min:
  "oldest < i \<Longrightarrow> i + n \<le> length es \<Longrightarrow> \<forall>j < i. ne_last_update (es ! oldest) \<le> ne_last_update (es ! j) \<Longrightarrow>
   oldest_loop es n i oldest < i + n
   \<and> (\<forall>j < i + n. ne_last_update (es ! oldest_loop es n i oldest) \<le> ne_last_update (es ! j))"
proof (induction n arbitrary: i oldest)
  case 0
  then show ?case by simp
next
  case (Suc n)
  let ?o = "if ne_last_update (es ! i) < ne_last_update (es ! oldest) then i else oldest"
  have "\<forall>j < i + 1. ne_last_update (es ! ?o) \<le> ne_last_update (es ! j)"
    using Suc.prems(3) by (auto simp: less_Suc_eq)
  with Suc.IH [of ?o "i + 1"] Suc.prems show ?case by simp
qed

lemma oldest_slot_min:
  assumes "es \<noteq> []"
  shows "oldest_slot es < length es"
    "\<forall>j < length es. ne_last_update (es ! oldest_slot es) \<le> ne_last_update (es ! j)"
  using oldest_loop_min [of 0 1 "length es - 1" es] assms by (auto simp: oldest_slot_def Suc_le_eq)

section \<open>The store as a map\<close>

definition entry_id :: "node_entry \<Rightarrow> string" where
  "entry_id e = data_node_id (ne_data e)"

definition ns_inv :: "node_store \<Rightarrow> bool" where
  "ns_inv s =
     (0 < ns_capacity s \<and> length (ns_entries s) \<le> ns_capacity s \<and> distinct (map entry_id (ns_entries s))
      \<and> list_all (\<lambda>e. ne_used e \<and> entry_id e \<noteq> []) (ns_entries s))"

definition ns_abs :: "node_store \<Rightarrow> string \<Rightarrow> (frame_data \<times> int) option" where
  "ns_abs s = table_map entry_id (\<lambda>e. (ne_data e, ne_last_update e)) (ns_entries s)"

lemma find_index_cong: "(\<And>x. x \<in> set xs \<Longrightarrow> P x = Q x) \<Longrightarrow> find_index P xs = find_index Q xs"
  by (induction xs) auto

lemma node_store_find_id:
  "ns_inv s \<Longrightarrow> find_index (\<lambda>e. ne_used e \<and> data_node_id (ne_data e) = i) (ns_entries s)
     = find_index (\<lambda>e. entry_id e = i) (ns_entries s)"
  by (rule find_index_cong) (auto simp: ns_inv_def list_all_iff entry_id_def)

lemma ns_find_None: "ns_inv s \<Longrightarrow> node_store_find s i = None \<longleftrightarrow> ns_abs s i = None"
  by (simp add: node_store_find_def node_store_find_id ns_abs_def table_map_None)

lemma ns_find_Some:
  assumes "ns_inv s" "node_store_find s i = Some k"
  shows "ns_abs s i = Some (ne_data (ns_entries s ! k), ne_last_update (ns_entries s ! k))"
    "k < length (ns_entries s)" "entry_id (ns_entries s ! k) = i"
  using assms table_map_Some [of entry_id i "ns_entries s" k "\<lambda>e. (ne_data e, ne_last_update e)"]
    find_index_SomeD [of "\<lambda>e. entry_id e = i" "ns_entries s" k]
  by (auto simp: node_store_find_def node_store_find_id ns_abs_def)

lemma ns_find_const: "node_store_find_const s i = map_option (\<lambda>k. ns_entries s ! k) (node_store_find s i)"
  by (simp add: node_store_find_const_def node_store_find_def)

text \<open>Replacing the slot of one node by another node.\<close>

lemma table_replace:
  assumes "distinct (map key xs)" "k < length xs" "key y \<notin> key ` set xs"
  shows "distinct (map key (xs[k := y]))"
    "table_map key val (xs[k := y]) = (table_map key val xs)(key (xs ! k) := None, key y \<mapsto> val y)"
proof -
  have "key y \<notin> set (map key xs)" using assms(3) by simp
  then show "distinct (map key (xs[k := y]))"
    using distinct_list_update [OF assms(1), of "key y" k] by (auto simp: map_update)
  show "table_map key val (xs[k := y]) = (table_map key val xs)(key (xs ! k) := None, key y \<mapsto> val y)"
    using assms
  proof (induction xs arbitrary: k)
    case Nil
    then show ?case by simp
  next
    case (Cons x xs)
    show ?case
    proof (cases k)
      case 0
      have "table_map key val xs (key x) = None"
        using Cons.prems(1) by (auto simp: table_map_def map_of_eq_None_iff image_image)
      then show ?thesis using 0 by (auto simp: table_map_def)
    next
      case (Suc j)
      then have "xs ! j \<in> set xs" using Cons.prems by simp
      with Cons.prems have "key x \<noteq> key (xs ! j)" "key x \<noteq> key y" by auto
      with Cons.IH [of j] Cons.prems Suc show ?thesis by (auto simp: table_map_def fun_upd_twist)
    qed
  qed
qed

lemma ns_update_cases:
  fixes clock :: int
  assumes inv: "ns_inv s" and id: "data_node_id d \<noteq> []"
  defines "A \<equiv> ns_abs s" and "now \<equiv> node_store_now clock"
  obtains s' where "node_store_update s (Some d) clock = (True, s')" "ns_inv s'"
    "ns_capacity s' = ns_capacity s"
    "if data_node_id d \<in> dom A \<or> card (dom A) < ns_capacity s
     then ns_abs s' = A(data_node_id d \<mapsto> (d, now))
     else \<exists>victim r t. A victim = Some (r, t) \<and> (\<forall>i r' t'. A i = Some (r', t') \<longrightarrow> t \<le> t')
        \<and> ns_abs s' = A(victim := None, data_node_id d \<mapsto> (d, now))"
proof -
  let ?i = "data_node_id d" and ?es = "ns_entries s"
  let ?fresh = "\<lparr>ne_used = True, ne_last_update = now, ne_data = d\<rparr>"
  let ?val = "\<lambda>e. (ne_data e, ne_last_update e)"
  have dist: "distinct (map entry_id ?es)" using inv by (simp add: ns_inv_def)
  have card: "card (dom A) = length ?es" by (simp add: A_def ns_abs_def card_table_map dist)
  show thesis
  proof (cases "node_store_find s ?i")
    case (Some k)
    let ?e = "(?es ! k)\<lparr>ne_data := d, ne_last_update := now\<rparr>"
    have f: "find_index (\<lambda>e. entry_id e = ?i) ?es = Some k"
      using Some inv by (simp add: node_store_find_def node_store_find_id)
    have key: "entry_id ?e = ?i" by (simp add: entry_id_def)
    have "ns_inv (s\<lparr>ns_entries := ?es[k := ?e]\<rparr>)"
      using inv distinct_keys_update [OF dist f key] set_update_subset_insert [of ?es k ?e] id ns_find_Some(2) [OF inv Some]
      by (auto simp: ns_inv_def list_all_iff key list_all_length)
    moreover have "ns_abs (s\<lparr>ns_entries := ?es[k := ?e]\<rparr>) = A(?i \<mapsto> (d, now))"
      using table_map_update [OF dist f key, of ?val] by (simp add: ns_abs_def A_def)
    moreover have "?i \<in> dom A" using ns_find_Some(1) [OF inv Some] by (auto simp: A_def)
    ultimately show ?thesis
      using Some id by (intro that [of "s\<lparr>ns_entries := ?es[k := ?e]\<rparr>"]) (simp_all add: node_store_update_def now_def Let_def)
  next
    case None
    then have none: "A ?i = None" using ns_find_None [OF inv, of ?i] by (simp add: A_def)
    have fresh_id: "entry_id ?fresh = ?i" by (simp add: entry_id_def)
    from none have new: "entry_id ?fresh \<notin> entry_id ` set ?es"
      using dom_table_map [of entry_id ?val ?es] by (auto simp: A_def ns_abs_def fresh_id domIff)
    show ?thesis
    proof (cases "length ?es < ns_capacity s")
      case True
      have "ns_inv (s\<lparr>ns_entries := ?es @ [?fresh]\<rparr>)"
        using inv new id True by (auto simp: ns_inv_def entry_id_def)
      moreover have "ns_abs (s\<lparr>ns_entries := ?es @ [?fresh]\<rparr>) = A(?i \<mapsto> (d, now))"
        using table_map_append [OF new, of ?val] by (simp add: ns_abs_def A_def fresh_id)
      ultimately show ?thesis
        using None id True card
        by (intro that [of "s\<lparr>ns_entries := ?es @ [?fresh]\<rparr>"]) (simp_all add: node_store_update_def now_def Let_def)
    next
      case False
      let ?k = "oldest_slot ?es"
      have "?es \<noteq> []" using False inv by (auto simp: ns_inv_def)
      note min = oldest_slot_min [OF this]
      let ?s = "s\<lparr>ns_entries := ?es[?k := ?fresh]\<rparr>"
      have inv': "ns_inv ?s"
        using inv table_replace(1) [OF dist min(1) new] set_update_subset_insert [of ?es ?k ?fresh] id
        by (auto simp: ns_inv_def list_all_iff fresh_id)
      have "ns_abs ?s = A(entry_id (?es ! ?k) := None, ?i \<mapsto> (d, now))"
        using table_replace(2) [OF dist min(1) new, of ?val] by (simp add: ns_abs_def A_def fresh_id)
      moreover have "A (entry_id (?es ! ?k)) = Some (?val (?es ! ?k))"
        using table_map_Some [OF find_index_key [OF dist min(1)], of ?val] by (simp add: A_def ns_abs_def)
      moreover have "ne_last_update (?es ! ?k) \<le> t'" if stored: "A i = Some (r', t')" for i r' t'
      proof -
        obtain e where "e \<in> set ?es" "t' = ne_last_update e"
          using map_of_SomeD [OF stored [unfolded A_def ns_abs_def table_map_def]] by auto
        then show ?thesis using min(2) by (auto simp: in_set_conv_nth)
      qed
      ultimately have "\<exists>victim r t. A victim = Some (r, t) \<and> (\<forall>i r' t'. A i = Some (r', t') \<longrightarrow> t \<le> t')
          \<and> ns_abs ?s = A(victim := None, ?i \<mapsto> (d, now))" by blast
      moreover have "\<not> (?i \<in> dom A \<or> card (dom A) < ns_capacity s)" using none False card by auto
      ultimately show ?thesis
        using None id False inv' by (intro that [of ?s]) (simp_all add: node_store_update_def now_def Let_def)
    qed
  qed
qed

section \<open>Properties of the store\<close>

text \<open>C25: Storing a report always succeeds for a node with an id and keeps the store well formed
  (distinct non-empty ids, never more than its capacity): it replaces the node's report, or adds it
  while there is room, and in a full store drops one report, whose time is the smallest of all.\<close>
theorem node_store_update_spec:
  assumes "ns_inv s" and "data_node_id d \<noteq> []"
  shows "case node_store_update s (Some d) clock of
     (ok, s') \<Rightarrow>
       ok \<and> ns_inv s' \<and> ns_capacity s' = ns_capacity s \<and>
       (if data_node_id d \<in> dom (ns_abs s) \<or> card (dom (ns_abs s)) < ns_capacity s
        then ns_abs s' = (ns_abs s)(data_node_id d \<mapsto> (d, node_store_now clock))
        else \<exists>victim r t. ns_abs s victim = Some (r, t)
          \<and> (\<forall>i r' t'. ns_abs s i = Some (r', t') \<longrightarrow> t \<le> t')
          \<and> ns_abs s' = (ns_abs s)(victim := None, data_node_id d \<mapsto> (d, node_store_now clock)))"
  by (rule ns_update_cases [OF assms, of clock]) auto

theorem node_store_update_spec_witness:
  "case node_store_update
      \<lparr>ns_entries = [\<lparr>ne_used = True, ne_last_update = 3, ne_data = zero_frame_data\<lparr>data_node_id := ''N1''\<rparr>\<rparr>],
       ns_capacity = 1\<rparr> (Some (zero_frame_data\<lparr>data_node_id := ''N2''\<rparr>)) 9 of
      (ok, s') \<Rightarrow> ok \<and> ns_inv s'"
  using node_store_update_spec
    [of "\<lparr>ns_entries = [\<lparr>ne_used = True, ne_last_update = 3, ne_data = zero_frame_data\<lparr>data_node_id := ''N1''\<rparr>\<rparr>],
       ns_capacity = 1\<rparr>" "zero_frame_data\<lparr>data_node_id := ''N2''\<rparr>" 9]
  by (auto simp: ns_inv_def entry_id_def)

text \<open>The reading operations answer from the stored map: the report last stored for the node, the
  device type its DEV field names (unknown when it has none), and whether its time is within the
  threshold; an unknown node or an invalid argument is an error that leaves the output unchanged.\<close>
theorem node_store_reads:
  assumes "ns_inv s"
  shows "(let stored = (\<lambda>valid. if missing_id node_id \<or> \<not> valid then None else ns_abs s (the node_id)) in
    node_store_query s node_id (Some old) =
      (case stored True of None \<Rightarrow> (False, Some old) | Some (r, t) \<Rightarrow> (True, Some r))
    \<and> node_store_query_device_type s node_id (Some ty) =
      (case stored True of None \<Rightarrow> (False, Some ty)
       | Some (r, t) \<Rightarrow> (True, Some (frame_device_type_from_text (frame_fields_find (Some (data_fields r)) (Some ''DEV'')))))
    \<and> node_store_is_online s node_id limit (Some b) clock =
      (case stored (0 \<le> limit) of None \<Rightarrow> (False, Some b)
       | Some (r, t) \<Rightarrow> (True, Some (node_store_now clock - t < limit))))"
proof -
  have "node_store_find s i = None \<and> ns_abs s i = None
      \<or> (\<exists>k. node_store_find s i = Some k
           \<and> ns_abs s i = Some (ne_data (ns_entries s ! k), ne_last_update (ns_entries s ! k)))" for i
    using ns_find_None [OF assms, of i] ns_find_Some(1) [OF assms, of i] by (cases "node_store_find s i") auto
  from this [of "the node_id"] show ?thesis
    by (auto simp: node_store_query_def node_store_query_device_type_def node_store_is_online_def ns_find_const
        frame_data_find_field_def Let_def)
qed

theorem node_store_reads_witness:
  "node_store_query
      \<lparr>ns_entries = [\<lparr>ne_used = True, ne_last_update = 3, ne_data = zero_frame_data\<lparr>data_node_id := ''N1''\<rparr>\<rparr>],
       ns_capacity = 1\<rparr> (Some ''N1'') (Some zero_frame_data)
     = (True, Some (zero_frame_data\<lparr>data_node_id := ''N1''\<rparr>))"
  using node_store_reads
    [of "\<lparr>ns_entries = [\<lparr>ne_used = True, ne_last_update = 3, ne_data = zero_frame_data\<lparr>data_node_id := ''N1''\<rparr>\<rparr>],
       ns_capacity = 1\<rparr>" "Some ''N1''" zero_frame_data]
  by (simp add: ns_inv_def entry_id_def missing_id_def ns_abs_def table_map_def)

text \<open>The visiting order is that of the slots, which is not the order of registration once a report
  was dropped: in a store of capacity 2 that received N1, N2 and then N3, N3 took the slot of N1 and
  is visited before N2.\<close>
theorem foreach_after_eviction:
  "(let report = (\<lambda>i. Some (zero_frame_data\<lparr>data_node_id := i\<rparr>));
        s1 = snd (node_store_update \<lparr>ns_entries = [], ns_capacity = 2\<rparr> (report ''N1'') 1);
        s2 = snd (node_store_update s1 (report ''N2'') 2);
        s3 = snd (node_store_update s2 (report ''N3'') 3)
    in node_store_foreach s3 (Some (\<lambda>d t visited. (False, visited @ [data_node_id d]))) []) = [''N3'', ''N2'']"
  by (simp add: node_store_update_def node_store_find_def node_store_now_def oldest_slot_def node_store_foreach_def
      numeral_2_eq_2 Let_def)

end
