(* ===== verification/Io_Loops.thy ===== *)
theory Io_Loops
  imports CBase
begin

text \<open>
  The parts of the program that talk to the operating system: \<^verbatim>\<open>gateway/tcp_client.c\<close>,
  \<^verbatim>\<open>gateway/serial_port.c\<close>, \<^verbatim>\<open>gateway/wifi_server.c\<close>, \<^verbatim>\<open>server/tcp_server.c\<close> and the send loops of
  \<^verbatim>\<open>gateway/wifi_client.c\<close> and \<^verbatim>\<open>server/main.c\<close>. What the system calls answer is an argument: a loop
  reads a list of answers, one per turn, and its result is \<open>None\<close> when it is still running at the end
  of the list. \<open>errno\<close> matters only where the code branches on it, so it is part of the answers.
  The lemmas: which bytes leave, when a loop returns, and that no descriptor is leaked.
\<close>

section \<open>Answers of the system\<close>

text \<open>\<open>EAGAIN\<close> and \<open>EWOULDBLOCK\<close> are one answer, a return value 0 is \<open>Count 0\<close>.\<close>

record revents =
  pollin :: bool
  pollout :: bool
  pollhup :: bool
  pollerr :: bool
  pollnval :: bool

datatype poll_answer = Poll_Interrupted | Poll_Failed | Poll_Timeout | Poll_Ready revents

datatype io_answer = Count nat | Interrupted | Would_Block | Failed

section \<open>Writing everything\<close>

text \<open>
  The loop that \<open>tcp_client_send_all\<close>, \<open>wifi_client_send_all\<close> and \<open>serial_port_write_all\<close> share:
  wait until the descriptor is writable, write what is left. A turn is the answer of \<open>poll\<close> and, when
  the descriptor is writable, that of the write, whose count the system keeps within what it was
  given. The result is whether everything was written (return code 0) and the bytes that were.
\<close>

type_synonym turn = "poll_answer \<times> io_answer"

fun write_loop :: "turn list \<Rightarrow> string \<Rightarrow> string \<Rightarrow> (bool \<times> string) option" where
  "write_loop ts [] written = Some (True, written)"
| "write_loop [] (b # bs) written = None"
| "write_loop ((p, w) # ts) (b # bs) written =
     (case p of
        Poll_Interrupted \<Rightarrow> write_loop ts (b # bs) written
      | Poll_Failed \<Rightarrow> Some (False, written)
      | Poll_Timeout \<Rightarrow> Some (False, written)
      | Poll_Ready ev \<Rightarrow>
          if pollerr ev \<or> pollhup ev \<or> pollnval ev then Some (False, written)
          else if \<not> pollout ev then write_loop ts (b # bs) written
          else
            (case w of
               Count k \<Rightarrow>
                 if 0 < k then write_loop ts (drop k (b # bs)) (written @ take k (b # bs))
                 else Some (False, written)
             | Interrupted \<Rightarrow> write_loop ts (b # bs) written
             | Would_Block \<Rightarrow> write_loop ts (b # bs) written
             | Failed \<Rightarrow> Some (False, written)))"

definition tcp_client_send_all :: "turn list \<Rightarrow> int \<Rightarrow> string option \<Rightarrow> nat \<Rightarrow> (bool \<times> string) option" where
  "tcp_client_send_all ts socket_fd data len =
     (if socket_fd < 0 \<or> (data = None \<and> 0 < len) then Some (False, [])
      else write_loop ts (take len (case data of None \<Rightarrow> [] | Some bytes \<Rightarrow> bytes)) [])"

definition wifi_client_send_all :: "turn list \<Rightarrow> int \<Rightarrow> string option \<Rightarrow> nat \<Rightarrow> (bool \<times> string) option" where
  "wifi_client_send_all ts fd data len =
     (if fd < 0 \<or> (data = None \<and> 0 < len) then Some (False, [])
      else write_loop ts (take len (case data of None \<Rightarrow> [] | Some bytes \<Rightarrow> bytes)) [])"

definition serial_port_write_all :: "turn list \<Rightarrow> int \<Rightarrow> string option \<Rightarrow> nat \<Rightarrow> int \<Rightarrow> (bool \<times> string) option" where
  "serial_port_write_all ts fd data len timeout_ms =
     (if fd < 0 \<or> (data = None \<and> 0 < len) \<or> timeout_ms < -1 then Some (False, [])
      else write_loop ts (take len (case data of None \<Rightarrow> [] | Some bytes \<Rightarrow> bytes)) [])"

text \<open>The server's own loop has no \<open>poll\<close> and gives up on everything but an interruption.\<close>

fun send_all_loop :: "io_answer list \<Rightarrow> string \<Rightarrow> string \<Rightarrow> (bool \<times> string) option" where
  "send_all_loop ws [] sent = Some (True, sent)"
| "send_all_loop [] (b # bs) sent = None"
| "send_all_loop (w # ws) (b # bs) sent =
     (case w of
        Count k \<Rightarrow>
          if 0 < k then send_all_loop ws (drop k (b # bs)) (sent @ take k (b # bs)) else Some (False, sent)
      | Interrupted \<Rightarrow> send_all_loop ws (b # bs) sent
      | Would_Block \<Rightarrow> Some (False, sent)
      | Failed \<Rightarrow> Some (False, sent))"

definition send_all :: "io_answer list \<Rightarrow> string \<Rightarrow> nat \<Rightarrow> (bool \<times> string) option" where
  "send_all ws data len = send_all_loop ws (take len data) []"

section \<open>Reading from the serial port\<close>

datatype serial_wait = SERIAL_WAIT_ERROR | SERIAL_WAIT_HANGUP | SERIAL_WAIT_TIMEOUT | SERIAL_WAIT_READABLE

definition serial_port_wait_readable :: "poll_answer \<Rightarrow> int \<Rightarrow> int \<Rightarrow> serial_wait" where
  "serial_port_wait_readable answer fd timeout_ms =
     (if fd < 0 \<or> timeout_ms < -1 then SERIAL_WAIT_ERROR
      else
        (case answer of
           Poll_Interrupted \<Rightarrow> SERIAL_WAIT_TIMEOUT
         | Poll_Failed \<Rightarrow> SERIAL_WAIT_ERROR
         | Poll_Timeout \<Rightarrow> SERIAL_WAIT_TIMEOUT
         | Poll_Ready ev \<Rightarrow>
             if pollnval ev then SERIAL_WAIT_ERROR
             else if pollerr ev then SERIAL_WAIT_ERROR
             else if pollin ev then SERIAL_WAIT_READABLE
             else if pollhup ev then SERIAL_WAIT_HANGUP
             else SERIAL_WAIT_TIMEOUT))"

text \<open>
  \<open>serial_port_read\<close> and \<open>recv\<close> answer with the bytes read (none at the end of the stream), with
  "would block", or with a failure.
\<close>

datatype read_answer = Bytes string | Read_Interrupted | Read_Would_Block | Read_Failed

fun read_retry :: "read_answer list \<Rightarrow> read_answer option" where
  "read_retry [] = None"
| "read_retry (a # as) = (if a = Read_Interrupted then read_retry as else Some a)"

definition serial_port_read :: "read_answer list \<Rightarrow> int \<Rightarrow> nat \<Rightarrow> read_answer option" where
  "serial_port_read answers fd buffer_size = (if fd < 0 \<or> buffer_size = 0 then Some Read_Failed else read_retry answers)"

section \<open>Opening descriptors\<close>

text \<open>
  The functions that open a descriptor return it, or -1, with the descriptors they opened and those
  they closed. The argument \<open>fd\<close> and the truth values are the answers of the system calls, in order.
\<close>

type_synonym open_result = "int \<times> int list \<times> int list"

definition no_call :: open_result where "no_call = (-1, [], [])"
definition not_opened :: open_result where "not_opened = (-1, [], [])"
definition given_up :: "int \<Rightarrow> open_result" where "given_up fd = (-1, [fd], [fd])"
definition opened :: "int \<Rightarrow> open_result" where "opened fd = (fd, [fd], [])"

definition baud_rate_to_speed :: "int \<Rightarrow> nat" where
  "baud_rate_to_speed baud_rate =
     (if baud_rate \<in> {1200, 2400, 4800, 9600, 19200, 38400, 57600, 115200} then nat baud_rate else 0)"

definition serial_port_open :: "string option \<Rightarrow> int \<Rightarrow> int \<Rightarrow> bool \<Rightarrow> bool \<Rightarrow> bool \<Rightarrow> bool \<Rightarrow> open_result" where
  "serial_port_open device baud_rate fd getattr_ok setspeed_ok setattr_ok flush_ok =
     (if device = None \<or> device = Some [] then no_call
      else if baud_rate_to_speed baud_rate = 0 then no_call
      else if fd < 0 then not_opened
      else if \<not> getattr_ok then given_up fd
      else if \<not> setspeed_ok then given_up fd
      else if \<not> setattr_ok then given_up fd
      else if \<not> flush_ok then given_up fd
      else opened fd)"

text \<open>When \<open>socket\<close> fails, \<open>tcp_client_connect\<close> still closes the negative descriptor.\<close>

definition tcp_client_connect :: "string option \<Rightarrow> int \<Rightarrow> bool \<Rightarrow> bool \<Rightarrow> open_result" where
  "tcp_client_connect server_ip fd aton_ok connect_ok =
     (if server_ip = None \<or> server_ip = Some [] then no_call
      else if fd < 0 then (-1, [], [fd])
      else if \<not> aton_ok then given_up fd
      else if \<not> connect_ok then given_up fd
      else opened fd)"

definition wifi_server_open :: "int \<Rightarrow> bool \<Rightarrow> bool \<Rightarrow> bool \<Rightarrow> open_result" where
  "wifi_server_open fd setsockopt_ok bind_ok listen_ok =
     (if fd < 0 then not_opened
      else if \<not> setsockopt_ok then given_up fd
      else if \<not> bind_ok then given_up fd
      else if \<not> listen_ok then given_up fd
      else opened fd)"

definition wifi_server_accept :: "int \<Rightarrow> int" where
  "wifi_server_accept client_fd = (if client_fd < 0 then -1 else client_fd)"

definition tcp_server_create :: "int \<Rightarrow> bool \<Rightarrow> bool \<Rightarrow> bool \<Rightarrow> open_result" where
  "tcp_server_create fd setsockopt_ok bind_ok listen_ok =
     (if fd < 0 then not_opened
      else if \<not> setsockopt_ok then given_up fd
      else if \<not> bind_ok then given_up fd
      else if \<not> listen_ok then given_up fd
      else opened fd)"

text \<open>
  \<open>client_fd\<close> is the answer of \<open>accept\<close>, \<open>peer\<close> what \<open>inet_ntop\<close> makes of the address of the peer
  (\<open>None\<close> on failure) and \<open>port\<close> its port; the name and the port are stored in the caller's variables.
\<close>

definition tcp_server_accept :: "int \<Rightarrow> string option \<Rightarrow> nat \<Rightarrow> u16 option \<Rightarrow> int \<Rightarrow> string option \<Rightarrow> u16
    \<Rightarrow> int \<times> string option \<times> u16 option" where
  "tcp_server_accept server_fd client_ip client_ip_size client_port client_fd peer port =
     (if server_fd < 0 \<or> client_ip = None \<or> client_ip_size = 0 \<or> client_port = None then (-1, client_ip, client_port)
      else if client_fd < 0 then (-1, client_ip, client_port)
      else (client_fd,
            Some (case peer of Some address \<Rightarrow> address | None \<Rightarrow> take (client_ip_size - 1) ''unknown''),
            Some port))"

text \<open>What the closing functions close.\<close>

definition wifi_server_close :: "int \<Rightarrow> int list" where "wifi_server_close fd = (if 0 \<le> fd then [fd] else [])"
definition tcp_server_close :: "int \<Rightarrow> int list" where "tcp_server_close fd = (if 0 \<le> fd then [fd] else [])"
definition tcp_client_close :: "int \<Rightarrow> int list" where "tcp_client_close socketfd = (if 0 \<le> socketfd then [socketfd] else [])"
definition serial_port_close :: "int \<Rightarrow> int list" where "serial_port_close fd = (if 0 \<le> fd then [fd] else [])"

text \<open>Setting \<open>O_NONBLOCK\<close>: \<open>flags\<close> is the answer of \<open>F_GETFL\<close>, negative on failure.\<close>

definition tcp_client_set_nonblocking :: "int \<Rightarrow> int \<Rightarrow> bool \<Rightarrow> bool" where
  "tcp_client_set_nonblocking socket_fd flags setfl_ok = (\<not> socket_fd < 0 \<and> \<not> flags < 0 \<and> setfl_ok)"

definition wifi_client_set_nonblocking :: "int \<Rightarrow> int \<Rightarrow> bool \<Rightarrow> bool" where
  "wifi_client_set_nonblocking fd flags setfl_ok = (\<not> fd < 0 \<and> \<not> flags < 0 \<and> setfl_ok)"

section \<open>What the write loops do\<close>

text \<open>
  From the caller's side a call that returns is described by one number, how many bytes the system
  took: the call succeeds exactly when it took all of them.
\<close>

definition send_call :: "nat \<Rightarrow> string \<Rightarrow> bool \<times> string" where
  "send_call k data = (length data \<le> k, take k data)"

lemma write_loop_prefix:
  "write_loop ts bytes written = Some (ok, out) \<Longrightarrow> \<exists>k. (ok, out) = (length bytes \<le> k, written @ take k bytes)"
proof (induction ts bytes written rule: write_loop.induct)
  case (1 ts written)
  then show ?case by auto
next
  case (2 b bs written)
  then show ?case by simp
next
  case (3 p w ts b bs written)
  have stop: ?case if "Some (ok, out) = Some (False, written)" using that by (intro exI [of _ 0]) simp
  show ?case
  proof (cases p)
    case (Poll_Ready ev)
    show ?thesis
    proof (cases "pollerr ev \<or> pollhup ev \<or> pollnval ev \<or> \<not> pollout ev \<or> (\<forall>k. w \<noteq> Count k)")
      case True
      then show ?thesis
        using 3 Poll_Ready stop by (cases w) (auto split: if_splits)
    next
      case False
      then obtain k where k: "w = Count k" "\<not> (pollerr ev \<or> pollhup ev \<or> pollnval ev)" "pollout ev" by auto
      show ?thesis
      proof (cases "0 < k")
        case True
        then have "write_loop ts (drop k (b # bs)) (written @ take k (b # bs)) = Some (ok, out)"
          using "3.prems" Poll_Ready k by simp
        from "3.IH"(3) [OF Poll_Ready k(2) _ k(1) True this] k(3) obtain j where
          "(ok, out) = (length (drop k (b # bs)) \<le> j, written @ take k (b # bs) @ take j (drop k (b # bs)))" by auto
        then show ?thesis by (intro exI [of _ "k + j"]) (auto simp: take_add simp del: take_Cons' drop_Cons')
      next
        case False
        then show ?thesis using "3.prems" Poll_Ready k stop by simp
      qed
    qed
  qed (use 3 stop in auto)
qed

text \<open>A turn that neither ends the loop nor writes a byte.\<close>

fun stalls :: "turn \<Rightarrow> bool" where
  "stalls (Poll_Interrupted, w) = True"
| "stalls (Poll_Ready ev, w) =
     (\<not> (pollerr ev \<or> pollhup ev \<or> pollnval ev) \<and> (\<not> pollout ev \<or> w = Interrupted \<or> w = Would_Block))"
| "stalls (p, w) = False"

lemma write_loop_returns:
  "length bytes \<le> length (filter (\<lambda>t. \<not> stalls t) ts) \<Longrightarrow> write_loop ts bytes written \<noteq> None"
proof (induction ts bytes written rule: write_loop.induct)
  case (3 p w ts b bs written)
  show ?case
  proof (cases "stalls (p, w)")
    case True
    with 3 show ?thesis by (cases "(p, w)" rule: stalls.cases) auto
  next
    case False
    show ?thesis
    proof (cases p)
      case (Poll_Ready ev)
      with False 3 show ?thesis by (cases w) auto
    qed (use False 3 in auto)
  qed
qed auto

lemma send_all_loop_prefix:
  "send_all_loop ws bytes sent = Some (ok, out) \<Longrightarrow> \<exists>k. (ok, out) = (length bytes \<le> k, sent @ take k bytes)"
proof (induction ws bytes sent rule: send_all_loop.induct)
  case (3 w ws b bs sent)
  have stop: ?case if "Some (ok, out) = Some (False, sent)" using that by (intro exI [of _ 0]) simp
  show ?case
  proof (cases w)
    case (Count k)
    show ?thesis
    proof (cases "0 < k")
      case True
      then have "send_all_loop ws (drop k (b # bs)) (sent @ take k (b # bs)) = Some (ok, out)"
        using "3.prems" Count by simp
      from "3.IH"(1) [OF Count True this] obtain j where
        "(ok, out) = (length (drop k (b # bs)) \<le> j, sent @ take k (b # bs) @ take j (drop k (b # bs)))" by auto
      then show ?thesis by (intro exI [of _ "k + j"]) (auto simp: take_add simp del: take_Cons' drop_Cons')
    next
      case False
      then show ?thesis using "3.prems" Count stop by simp
    qed
  qed (use 3 stop in auto)
qed auto

text \<open>The sending functions never send anything but a prefix of their data, in order and without
  gaps or repetitions, and they report success exactly when all of it was sent, whatever the system
  answers; with an invalid descriptor nothing is sent and the call fails.\<close>
theorem send_functions_spec:
  "(case tcp_client_send_all ts fd (Some data) (length data) of
      None \<Rightarrow> True | Some r \<Rightarrow> if fd < 0 then r = (False, []) else (\<exists>k. r = send_call k data))
   \<and> (case wifi_client_send_all ts fd (Some data) (length data) of
      None \<Rightarrow> True | Some r \<Rightarrow> if fd < 0 then r = (False, []) else (\<exists>k. r = send_call k data))
   \<and> (case serial_port_write_all ts fd (Some data) (length data) 1000 of
      None \<Rightarrow> True | Some r \<Rightarrow> if fd < 0 then r = (False, []) else (\<exists>k. r = send_call k data))
   \<and> (case send_all ws data (length data) of None \<Rightarrow> True | Some r \<Rightarrow> \<exists>k. r = send_call k data)"
proof (intro conjI)
  have loop: "case write_loop ts data [] of None \<Rightarrow> True | Some r \<Rightarrow> \<exists>k. r = send_call k data"
    using write_loop_prefix [of ts data "[]"] by (fastforce simp: send_call_def split: option.split)
  show "case tcp_client_send_all ts fd (Some data) (length data) of
      None \<Rightarrow> True | Some r \<Rightarrow> if fd < 0 then r = (False, []) else (\<exists>k. r = send_call k data)"
    using loop by (cases "fd < 0"; cases "write_loop ts data []") (simp_all add: tcp_client_send_all_def)
  show "case wifi_client_send_all ts fd (Some data) (length data) of
      None \<Rightarrow> True | Some r \<Rightarrow> if fd < 0 then r = (False, []) else (\<exists>k. r = send_call k data)"
    using loop by (cases "fd < 0"; cases "write_loop ts data []") (simp_all add: wifi_client_send_all_def)
  show "case serial_port_write_all ts fd (Some data) (length data) 1000 of
      None \<Rightarrow> True | Some r \<Rightarrow> if fd < 0 then r = (False, []) else (\<exists>k. r = send_call k data)"
    using loop by (cases "fd < 0"; cases "write_loop ts data []") (simp_all add: serial_port_write_all_def)
  show "case send_all ws data (length data) of None \<Rightarrow> True | Some r \<Rightarrow> \<exists>k. r = send_call k data"
    using send_all_loop_prefix [of ws data "[]"] by (fastforce simp: send_all_def send_call_def split: option.split)
qed

text \<open>C28: The sending functions return: as many turns as there are bytes suffice, not counting turns in
  which the system interrupts the call or takes nothing although it reported room.\<close>
theorem send_functions_return:
  assumes "length data \<le> length (filter (\<lambda>t. \<not> stalls t) ts)"
  shows "tcp_client_send_all ts fd (Some data) (length data) \<noteq> None
    \<and> wifi_client_send_all ts fd (Some data) (length data) \<noteq> None
    \<and> serial_port_write_all ts fd (Some data) (length data) timeout_ms \<noteq> None"
  using write_loop_returns [OF assms, of "[]"]
  by (simp add: tcp_client_send_all_def wifi_client_send_all_def serial_port_write_all_def del: not_None_eq)

definition writable :: revents where
  "writable = \<lparr>pollin = False, pollout = True, pollhup = False, pollerr = False, pollnval = False\<rparr>"

theorem send_functions_return_witness:
  "tcp_client_send_all [(Poll_Interrupted, Failed), (Poll_Ready writable, Count 2), (Poll_Ready writable, Would_Block),
     (Poll_Timeout, Failed), (Poll_Timeout, Failed)] 5 (Some ''abc'') 3 = Some (False, ''ab'')"
  using send_functions_return [of "''abc''" "[(Poll_Interrupted, Failed), (Poll_Ready writable, Count 2),
     (Poll_Ready writable, Would_Block), (Poll_Timeout, Failed), (Poll_Timeout, Failed)]" 5 0]
  by (simp add: tcp_client_send_all_def writable_def)

text \<open>No descriptor is leaked: each of the four functions that open one either returns exactly the
  descriptor it opened and leaves it open, or returns -1 and has closed every descriptor it opened.\<close>
theorem no_descriptor_leak:
  "list_all (\<lambda>(r, opens, closes). if 0 \<le> r then opens = [r] \<and> closes = [] else r = -1 \<and> set opens \<subseteq> set closes)
     [serial_port_open device baud_rate fd a b c d, tcp_client_connect server_ip fd a b,
      wifi_server_open fd a b c, tcp_server_create fd a b c]"
  by (simp add: serial_port_open_def tcp_client_connect_def wifi_server_open_def tcp_server_create_def
      no_call_def not_opened_def given_up_def opened_def)

text \<open>
  A call that returns, for the handlers: they see the number of bytes the system took for it. Calls
  are numbered, \<open>os i\<close> is that number for the \<open>i\<close>-th call of a log.
\<close>

record sent =
  sent_fd :: int
  sent_data :: string
  sent_count :: nat

definition send_logged :: "(nat \<Rightarrow> nat) \<Rightarrow> int \<Rightarrow> string \<Rightarrow> sent list \<Rightarrow> bool \<times> sent list" where
  "send_logged os fd data log =
     (if fd < 0 then (False, log)
      else (let k = os (length log) in
        (fst (send_call k data), log @ [\<lparr>sent_fd = fd, sent_data = data, sent_count = length (snd (send_call k data))\<rparr>])))"

end
