(* ===== verification/Gateway_App.thy ===== *)
theory Gateway_App
  imports Message_Json_Spec Message_Queue Device_Manager Io_Loops
begin

text \<open>
  \<^verbatim>\<open>gateway/gateway_app.c\<close>, \<^verbatim>\<open>gateway/gateway_app.h\<close>: what the gateway does with a frame or a line
  from a node and with a command from the server. The handlers run in different threads on shared
  state, the record \<open>gateway\<close>: the context with its counters, the device manager, and two logs of
  what the threads did, the calls of \<open>message_queue_push\<close> on the upstream queue and the calls of the
  sending functions. A third log, \<open>gw_history\<close>, is a history variable for the proofs: no operation
  reads it, and where the code queues a command, writes or refuses one, pushes a report or sends to
  the server, the operation also notes the event with its cause. A call of \<open>message_queue_push\<close> may wait, but its result is only printed, so the
  handlers go on with the same state whatever it is; \<open>Message_Queue\<close> says what becomes of the calls.
  Printing is left out. The lemmas: what is reported upstream, exactly once and only for the node a
  connection belongs to; a takeover answers the commands it takes away; a command from the server
  is queued or answered.
\<close>

section \<open>State\<close>

record gateway_context =
  gc_tcp_fd :: int
  gc_serial_fd :: int
  gc_next_tcp_retry :: int
  gc_next_serial_retry :: int
  gc_tcp_send :: u64
  gc_tcp_send_error :: u64
  gc_tcp_dropped :: u64
  gc_tcp_connections :: u64
  gc_tcp_connect_error :: u64
  gc_server_ip :: "string option"
  gc_server_port :: u16
  gc_decode_errors :: u64
  gc_serial_connections :: u64

text \<open>The events of the history: a command from the server is queued; a worker writes one to its node,
  fails to, or refuses it for the given reason; a report of a node is pushed; the thread of the
  server connection answers a command that it could not queue, or sends a message of the queue.\<close>

datatype event =
    Queued frame_command
  | Written device_transport frame_command sent
  | Send_Failed device_transport frame_command sent
  | Refused string frame_command
  | Reported string string
  | Route_Nack frame_command string sent
  | Upstream gateway_message sent

record gateway =
  gw_context :: gateway_context
  gw_devices :: device_manager
  gw_pushed :: "gateway_message list"
  gw_sent :: "sent list"
  gw_history :: "event list"

abbreviation log_event :: "event \<Rightarrow> gateway \<Rightarrow> gateway" where
  "log_event e g \<equiv> g\<lparr>gw_history := gw_history g @ [e]\<rparr>"

text \<open>The context of a connection to a node; \<open>up_thread\<close> is \<open>pthread_self()\<close> of its worker.\<close>

record upstream_context =
  up_transport :: device_transport
  up_device_fd :: int
  up_bound_node_id :: string
  up_thread :: nat

section \<open>Configuration\<close>

definition baud_is_supported :: "int \<Rightarrow> bool" where
  "baud_is_supported baud_rate = (baud_rate \<in> {1200, 2400, 4800, 9600, 19200, 38400, 57600, 115200})"

definition parse_port :: "string option \<Rightarrow> u16 option" where
  "parse_port text =
     (case text of
        None \<Rightarrow> None
      | Some s \<Rightarrow>
          if s = [] then None
          else (case strtol10 s of (v, rest, range_error) \<Rightarrow>
            if range_error \<or> rest = s \<or> rest \<noteq> [] \<or> v < 1 \<or> 65535 < v then None else Some (word_of_int v)))"

definition parse_baud_rate :: "string option \<Rightarrow> int option" where
  "parse_baud_rate text =
     (case text of
        None \<Rightarrow> None
      | Some s \<Rightarrow>
          if s = [] then None
          else (case strtol10 s of (v, rest, range_error) \<Rightarrow>
            if range_error \<or> rest = s \<or> rest \<noteq> [] \<or> v \<le> 0 \<or> 1000000 < v \<or> \<not> baud_is_supported v
            then None else Some v))"

definition gateway_app_init :: "string option \<Rightarrow> u16 \<Rightarrow> gateway_context" where
  "gateway_app_init server_ip server_port =
     \<lparr>gc_tcp_fd = -1, gc_serial_fd = -1, gc_next_tcp_retry = 0, gc_next_serial_retry = 0, gc_tcp_send = 0,
      gc_tcp_send_error = 0, gc_tcp_dropped = 0, gc_tcp_connections = 0, gc_tcp_connect_error = 0,
      gc_server_ip = server_ip, gc_server_port = server_port, gc_decode_errors = 0, gc_serial_connections = 0\<rparr>"

text \<open>The loop over \<open>argv[1..]\<close>; the first component is return code 0.\<close>

fun parse_args_loop :: "string list \<Rightarrow> string option \<Rightarrow> int \<Rightarrow> gateway_context
    \<Rightarrow> bool \<times> string option \<times> int \<times> gateway_context" where
  "parse_args_loop [] serial baud c = (True, serial, baud, c)"
| "parse_args_loop (a # args) serial baud c =
     (if a = ''--serial'' then
        (case args of [] \<Rightarrow> (False, serial, baud, c) | v # rest \<Rightarrow> parse_args_loop rest (Some v) baud c)
      else if a = ''--baud'' then
        (case args of
           [] \<Rightarrow> (False, serial, baud, c)
         | v # rest \<Rightarrow>
             (case parse_baud_rate (Some v) of
                None \<Rightarrow> (False, serial, baud, c)
              | Some b \<Rightarrow> parse_args_loop rest serial b c))
      else if a = ''--server'' then
        (case args of
           [] \<Rightarrow> (False, serial, baud, c)
         | v # rest \<Rightarrow> parse_args_loop rest serial baud (c\<lparr>gc_server_ip := Some v\<rparr>))
      else if a = ''--port'' then
        (case args of
           [] \<Rightarrow> (False, serial, baud, c)
         | v # rest \<Rightarrow>
             (case parse_port (Some v) of
                None \<Rightarrow> (False, serial, baud, c)
              | Some p \<Rightarrow> parse_args_loop rest serial baud (c\<lparr>gc_server_port := p\<rparr>)))
      else (False, serial, baud, c))"

definition gateway_app_parse_args :: "string list \<Rightarrow> gateway_context \<Rightarrow> bool \<times> string option \<times> int \<times> gateway_context" where
  "gateway_app_parse_args args c = parse_args_loop args None 9600 c"

section \<open>The connection to the server\<close>

text \<open>\<open>fd\<close>, \<open>aton_ok\<close> and \<open>connect_ok\<close> are the answers of the system in \<open>tcp_client_connect\<close>.\<close>

definition gateway_app_try_tcp_connect :: "int \<Rightarrow> int \<Rightarrow> bool \<Rightarrow> bool \<Rightarrow> gateway_context \<Rightarrow> gateway_context" where
  "gateway_app_try_tcp_connect now fd aton_ok connect_ok c =
     (if 0 \<le> gc_tcp_fd c then c
      else if now = -1 then c
      else if now < gc_next_tcp_retry c then c
      else
        (let c' = c\<lparr>gc_tcp_fd := fst (tcp_client_connect (gc_server_ip c) fd aton_ok connect_ok)\<rparr> in
         if gc_tcp_fd c' < 0
         then c'\<lparr>gc_tcp_connect_error := gc_tcp_connect_error c' + 1, gc_next_tcp_retry := now + 1\<rparr>
         else c'\<lparr>gc_tcp_connections := gc_tcp_connections c' + 1\<rparr>))"

definition gateway_app_close :: "gateway_context \<Rightarrow> gateway_context" where
  "gateway_app_close c = (if 0 \<le> gc_tcp_fd c then c\<lparr>gc_tcp_fd := -1\<rparr> else c)"

section \<open>Towards the server\<close>

definition gateway_app_enqueue_json :: "string \<Rightarrow> nat \<Rightarrow> gateway \<Rightarrow> gateway" where
  "gateway_app_enqueue_json json json_length g =
     (if GATEWAY_MESSAGE_MAX_SIZE < json_length then g
      else g\<lparr>gw_pushed := gw_pushed g @ [\<lparr>msg_data = take json_length json, msg_length = json_length\<rparr>]\<rparr>)"

text \<open>What the callers do with the result of a builder: nothing on failure.\<close>

definition enqueue_built :: "nat option \<times> string option \<Rightarrow> gateway \<Rightarrow> gateway" where
  "enqueue_built built g =
     (case built of
        (Some n, Some json) \<Rightarrow> gateway_app_enqueue_json json n g
      | _ \<Rightarrow> g)"

definition gateway_app_enqueue_nack :: "string option \<Rightarrow> u32 \<Rightarrow> string option \<Rightarrow> gateway \<Rightarrow> gateway" where
  "gateway_app_enqueue_nack node_id sequence error g =
     (if node_id = None \<or> node_id = Some [] \<or> error = None \<or> error = Some [] then g
      else if 32 \<le> length (the node_id) then g
      else if 32 \<le> length (the error) then g
      else enqueue_built
        (message_json_build_nack (Some []) 256
           (Some \<lparr>nack_node_id = the node_id, nack_sequence = sequence, nack_error = the error\<rparr>)) g)"

text \<open>One NACK for each of the commands that were taken out of a device's queue.\<close>

fun nack_commands :: "string \<Rightarrow> frame_command list \<Rightarrow> gateway \<Rightarrow> gateway" where
  "nack_commands error [] g = g"
| "nack_commands error (c # cs) g =
     nack_commands error cs
       (log_event (Refused error c) (gateway_app_enqueue_nack (Some (cmd_target_node c)) (cmd_sequence c) (Some error) g))"

definition gateway_app_touch_device :: "int \<Rightarrow> string \<Rightarrow> gateway \<times> upstream_context
    \<Rightarrow> bool \<times> gateway \<times> upstream_context" where
  "gateway_app_touch_device now node_id s =
     (case s of (g, up) \<Rightarrow>
       if node_id = [] then (False, g, up)
       else if up_bound_node_id up = [] then
         (if DEVICE_NODE_ID_SIZE \<le> length node_id then (False, g, up)
          else
            (case collected (device_manager_bind_connection_collect_commands (gw_devices g) (Some node_id)
                    (up_transport up) (up_device_fd up) (up_thread up)
                    (Some (replicate DEVICE_COMMAND_QUEUE_CAPACITY zero_frame_command))
                    DEVICE_COMMAND_QUEUE_CAPACITY (Some 0) now) of
               (result, devs, replaced_commands) \<Rightarrow>
                 if result \<noteq> DEVICE_MANAGER_OK then (False, g\<lparr>gw_devices := devs\<rparr>, up)
                 else (True, nack_commands ''transport_replaced'' replaced_commands (g\<lparr>gw_devices := devs\<rparr>),
                       up\<lparr>up_bound_node_id := node_id\<rparr>)))
       else if up_bound_node_id up \<noteq> node_id then (False, g, up)
       else
         (case device_manager_update_last_seen (gw_devices g) (Some node_id) now of
            (result, devs) \<Rightarrow> (result = DEVICE_MANAGER_OK, g\<lparr>gw_devices := devs\<rparr>, up)))"

definition decode_error :: "gateway \<Rightarrow> gateway" where
  "decode_error g =
     g\<lparr>gw_context := (gw_context g)\<lparr>gc_decode_errors := gc_decode_errors (gw_context g) + 1\<rparr>\<rparr>"

text \<open>The common end of all reporting branches: touch the device, then enqueue the built message.\<close>

definition note_report :: "string \<Rightarrow> nat option \<times> string option \<Rightarrow> gateway \<Rightarrow> gateway" where
  "note_report node_id built g =
     (case built of (Some n, Some json) \<Rightarrow> log_event (Reported node_id (take n json)) g | _ \<Rightarrow> g)"

definition touch_and_enqueue :: "int \<Rightarrow> string \<Rightarrow> nat option \<times> string option \<Rightarrow> gateway \<times> upstream_context
    \<Rightarrow> gateway \<times> upstream_context" where
  "touch_and_enqueue now node_id built s =
     (case gateway_app_touch_device now node_id s of
        (ok, g, up) \<Rightarrow> if \<not> ok then (g, up) else (note_report node_id built (enqueue_built built g), up))"

text \<open>The frame handler, by the type of the frame; the local structs and buffers start with arbitrary contents.\<close>

definition on_data_frame :: "int \<Rightarrow> parsed_frame \<Rightarrow> gateway \<times> upstream_context \<Rightarrow> gateway \<times> upstream_context" where
  "on_data_frame now frame s =
     (case frame_decode_data (Some frame) (Some zero_frame_data) of (ok, data) \<Rightarrow>
        if \<not> ok then (decode_error (fst s), snd s)
        else touch_and_enqueue now (data_node_id (the data)) (message_json_build_data (Some []) 256 data) s)"

definition on_ack_frame :: "int \<Rightarrow> parsed_frame \<Rightarrow> gateway \<times> upstream_context \<Rightarrow> gateway \<times> upstream_context" where
  "on_ack_frame now frame s =
     (case frame_decode_ack (Some frame) (Some zero_frame_ack) of (ok, ack) \<Rightarrow>
        if \<not> ok then (decode_error (fst s), snd s)
        else touch_and_enqueue now (ack_node_id (the ack)) (message_json_build_ack (Some []) 256 ack) s)"

definition on_nack_frame :: "int \<Rightarrow> parsed_frame \<Rightarrow> gateway \<times> upstream_context \<Rightarrow> gateway \<times> upstream_context" where
  "on_nack_frame now frame s =
     (case frame_decode_nack (Some frame) (Some zero_frame_nack) of (ok, nack) \<Rightarrow>
        if \<not> ok then (decode_error (fst s), snd s)
        else touch_and_enqueue now (nack_node_id (the nack)) (message_json_build_nack (Some []) 256 nack) s)"

definition gateway_app_on_frame :: "int \<Rightarrow> parsed_frame \<Rightarrow> gateway \<times> upstream_context \<Rightarrow> gateway \<times> upstream_context" where
  "gateway_app_on_frame now frame s =
     (case frame_get_message_type (Some frame) of
        FRAME_MESSAGE_DATA \<Rightarrow> on_data_frame now frame s
      | FRAME_MESSAGE_ACK \<Rightarrow> on_ack_frame now frame s
      | FRAME_MESSAGE_NACK \<Rightarrow> on_nack_frame now frame s
      | _ \<Rightarrow> (decode_error (fst s), snd s))"

lemmas on_frame_defs = gateway_app_on_frame_def on_data_frame_def on_ack_frame_def on_nack_frame_def

text \<open>The same for a line from a Wi-Fi node.\<close>

definition on_ack_line :: "int \<Rightarrow> string \<Rightarrow> gateway \<times> upstream_context \<Rightarrow> gateway \<times> upstream_context" where
  "on_ack_line now line s =
     (case message_json_decode_ack (Some line) (Some zero_frame_ack) of
        (None, ack) \<Rightarrow> (decode_error (fst s), snd s)
      | (Some n, ack) \<Rightarrow>
          touch_and_enqueue now (ack_node_id (the ack)) (message_json_build_ack (Some []) 256 ack) s)"

definition on_nack_line :: "int \<Rightarrow> string \<Rightarrow> gateway \<times> upstream_context \<Rightarrow> gateway \<times> upstream_context" where
  "on_nack_line now line s =
     (case message_json_decode_nack (Some line) (Some zero_frame_nack) of
        (None, nack) \<Rightarrow> (decode_error (fst s), snd s)
      | (Some n, nack) \<Rightarrow>
          touch_and_enqueue now (nack_node_id (the nack)) (message_json_build_nack (Some []) 256 nack) s)"

definition on_data_line :: "int \<Rightarrow> string \<Rightarrow> gateway \<times> upstream_context \<Rightarrow> gateway \<times> upstream_context" where
  "on_data_line now line s =
     (case message_json_decode_data (Some line) (Some zero_frame_data) of
        (None, data) \<Rightarrow> (decode_error (fst s), snd s)
      | (Some n, data) \<Rightarrow>
          touch_and_enqueue now (data_node_id (the data)) (message_json_build_data (Some []) 256 data) s)"

definition gateway_app_on_wifi_line :: "int \<Rightarrow> string \<Rightarrow> gateway \<times> upstream_context \<Rightarrow> gateway \<times> upstream_context" where
  "gateway_app_on_wifi_line now line s =
     (case message_json_peek_type (Some line) (Some []) 8 of (ok, type_name) \<Rightarrow>
        if \<not> ok then (decode_error (fst s), snd s)
        else if type_name = Some ''ACK'' then on_ack_line now line s
        else if type_name = Some ''NACK'' then on_nack_line now line s
        else on_data_line now line s)"

lemmas on_wifi_line_defs = gateway_app_on_wifi_line_def on_ack_line_def on_nack_line_def on_data_line_def

section \<open>Statistics\<close>

text \<open>The text that \<open>gateway_app_print_stats\<close> prints.\<close>

definition stats_line :: "string \<Rightarrow> u64 \<Rightarrow> string" where
  "stats_line name count = name @ print_u (unat count) @ [LF]"

definition gateway_app_print_stats :: "gateway_context option \<Rightarrow> frame_parser option \<Rightarrow> string" where
  "gateway_app_print_stats c parser =
     (if c = None \<or> parser = None then []
      else
        (let st = stats (the parser); g = the c in
         [LF] @ ''Gateway stopped'' @ [LF]
         @ stats_line ''Valid frames    : '' (valid_frames st)
         @ stats_line ''CRC errors      : '' (crc_errors st)
         @ stats_line ''Format errors   : '' (format_errors st)
         @ stats_line ''Overflow errors : '' (overflow_errors st)
         @ stats_line ''Discarded bytes : '' (discarded_bytes st)
         @ stats_line ''Decode errors   : '' (gc_decode_errors g)
         @ stats_line ''Serial connections : '' (gc_serial_connections g)
         @ stats_line ''TCP sent        : '' (gc_tcp_send g)
         @ stats_line ''TCP send errors : '' (gc_tcp_send_error g)
         @ stats_line ''TCP dropped     : '' (gc_tcp_dropped g)
         @ stats_line ''TCP connect errors : '' (gc_tcp_connect_error g)))"

section \<open>From the server\<close>

definition gateway_app_send_route_nack :: "(nat \<Rightarrow> nat) \<Rightarrow> frame_command option \<Rightarrow> string option \<Rightarrow> gateway
    \<Rightarrow> bool \<times> gateway" where
  "gateway_app_send_route_nack os command error g =
     (if command = None \<or> error = None \<or> error = Some [] then (False, g)
      else if gc_tcp_fd (gw_context g) < 0 then (False, g)
      else if 32 \<le> length (the error) then (False, g)
      else
        (case message_json_build_nack (Some []) 256
                (Some \<lparr>nack_node_id = cmd_target_node (the command), nack_sequence = cmd_sequence (the command),
                       nack_error = the error\<rparr>) of
           (None, _) \<Rightarrow> (False, g)
         | (Some n, json) \<Rightarrow>
             (case send_logged os (gc_tcp_fd (gw_context g)) (take n (the json)) (gw_sent g) of
                (sent_ok, log) \<Rightarrow>
                  (let c = gw_context g;
                       g' = log_event (Route_Nack (the command) (the error) (last log)) (g\<lparr>gw_sent := log\<rparr>) in
                   if \<not> sent_ok
                   then (False, g'\<lparr>gw_context := c\<lparr>gc_tcp_send_error := gc_tcp_send_error c + 1\<rparr>\<rparr>)
                   else (True, g'\<lparr>gw_context := c\<lparr>gc_tcp_send := gc_tcp_send c + 1\<rparr>\<rparr>)))))"

fun route_error :: "dm_result \<Rightarrow> string option" where
  "route_error DEVICE_MANAGER_OK = None"
| "route_error DEVICE_MANAGER_NOT_FOUND = Some ''route_not_found''"
| "route_error DEVICE_MANAGER_OFFLINE = Some ''route_offline''"
| "route_error DEVICE_MANAGER_QUEUE_FULL = Some ''route_queue_full''"
| "route_error _ = Some ''route_internal''"

definition gateway_app_on_tcp_line :: "(nat \<Rightarrow> nat) \<Rightarrow> string \<Rightarrow> gateway \<Rightarrow> gateway" where
  "gateway_app_on_tcp_line os line g =
     (case message_json_decode_command (Some line) (Some zero_frame_command) of
        (None, command) \<Rightarrow> decode_error g
      | (Some n, command) \<Rightarrow>
          (case device_manager_enqueue_command (gw_devices g) (Some (cmd_target_node (the command))) command of
             (result, devs) \<Rightarrow>
               (case route_error result of
                  None \<Rightarrow> log_event (Queued (the command)) (g\<lparr>gw_devices := devs\<rparr>)
                | Some error \<Rightarrow> snd (gateway_app_send_route_nack os command (Some error) (g\<lparr>gw_devices := devs\<rparr>)))))"

section \<open>What is pushed\<close>

definition to_message :: "string \<Rightarrow> gateway_message" where
  "to_message text = \<lparr>msg_data = text, msg_length = length text\<rparr>"

definition nack_message :: "string \<Rightarrow> frame_command \<Rightarrow> gateway_message" where
  "nack_message error c = to_message (json_nack_text
     \<lparr>nack_node_id = cmd_target_node c, nack_sequence = cmd_sequence c, nack_error = error\<rparr>)"

lemma enqueue_json_written [csimps]:
  "enqueue_built (json_written 256 text) g =
     (if length text < 256 then g\<lparr>gw_pushed := gw_pushed g @ [to_message text]\<rparr> else g)"
  by (simp add: enqueue_built_def json_written_def gateway_app_enqueue_json_def to_message_def mq_consts)

lemma note_json_written [csimps]:
  "note_report node (json_written 256 text) g = (if length text < 256 then log_event (Reported node text) g else g)"
  by (simp add: note_report_def json_written_def)

lemma json_nack_text_fits:
  "length (nack_node_id a) < 32 \<Longrightarrow> length (nack_error a) < 32 \<Longrightarrow> length (json_nack_text a) < 256"
proof -
  have "length (print_u (unat (nack_sequence a))) \<le> 10"
    using print_u_length [of "unat (nack_sequence a)" 10] unsigned_less [of "nack_sequence a", where 'a = nat] by simp
  then show "length (nack_node_id a) < 32 \<Longrightarrow> length (nack_error a) < 32 \<Longrightarrow> length (json_nack_text a) < 256"
    by (simp add: json_nack_text_def json_string_text_def json_seq_text_def json_quoted_def)
qed

lemma enqueue_nack_eq [csimps]:
  "node \<noteq> [] \<Longrightarrow> length node < 32 \<Longrightarrow> error \<noteq> [] \<Longrightarrow> length error < 32 \<Longrightarrow>
   gateway_app_enqueue_nack (Some node) sequence (Some error) g =
     g\<lparr>gw_pushed := gw_pushed g @ [to_message (json_nack_text
         \<lparr>nack_node_id = node, nack_sequence = sequence, nack_error = error\<rparr>)]\<rparr>"
  by (simp add: gateway_app_enqueue_nack_def csimps json_nack_text_fits)

definition routable :: "frame_command \<Rightarrow> bool" where
  "routable c = (cmd_target_node c \<noteq> [] \<and> length (cmd_target_node c) < 32)"

lemma nack_commands_eq:
  "list_all routable cs \<Longrightarrow> error \<noteq> [] \<Longrightarrow> length error < 32 \<Longrightarrow>
   nack_commands error cs g =
     g\<lparr>gw_pushed := gw_pushed g @ map (nack_message error) cs, gw_history := gw_history g @ map (Refused error) cs\<rparr>"
  by (induction cs arbitrary: g) (simp_all add: routable_def csimps nack_message_def)

section \<open>Reports\<close>

text \<open>The node that a frame or a line is from and the JSON text that reports it, if it is one to report.\<close>

definition frame_report :: "parsed_frame \<Rightarrow> (string \<times> string) option" where
  "frame_report frame =
     (case frame_get_message_type (Some frame) of
        FRAME_MESSAGE_DATA \<Rightarrow>
          (case frame_decode_data (Some frame) (Some zero_frame_data) of (ok, d) \<Rightarrow>
             if ok then Some (data_node_id (the d), json_data_text (the d)) else None)
      | FRAME_MESSAGE_ACK \<Rightarrow>
          (case frame_decode_ack (Some frame) (Some zero_frame_ack) of (ok, d) \<Rightarrow>
             if ok then Some (ack_node_id (the d), json_ack_text (the d)) else None)
      | FRAME_MESSAGE_NACK \<Rightarrow>
          (case frame_decode_nack (Some frame) (Some zero_frame_nack) of (ok, d) \<Rightarrow>
             if ok then Some (nack_node_id (the d), json_nack_text (the d)) else None)
      | _ \<Rightarrow> None)"

definition line_report :: "string \<Rightarrow> (string \<times> string) option" where
  "line_report line =
     (case message_json_peek_type (Some line) (Some []) 8 of (ok, type_name) \<Rightarrow>
        if \<not> ok then None
        else if type_name = Some ''ACK'' then
          (case message_json_decode_ack (Some line) (Some zero_frame_ack) of
             (r, d) \<Rightarrow> if r = None then None else Some (ack_node_id (the d), json_ack_text (the d)))
        else if type_name = Some ''NACK'' then
          (case message_json_decode_nack (Some line) (Some zero_frame_nack) of
             (r, d) \<Rightarrow> if r = None then None else Some (nack_node_id (the d), json_nack_text (the d)))
        else
          (case message_json_decode_data (Some line) (Some zero_frame_data) of
             (r, d) \<Rightarrow> if r = None then None else Some (data_node_id (the d), json_data_text (the d))))"

definition handle_report :: "int \<Rightarrow> (string \<times> string) option \<Rightarrow> gateway \<times> upstream_context \<Rightarrow> gateway \<times> upstream_context" where
  "handle_report now report s =
     (case report of
        None \<Rightarrow> (decode_error (fst s), snd s)
      | Some (node, text) \<Rightarrow> touch_and_enqueue now node (json_written 256 text) s)"

lemma decode_out_Some:
  "frame_decode_data (Some f) (Some a) = (ok, d) \<Longrightarrow> \<exists>x. d = Some x"
  "frame_decode_ack (Some f) (Some b) = (ok, e) \<Longrightarrow> \<exists>x. e = Some x"
  "frame_decode_nack (Some f) (Some c) = (ok, n) \<Longrightarrow> \<exists>x. n = Some x"
  by (auto simp: frame_decode_data_def frame_decode_ack_def frame_decode_nack_def Let_def
      split: prod.splits if_splits option.splits)

lemma on_frame_report: "gateway_app_on_frame now f s = handle_report now (frame_report f) s"
proof -
  obtain g up where s: "s = (g, up)" by (cases s)
  show ?thesis
  proof (cases "frame_get_message_type (Some f)")
    case FRAME_MESSAGE_DATA
    obtain ok d where d: "frame_decode_data (Some f) (Some zero_frame_data) = (ok, d)" by fastforce
    with decode_out_Some(1) obtain x where "d = Some x" by blast
    with d FRAME_MESSAGE_DATA show ?thesis
      by (simp add: on_frame_defs frame_report_def handle_report_def s csimps)
  next
    case FRAME_MESSAGE_ACK
    obtain ok d where d: "frame_decode_ack (Some f) (Some zero_frame_ack) = (ok, d)" by fastforce
    with decode_out_Some(2) obtain x where "d = Some x" by blast
    with d FRAME_MESSAGE_ACK show ?thesis
      by (simp add: on_frame_defs frame_report_def handle_report_def s csimps)
  next
    case FRAME_MESSAGE_NACK
    obtain ok d where d: "frame_decode_nack (Some f) (Some zero_frame_nack) = (ok, d)" by fastforce
    with decode_out_Some(3) obtain x where "d = Some x" by blast
    with d FRAME_MESSAGE_NACK show ?thesis
      by (simp add: on_frame_defs frame_report_def handle_report_def s csimps)
  qed (simp_all add: on_frame_defs frame_report_def handle_report_def s)
qed

lemma on_wifi_line_report: "gateway_app_on_wifi_line now line s = handle_report now (line_report line) s"
proof -
  obtain g up where s: "s = (g, up)" by (cases s)
  obtain ok ty where t: "message_json_peek_type (Some line) (Some []) 8 = (ok, ty)" by fastforce
  obtain ra a where a: "message_json_decode_ack (Some line) (Some zero_frame_ack) = (ra, a)" by fastforce
  obtain rn n where n: "message_json_decode_nack (Some line) (Some zero_frame_nack) = (rn, n)" by fastforce
  obtain rd d where d: "message_json_decode_data (Some line) (Some zero_frame_data) = (rd, d)" by fastforce
  have "ra \<noteq> None \<Longrightarrow> a \<noteq> None" using a
    by (auto simp: message_json_decode_ack_def split: option.splits prod.splits if_splits)
  moreover have "rn \<noteq> None \<Longrightarrow> n \<noteq> None" using n
    by (auto simp: message_json_decode_nack_def split: option.splits prod.splits if_splits)
  moreover have "rd \<noteq> None \<Longrightarrow> d \<noteq> None" using d
    by (auto simp: message_json_decode_data_def split: option.splits prod.splits if_splits)
  ultimately show ?thesis
    using t a n d
    by (cases ra; cases rn; cases rd)
      (auto simp: on_wifi_line_defs line_report_def handle_report_def s csimps)
qed

text \<open>A connection that is bound to a registered node: only the time stamp of the node changes.\<close>

definition same_queues :: "device_manager \<Rightarrow> device_manager \<Rightarrow> bool" where
  "same_queues m m' = (\<forall>i. map_option (\<lambda>v. v\<lparr>nv_last_seen := 0\<rparr>) (dm_abs m' i) = map_option (\<lambda>v. v\<lparr>nv_last_seen := 0\<rparr>) (dm_abs m i))"

lemma same_queues_dom: "same_queues m m' \<Longrightarrow> dom (dm_abs m') = dom (dm_abs m)"
proof -
  assume a: "same_queues m m'"
  have "dm_abs m' i = None \<longleftrightarrow> dm_abs m i = None" for i
    using a [unfolded same_queues_def, rule_format, of i] by (metis map_option_is_None)
  then show ?thesis by (auto simp: dom_def)
qed

lemma same_queues_trans: "same_queues m m' \<Longrightarrow> same_queues m' m'' \<Longrightarrow> same_queues m m''"
  by (simp add: same_queues_def)

lemma touch_bound:
  assumes "dm_inv (gw_devices g)" "node \<noteq> []" "up_bound_node_id up = node" "node \<in> dom (dm_abs (gw_devices g))" "now \<noteq> -1"
  obtains devs where "gateway_app_touch_device now node (g, up) = (True, g\<lparr>gw_devices := devs\<rparr>, up)"
    "dm_inv devs" "same_queues (gw_devices g) devs"
proof -
  obtain r devs where u: "device_manager_update_last_seen (gw_devices g) (Some node) now = (r, devs)" by fastforce
  from assms(4) obtain v where v: "dm_abs (gw_devices g) node = Some v" by auto
  have "refines (Update_Last_Seen (Some node) now) (gw_devices g)" by (rule dm_refinement [OF assms(1)])
  with u v assms(2,5) have s: "dm_inv devs" "r = DEVICE_MANAGER_OK"
    "dm_abs devs = (dm_abs (gw_devices g))(node \<mapsto> v\<lparr>nv_last_seen := now\<rparr>)"
    by (auto simp: refines_def no_node_id_def)
  show ?thesis
  proof (rule that [of devs])
    show "gateway_app_touch_device now node (g, up) = (True, g\<lparr>gw_devices := devs\<rparr>, up)"
      using assms(2,3) u s(2) by (simp add: gateway_app_touch_device_def)
    show "same_queues (gw_devices g) devs" by (simp add: same_queues_def s(3) v)
  qed (rule s(1))
qed

definition reports_for :: "string \<Rightarrow> (string \<times> string) option list \<Rightarrow> gateway_message list" where
  "reports_for node reports =
     map to_message (concat (map (\<lambda>r. case r of None \<Rightarrow> []
        | Some (n, t) \<Rightarrow> if n = node \<and> length t < 256 then [t] else []) reports))"

lemma handle_reports_bound:
  assumes "dm_inv (gw_devices g)" "up_bound_node_id up = node" "node \<noteq> []"
    "node \<in> dom (dm_abs (gw_devices g))" "now \<noteq> -1"
  shows "case fold (handle_report now) reports (g, up) of (g', up') \<Rightarrow>
     gw_pushed g' = gw_pushed g @ reports_for node reports \<and> up' = up \<and> gw_sent g' = gw_sent g
     \<and> dm_inv (gw_devices g') \<and> same_queues (gw_devices g) (gw_devices g')"
  using assms
proof (induction reports arbitrary: g)
  case Nil
  then show ?case by (simp add: reports_for_def same_queues_def)
next
  case (Cons r rs)
  have "\<exists>g1. handle_report now r (g, up) = (g1, up) \<and> gw_pushed g1 = gw_pushed g @ reports_for node [r]
      \<and> gw_sent g1 = gw_sent g \<and> dm_inv (gw_devices g1) \<and> same_queues (gw_devices g) (gw_devices g1)"
  proof (cases r)
    case None
    with Cons.prems(1) show ?thesis
      by (simp add: handle_report_def decode_error_def reports_for_def same_queues_def)
  next
    case (Some nt)
    obtain n t where nt: "nt = (n, t)" by fastforce
    show ?thesis
    proof (cases "n = node")
      case True
      from touch_bound [OF Cons.prems(1,3,2,4,5)] obtain devs where
        "gateway_app_touch_device now node (g, up) = (True, g\<lparr>gw_devices := devs\<rparr>, up)"
        "dm_inv devs" "same_queues (gw_devices g) devs" .
      with Some nt True show ?thesis
        by (auto simp: handle_report_def touch_and_enqueue_def csimps reports_for_def)
    next
      case False
      then have "gateway_app_touch_device now n (g, up) = (False, g, up)"
        using Cons.prems(2,3) by (simp add: gateway_app_touch_device_def)
      with Some nt False Cons.prems(1) show ?thesis
        by (simp add: handle_report_def touch_and_enqueue_def reports_for_def same_queues_def)
    qed
  qed
  then obtain g1 where g1: "handle_report now r (g, up) = (g1, up)"
    "gw_pushed g1 = gw_pushed g @ reports_for node [r]" "gw_sent g1 = gw_sent g"
    "dm_inv (gw_devices g1)" "same_queues (gw_devices g) (gw_devices g1)" by blast
  have "node \<in> dom (dm_abs (gw_devices g1))" using same_queues_dom [OF g1(5)] Cons.prems(4) by simp
  from Cons.IH [OF g1(4) Cons.prems(2,3) this Cons.prems(5)] g1
  show ?case by (auto simp: reports_for_def intro: same_queues_trans)
qed

lemma fold_reports:
  "fold (gateway_app_on_frame now) frames = fold (handle_report now) (map frame_report frames)"
  "fold (gateway_app_on_wifi_line now) lines = fold (handle_report now) (map line_report lines)"
  by (simp_all add: fold_map comp_def on_frame_report [abs_def] on_wifi_line_report [abs_def])

text \<open>A bound connection reports exactly what its node sends: of any sequence of frames (or of JSON
  lines, on Wi-Fi), each that decodes and names the bound node is pushed to the server once, in
  order, as the JSON text of what it decodes to, provided this text fits 255 bytes; frames that name
  another node or do not decode push nothing; the pending commands of all nodes are left alone.\<close>
theorem bound_connection_reports:
  assumes "dm_inv (gw_devices g)" "up_bound_node_id up = node" "node \<noteq> []"
    "node \<in> dom (dm_abs (gw_devices g))" "now \<noteq> -1"
  shows "(case fold (gateway_app_on_frame now) frames (g, up) of (g', up') \<Rightarrow>
       gw_pushed g' = gw_pushed g @ reports_for node (map frame_report frames) \<and> up' = up
       \<and> dm_inv (gw_devices g') \<and> same_queues (gw_devices g) (gw_devices g'))
    \<and> (case fold (gateway_app_on_wifi_line now) lines (g, up) of (g', up') \<Rightarrow>
       gw_pushed g' = gw_pushed g @ reports_for node (map line_report lines) \<and> up' = up
       \<and> dm_inv (gw_devices g') \<and> same_queues (gw_devices g) (gw_devices g'))"
  using handle_reports_bound [OF assms, of "map frame_report frames"] handle_reports_bound [OF assms, of "map line_report lines"]
  by (auto simp: fold_reports)

text \<open>A gateway with one node on Bluetooth that has two commands pending.\<close>

definition example_command :: "u32 \<Rightarrow> frame_command" where
  "example_command n = \<lparr>cmd_target_node = ''N1'', cmd_sender = ''GATEWAY'', cmd_sequence = n,
     cmd_fields = [\<lparr>kv_key = ''LED'', kv_value = ''1''\<rparr>]\<rparr>"

definition example_device :: device where
  "example_device = dev_put (example_command 2) (dev_put (example_command 1)
     (zero_device\<lparr>dev_node_id := ''N1'', dev_fd := 5, dev_online := True, dev_thread_id := 1, dev_last_seen := 10\<rparr>))"

definition example_gateway :: gateway where
  "example_gateway = \<lparr>gw_context = gateway_app_init (Some ''127.0.0.1'') 9000, gw_devices = \<lparr>devices = [example_device]\<rparr>,
     gw_pushed = [], gw_sent = [], gw_history = []\<rparr>"

definition example_upstream :: "string \<Rightarrow> nat \<Rightarrow> upstream_context" where
  "example_upstream node thread = \<lparr>up_transport = DEVICE_TRANSPORT_BLUETOOTH, up_device_fd = 5,
     up_bound_node_id = node, up_thread = thread\<rparr>"

lemma example_view:
  "view example_device = \<lparr>nv_transport = DEVICE_TRANSPORT_BLUETOOTH, nv_fd = 5, nv_online = True, nv_thread_id = 1,
     nv_last_seen = 10, nv_pending = [example_command 1, example_command 2]\<rparr>"
  by (simp add: view_def example_device_def dev_put_def dev_pending_def ring_contents_def zero_device_def dm_consts)

lemma example_gateway_inv:
  "dm_inv (gw_devices example_gateway)" "dm_abs (gw_devices example_gateway) = [''N1'' \<mapsto> view example_device]"
proof -
  have p: "dev_pending example_device = [example_command 1, example_command 2]"
    using example_view by (simp add: view_def)
  have "dev_queue_inv example_device"
    by (simp add: dev_queue_inv_def example_device_def dev_put_def zero_device_def dm_consts)
  then show "dm_inv (gw_devices example_gateway)"
    using p by (simp add: example_gateway_def dm_inv_def dev_ok_def dm_consts example_command_def)
      (simp add: example_device_def dev_put_def)
  show "dm_abs (gw_devices example_gateway) = [''N1'' \<mapsto> view example_device]"
    by (simp add: example_gateway_def dm_abs_def table_map_def fun_eq_iff example_device_def dev_put_def)
qed

theorem bound_connection_reports_witness:
  "\<exists>g' up'. fold (gateway_app_on_wifi_line 11)
       [json_nack_text \<lparr>nack_node_id = ''N1'', nack_sequence = 1, nack_error = ''busy''\<rparr>, ''noise'',
        json_nack_text \<lparr>nack_node_id = ''N2'', nack_sequence = 1, nack_error = ''busy''\<rparr>]
       (example_gateway, example_upstream ''N1'' 1) = (g', up')
     \<and> gw_pushed g' = [to_message (json_nack_text \<lparr>nack_node_id = ''N1'', nack_sequence = 1, nack_error = ''busy''\<rparr>)]"
proof -
  have nack: "line_report (json_nack_text \<lparr>nack_node_id = i, nack_sequence = 1, nack_error = ''busy''\<rparr>) =
      Some (i, json_nack_text \<lparr>nack_node_id = i, nack_sequence = 1, nack_error = ''busy''\<rparr>)"
    if "json_id_ok i" for i
    using that parse_nack_text [of "\<lparr>nack_node_id = i, nack_sequence = 1, nack_error = ''busy''\<rparr>"]
    by (simp add: line_report_def message_json_peek_type_def message_json_decode_nack_def read_object_def
        json_id_ok_def json_clean_def)
  have noise: "line_report ''noise'' = None"
    by (simp add: line_report_def message_json_peek_type_def json_parse_object_def json_skip_whitespace_def
        is_json_space_def drop_char_def)
  have n: "length (json_nack_text \<lparr>nack_node_id = ''N1'', nack_sequence = 1, nack_error = ''busy''\<rparr>) < 256"
    by (rule json_nack_text_fits) simp_all
  show ?thesis
    using bound_connection_reports [OF example_gateway_inv(1), of "example_upstream ''N1'' 1" "''N1''" 11 "[]"
       "[json_nack_text \<lparr>nack_node_id = ''N1'', nack_sequence = 1, nack_error = ''busy''\<rparr>, ''noise'',
        json_nack_text \<lparr>nack_node_id = ''N2'', nack_sequence = 1, nack_error = ''busy''\<rparr>]"]
    by (simp add: example_upstream_def example_gateway_inv(2) reports_for_def nack noise n json_id_ok_def json_clean_def
        split: prod.splits) (simp add: example_gateway_def)
qed

text \<open>The first report of a connection binds it; what was pending for the node is answered.\<close>

lemma touch_unbound:
  assumes "dm_inv (gw_devices g)" "node \<noteq> []" "length node < 32" "up_bound_node_id up = []" "0 \<le> up_device_fd up"
    and v: "dm_abs (gw_devices g) node = Some v" "nv_transport v = up_transport up"
      "\<not> (nv_online v \<and> nv_fd v = up_device_fd up \<and> nv_thread_id v = up_thread up)"
  obtains devs where "gateway_app_touch_device now node (g, up) =
      (True, g\<lparr>gw_devices := devs, gw_pushed := gw_pushed g @ map (nack_message ''transport_replaced'') (nv_pending v),
         gw_history := gw_history g @ map (Refused ''transport_replaced'') (nv_pending v)\<rparr>,
       up\<lparr>up_bound_node_id := node\<rparr>)"
    "dm_inv devs" "dm_abs devs = (dm_abs (gw_devices g))
        (node \<mapsto> fresh_view (up_transport up) (up_device_fd up) True (up_thread up) now)"
proof -
  let ?op = "Bind (Some node) (up_transport up) (up_device_fd up) (up_thread up) (Some 8) now"
  obtain k where k: "device_manager_find_index_locked (gw_devices g) node = Some k"
    using v(1) dm_find_None [of "gw_devices g" node] by auto
  note kd = dm_find_Some [OF k assms(1)]
  have pending: "list_all routable (nv_pending v)" "length (nv_pending v) \<le> 8"
  proof -
    have view: "nv_pending v = dev_pending (devices (gw_devices g) ! k)" using kd(1) v(1) by (simp add: view_def)
    show "list_all routable (nv_pending v)"
      using kd(2,3) assms(2,3) unfolding view by (auto simp: dev_ok_def list_all_iff routable_def)
    show "length (nv_pending v) \<le> 8"
      using kd(3) unfolding view by (auto simp: dev_ok_def dev_queue_inv_def dm_consts dev_pending_def ring_contents_def)
  qed
  obtain r devs out where e: "dm_exec ?op (gw_devices g) = (r, devs, out)" by (cases "dm_exec ?op (gw_devices g)")
  have s: "dm_inv devs" "r = DEVICE_MANAGER_OK" "out = nv_pending v"
    "dm_abs devs = (dm_abs (gw_devices g))(node \<mapsto> fresh_view (up_transport up) (up_device_fd up) True (up_thread up) now)"
    using dm_refinement [OF assms(1), of ?op] e assms(2,3,5) v pending(2)
    by (auto simp: refines_def no_node_id_def)
  have "collected (device_manager_bind_connection_collect_commands (gw_devices g) (Some node)
      (up_transport up) (up_device_fd up) (up_thread up) (Some (replicate 8 zero_frame_command)) 8 (Some 0) now)
      = (r, devs, out)" using e by simp
  then show ?thesis
    using s assms(2-4) nack_commands_eq [OF pending(1), of "''transport_replaced''"]
    by (intro that [of devs]) (simp_all add: gateway_app_touch_device_def dm_consts)
qed

text \<open>A takeover loses no command: when a worker without identity receives its first report, for a
  node that is registered with another connection of the same transport, the node now belongs to
  its connection with an empty queue, every command that was pending is answered with a
  \<open>transport_replaced\<close> NACK for its target and sequence number, once and in order, and then the
  report itself is pushed.\<close>
theorem takeover_answers_commands:
  assumes "dm_inv (gw_devices g)" "node \<noteq> []" "length node < 32" "up_bound_node_id up = []" "0 \<le> up_device_fd up"
    and "dm_abs (gw_devices g) node = Some v" "nv_transport v = up_transport up"
      "\<not> (nv_online v \<and> nv_fd v = up_device_fd up \<and> nv_thread_id v = up_thread up)"
    and "frame_report f = Some (node, text)"
  shows "case gateway_app_on_frame now f (g, up) of (g', up') \<Rightarrow>
     gw_pushed g' = gw_pushed g @ map (nack_message ''transport_replaced'') (nv_pending v)
        @ (if length text < 256 then [to_message text] else [])
     \<and> up_bound_node_id up' = node \<and> dm_inv (gw_devices g')
     \<and> dm_abs (gw_devices g') = (dm_abs (gw_devices g))
         (node \<mapsto> fresh_view (up_transport up) (up_device_fd up) True (up_thread up) now)"
proof -
  from touch_unbound [OF assms(1-8), of now] obtain devs where t:
    "gateway_app_touch_device now node (g, up) =
      (True, g\<lparr>gw_devices := devs, gw_pushed := gw_pushed g @ map (nack_message ''transport_replaced'') (nv_pending v),
         gw_history := gw_history g @ map (Refused ''transport_replaced'') (nv_pending v)\<rparr>,
       up\<lparr>up_bound_node_id := node\<rparr>)"
    "dm_inv devs" "dm_abs devs = (dm_abs (gw_devices g))
        (node \<mapsto> fresh_view (up_transport up) (up_device_fd up) True (up_thread up) now)" by blast
  show ?thesis
    unfolding on_frame_report handle_report_def assms(9)
    using t by (simp add: touch_and_enqueue_def csimps)
qed

lemma example_frame_report:
  "frame_report \<lparr>raw = [], payload = ''1,N1,000003,NACK,ERR=busy'', received_crc = 0, calculated_crc = 0\<rparr> =
     Some (''N1'', json_nack_text \<lparr>nack_node_id = ''N1'', nack_sequence = 3, nack_error = ''busy''\<rparr>)"
proof -
  have t: "strtok_all (CHR '','') ''1,N1,000003,NACK,ERR=busy'' = [''1'', ''N1'', ''000003'', ''NACK'', ''ERR=busy'']"
    by (simp add: strtok_all_def)
  have n: "parse_uint32_decimal ''000003'' = Some 3"
    by (simp add: parse_uint32_decimal_def strtoul10_def is_space_def strip_sign_def is_digit_def dec_value_def digit_val_def)
  show ?thesis
    by (simp add: frame_report_def frame_get_message_type_def frame_decode_nack_def t n frame_consts)
qed

theorem takeover_answers_commands_witness:
  "\<exists>g' up'. gateway_app_on_frame 20
       \<lparr>raw = [], payload = ''1,N1,000003,NACK,ERR=busy'', received_crc = 0, calculated_crc = 0\<rparr>
       (example_gateway, example_upstream [] 2) = (g', up')
     \<and> gw_pushed g' = [nack_message ''transport_replaced'' (example_command 1),
          nack_message ''transport_replaced'' (example_command 2),
          to_message (json_nack_text \<lparr>nack_node_id = ''N1'', nack_sequence = 3, nack_error = ''busy''\<rparr>)]
     \<and> up_bound_node_id up' = ''N1''"
proof -
  have n: "length (json_nack_text \<lparr>nack_node_id = ''N1'', nack_sequence = 3, nack_error = ''busy''\<rparr>) < 256"
    by (rule json_nack_text_fits) simp_all
  show ?thesis
    using takeover_answers_commands [OF example_gateway_inv(1), of "''N1''" "example_upstream [] 2" "view example_device", OF _ _ _ _ _ _ _ example_frame_report, of 20] n
    by (auto simp: example_upstream_def example_gateway_inv(2) example_view split: prod.splits)
      (simp_all add: example_gateway_def)
qed

section \<open>Commands\<close>

lemma enqueue_unchanged:
  "device_manager_enqueue_command m i c = (r, m') \<Longrightarrow> r \<noteq> DEVICE_MANAGER_OK \<Longrightarrow> m' = m"
  by (auto simp: device_manager_enqueue_command_def Let_def split: if_splits option.splits)

lemma decode_command_fits:
  assumes "message_json_decode_command (Some line) (Some zero_frame_command) = (Some n, Some c)"
  shows "length (cmd_target_node c) < 32"
  using assms by (auto simp: message_json_decode_command_def split: option.splits if_splits prod.splits)

lemma send_route_nack_eq:
  assumes "error \<noteq> []" "length error < 32" "length (cmd_target_node c) < 32"
  shows "\<exists>b g'. gateway_app_send_route_nack os (Some c) (Some error) g = (b, g')
     \<and> gw_devices g' = gw_devices g \<and> gw_pushed g' = gw_pushed g
     \<and> map (\<lambda>s. (sent_fd s, sent_data s)) (gw_sent g') = map (\<lambda>s. (sent_fd s, sent_data s)) (gw_sent g) @
         (if gc_tcp_fd (gw_context g) < 0 then []
          else [(gc_tcp_fd (gw_context g), msg_data (nack_message error c))])
     \<and> gw_history g' = gw_history g @
         (if gc_tcp_fd (gw_context g) < 0 then [] else [Route_Nack c error (last (gw_sent g'))])"
proof -
  let ?a = "\<lparr>nack_node_id = cmd_target_node c, nack_sequence = cmd_sequence c, nack_error = error\<rparr>"
  have "length (json_nack_text ?a) < 256" by (rule json_nack_text_fits) (simp_all add: assms)
  then show ?thesis
    using assms
    by (auto simp: gateway_app_send_route_nack_def csimps json_written_def send_logged_def Let_def
        nack_message_def to_message_def split: prod.splits)
qed

lemma route_error_ok:
  "route_error r = None \<longleftrightarrow> r = DEVICE_MANAGER_OK"
  "route_error r = Some e \<Longrightarrow> e \<noteq> [] \<and> length e < 32"
  by (cases r; auto)+

text \<open>C27: A command from the server is queued or answered: a line that decodes to a command is put at
  the end of the queue of its target exactly when the target is online with room, and then nothing
  is answered; otherwise no queue changes and, while the server is connected, exactly one NACK is
  sent back at once, which names the command's target and sequence number, by which the server finds
  it, and the reason (not found, offline, queue full, internal). The event that the history notes is
  the one that happened.\<close>
theorem command_is_queued_or_answered:
  assumes "dm_inv (gw_devices g)"
    and "message_json_decode_command (Some line) (Some zero_frame_command) = (Some n, Some c)"
  shows "let g' = gateway_app_on_tcp_line os line g;
             (r, A', out) = dm_spec (Enqueue (Some (cmd_target_node c)) (Some c)) (dm_abs (gw_devices g))
    in dm_abs (gw_devices g') = A' \<and> dm_inv (gw_devices g') \<and> gw_pushed g' = gw_pushed g
       \<and> map (\<lambda>s. (sent_fd s, sent_data s)) (gw_sent g') = map (\<lambda>s. (sent_fd s, sent_data s)) (gw_sent g) @
           (case route_error r of
              None \<Rightarrow> []
            | Some e \<Rightarrow> if gc_tcp_fd (gw_context g) < 0 then []
                        else [(gc_tcp_fd (gw_context g), msg_data (nack_message e c))])
       \<and> gw_history g' = gw_history g @
           (case route_error r of
              None \<Rightarrow> [Queued c]
            | Some e \<Rightarrow> if gc_tcp_fd (gw_context g) < 0 then [] else [Route_Nack c e (last (gw_sent g'))])"
proof -
  obtain r devs where e: "device_manager_enqueue_command (gw_devices g) (Some (cmd_target_node c)) (Some c) = (r, devs)"
    by fastforce
  have s: "dm_inv devs" "dm_spec (Enqueue (Some (cmd_target_node c)) (Some c)) (dm_abs (gw_devices g)) = (r, dm_abs devs, [])"
    using dm_refinement [OF assms(1), of "Enqueue (Some (cmd_target_node c)) (Some c)"] e by (auto simp: refines_def)
  show ?thesis
  proof (cases "route_error r")
    case None
    then show ?thesis using assms(2) e s by (simp add: gateway_app_on_tcp_line_def Let_def)
  next
    case (Some err)
    from send_route_nack_eq [of err c os "g\<lparr>gw_devices := devs\<rparr>"] route_error_ok(2) [OF Some] decode_command_fits [OF assms(2)]
    obtain b g' where "gateway_app_send_route_nack os (Some c) (Some err) (g\<lparr>gw_devices := devs\<rparr>) = (b, g')"
      "gw_devices g' = devs" "gw_pushed g' = gw_pushed g"
      "map (\<lambda>s. (sent_fd s, sent_data s)) (gw_sent g') = map (\<lambda>s. (sent_fd s, sent_data s)) (gw_sent g) @
         (if gc_tcp_fd (gw_context g) < 0 then []
          else [(gc_tcp_fd (gw_context g), msg_data (nack_message err c))])"
      "gw_history g' = gw_history g @
         (if gc_tcp_fd (gw_context g) < 0 then [] else [Route_Nack c err (last (gw_sent g'))])" by auto
    then show ?thesis using Some assms(2) e s by (simp add: gateway_app_on_tcp_line_def Let_def)
  qed
qed

theorem command_is_queued_or_answered_witness:
  "let g = example_gateway\<lparr>gw_context := (gw_context example_gateway)\<lparr>gc_tcp_fd := 7\<rparr>\<rparr>;
       c = (example_command 3)\<lparr>cmd_target_node := ''N2''\<rparr>;
       g' = gateway_app_on_tcp_line (\<lambda>i. 0) (json_command_text c) g
   in dm_abs (gw_devices g') = dm_abs (gw_devices g)
      \<and> map (\<lambda>s. (sent_fd s, sent_data s)) (gw_sent g') = [(7, msg_data (nack_message ''route_not_found'' c))]"
proof -
  let ?g = "example_gateway\<lparr>gw_context := (gw_context example_gateway)\<lparr>gc_tcp_fd := 7\<rparr>\<rparr>"
  let ?c = "(example_command 3)\<lparr>cmd_target_node := ''N2''\<rparr>"
  have inv: "dm_inv (gw_devices ?g)" by (simp add: example_gateway_inv(1))
  have d: "message_json_decode_command (Some (json_command_text ?c)) (Some zero_frame_command)
      = (Some (length (json_command_text ?c) - 1), Some ?c)"
    by (simp add: message_json_decode_command_def parse_command_text read_object_def object_fields_def
        json_id_ok_def json_clean_def json_field_ok_def example_command_def)
  have n: "dm_spec (Enqueue (Some ''N2'') (Some ?c)) (dm_abs (gw_devices ?g)) = (DEVICE_MANAGER_NOT_FOUND, dm_abs (gw_devices ?g), [])"
    by (simp add: example_gateway_inv(2) no_node_id_def example_command_def)
  show ?thesis
    using command_is_queued_or_answered [OF inv d, of "\<lambda>i. 0"] n
    by (simp add: Let_def example_gateway_def)
qed

text \<open>The JSON buffers of the handlers hold 255 characters, so a report of 16 fields can be lost: the node
  may send it as a frame of 184 bytes, but its JSON text does not fit and nothing is pushed.\<close>

lemma long_report_is_dropped:
  defines "fs \<equiv> replicate 16 \<lparr>kv_key = ''AAA'', kv_value = ''BBBBB''\<rparr>"
  shows "\<exists>text. frame_build_data_kv (Some []) 264 (Some ''N1'') 1 (Some fs) 16 = (Inr 184, Some text)"
    and "enqueue_built (message_json_build_data (Some []) 256
           (Some \<lparr>data_node_id = ''N1'', data_sequence = 1, data_fields = fs\<rparr>)) g = g"
proof -
  have pr: "print_06u 1 = ''000001''" "print_u 1 = ''1''" by (simp_all add: print_compute)
  have n: "length fs = 16" "list_all field_ok fs"
    by (simp_all add: fs_def list_all_iff field_ok_def field_text_is_valid_def field_char_ok_def frame_consts)
  have p: "length (kv_payload ''N1'' 1 ''DATA'' fs) = 176"
    unfolding kv_payload_append [of _ _ _ fs]
    by (simp add: fs_def length_concat map_replicate sum_list_replicate kv_text_def kv_payload_def pr)
  have "frame_build_data_kv (Some []) 264 (Some ''N1'') 1 (Some fs) (length fs) =
      (Inr 184, Some (frame_of (kv_payload ''N1'' 1 ''DATA'' fs)))"
    unfolding frame_build_data_kv_def build_kv_frame_Inr using n p
    by (simp add: node_id_is_valid_def id_char_ok_def frame_consts)
  then show "\<exists>text. frame_build_data_kv (Some []) 264 (Some ''N1'') 1 (Some fs) 16 = (Inr 184, Some text)"
    using n(1) by simp
  have "fs = \<lparr>kv_key = ''AAA'', kv_value = ''BBBBB''\<rparr> # replicate 15 \<lparr>kv_key = ''AAA'', kv_value = ''BBBBB''\<rparr>"
    by (simp add: fs_def eval_nat_numeral)
  then have "256 \<le> length (json_fields_text fs) + 40"
    by (simp add: json_fields_text_Cons length_concat map_replicate sum_list_replicate json_field_text_def json_quoted_def
        json_string_text_def)
  then show "enqueue_built (message_json_build_data (Some []) 256
      (Some \<lparr>data_node_id = ''N1'', data_sequence = 1, data_fields = fs\<rparr>)) g = g"
    by (simp add: csimps json_data_text_def json_device_text_def json_fields_member_def json_quoted_def json_string_text_def json_seq_text_def pr)
qed
end
