(* ===== verification/Command_Fate.thy ===== *)
theory Command_Fate
  imports Gateway_App
begin

text \<open>
  What becomes of a command inside the gateway, across all its threads. The history of the gateway
  is the list of events that its operations noted where they happened. \<open>effect g es g'\<close> says that
  from one state to the other the history grew by exactly \<open>es\<close> and that \<open>es\<close> accounts for everything:
  every event is in order (a command that is queued was decoded from a line; one that is written was
  sent in full, in the encoding of the transport; a report is that of a frame or line), for every
  node the commands that were pending and those queued are those settled, in the same order, and then
  those still pending, and the pushes and sends are those of the events, one for one. An operation is
  accountable if it has such an effect, \<open>accountable_by A\<close> if its events are in \<open>A\<close> as well. Effects
  compose, so accountable operations can be interleaved in any way; the operations of
  \<open>Gateway_App\<close> are shown to be accountable here, those of the workers in their theories.
\<close>

section \<open>The events of a history\<close>

fun queued1 :: "string \<Rightarrow> event \<Rightarrow> frame_command list" where
  "queued1 i (Queued c) = (if cmd_target_node c = i then [c] else [])"
| "queued1 i e = []"

fun settled1 :: "string \<Rightarrow> event \<Rightarrow> frame_command list" where
  "settled1 i (Written tr c s) = (if cmd_target_node c = i then [c] else [])"
| "settled1 i (Send_Failed tr c s) = (if cmd_target_node c = i then [c] else [])"
| "settled1 i (Refused e c) = (if cmd_target_node c = i then [c] else [])"
| "settled1 i e = []"

fun pushed1 :: "event \<Rightarrow> gateway_message list" where
  "pushed1 (Send_Failed tr c s) = [nack_message ''transport_send_failed'' c]"
| "pushed1 (Refused e c) = [nack_message e c]"
| "pushed1 (Reported node text) = [to_message text]"
| "pushed1 e = []"

fun sent1 :: "event \<Rightarrow> sent list" where
  "sent1 (Written tr c s) = [s]"
| "sent1 (Send_Failed tr c s) = [s]"
| "sent1 (Route_Nack c e s) = [s]"
| "sent1 (Upstream m s) = [s]"
| "sent1 e = []"

definition queued :: "string \<Rightarrow> event list \<Rightarrow> frame_command list" where
  "queued i es = concat (map (queued1 i) es)"

definition settled :: "string \<Rightarrow> event list \<Rightarrow> frame_command list" where
  "settled i es = concat (map (settled1 i) es)"

definition pushed_by :: "event list \<Rightarrow> gateway_message list" where
  "pushed_by es = concat (map pushed1 es)"

definition sent_by :: "event list \<Rightarrow> sent list" where
  "sent_by es = concat (map sent1 es)"

lemmas event_defs = queued_def settled_def pushed_by_def sent_by_def

text \<open>The bytes that carry a command to its node: a CMD frame on Bluetooth, a JSON line on Wi-Fi.\<close>

definition command_bytes :: "device_transport \<Rightarrow> frame_command \<Rightarrow> string" where
  "command_bytes transport c =
     (if transport = DEVICE_TRANSPORT_BLUETOOTH
      then frame_of (kv_payload (cmd_sender c) (unat (cmd_sequence c mod 1000000)) ''CMD'' (cmd_fields c))
      else json_command_text c)"

text \<open>The bytes of a message of the upstream queue.\<close>

abbreviation message_bytes :: "gateway_message \<Rightarrow> string" where
  "message_bytes m \<equiv> take (msg_length m) (msg_data m)"

text \<open>A command that a line from the server decodes to; a report of a frame, or of a line.\<close>

definition from_server :: "frame_command \<Rightarrow> bool" where
  "from_server c = (\<exists>line n. message_json_decode_command (Some line) (Some zero_frame_command) = (Some n, Some c))"

definition reported_by :: "device_transport \<Rightarrow> string \<Rightarrow> string \<Rightarrow> bool" where
  "reported_by transport node text =
     (if transport = DEVICE_TRANSPORT_BLUETOOTH then \<exists>f. frame_report f = Some (node, text)
      else \<exists>line. line_report line = Some (node, text))"

fun event_ok :: "event \<Rightarrow> bool" where
  "event_ok (Queued c) = from_server c"
| "event_ok (Written tr c s) = (sent_count s = length (sent_data s) \<and> sent_data s = command_bytes tr c)"
| "event_ok (Send_Failed tr c s) = (sent_count s < length (sent_data s) \<and> sent_data s = command_bytes tr c)"
| "event_ok (Refused e c) = (e \<in> {''transport_replaced'', ''transport_disconnected'', ''cmd_encode_failed''})"
| "event_ok (Reported node text) = (length text < 256 \<and> (\<exists>tr. reported_by tr node text))"
| "event_ok (Route_Nack c e s) =
     (from_server c \<and> e \<in> {''route_not_found'', ''route_offline'', ''route_queue_full'', ''route_internal''}
      \<and> sent_data s = msg_data (nack_message e c))"
| "event_ok (Upstream m s) = (sent_data s = message_bytes m)"

text \<open>The events of a worker of a transport, and those of the thread of the server connection.\<close>

fun worker_event :: "device_transport \<Rightarrow> event \<Rightarrow> bool" where
  "worker_event tr (Written tr' c s) = (tr' = tr)"
| "worker_event tr (Send_Failed tr' c s) = (tr' = tr)"
| "worker_event tr (Refused e c) = True"
| "worker_event tr (Reported node text) = reported_by tr node text"
| "worker_event tr e = False"

fun link_event :: "event \<Rightarrow> bool" where
  "link_event (Queued c) = True"
| "link_event (Route_Nack c e s) = True"
| "link_event (Upstream m s) = True"
| "link_event e = False"

definition pending :: "gateway \<Rightarrow> string \<Rightarrow> frame_command list" where
  "pending g i = (case dm_abs (gw_devices g) i of None \<Rightarrow> [] | Some v \<Rightarrow> nv_pending v)"

definition effect :: "gateway \<Rightarrow> event list \<Rightarrow> gateway \<Rightarrow> bool" where
  "effect g es g' =
     (gw_history g' = gw_history g @ es \<and> dm_inv (gw_devices g') \<and> list_all event_ok es
      \<and> (\<forall>i. pending g i @ queued i es = settled i es @ pending g' i)
      \<and> gw_pushed g' = gw_pushed g @ pushed_by es \<and> gw_sent g' = gw_sent g @ sent_by es)"

definition explained :: "(event \<Rightarrow> bool) \<Rightarrow> gateway \<Rightarrow> gateway \<Rightarrow> bool" where
  "explained A g g' = (\<exists>es. effect g es g' \<and> list_all A es)"

definition accountable_by :: "(event \<Rightarrow> bool) \<Rightarrow> (gateway \<Rightarrow> gateway) \<Rightarrow> bool" where
  "accountable_by A f = (\<forall>g. dm_inv (gw_devices g) \<longrightarrow> explained A g (f g))"

lemma effect_inv: "effect g es g' \<Longrightarrow> dm_inv (gw_devices g')" by (simp add: effect_def)

lemma effect_refl: "dm_inv (gw_devices g) \<Longrightarrow> effect g [] g" by (simp add: effect_def event_defs)

lemma effect_trans:
  assumes "effect g es g'" "effect g' fs g''" shows "effect g (es @ fs) g''"
proof -
  have "pending g i @ queued i (es @ fs) = settled i (es @ fs) @ pending g'' i" for i
    using assms unfolding effect_def event_defs by (metis append.assoc concat_append map_append)
  then show ?thesis using assms by (simp add: effect_def event_defs)
qed

lemma explainedI [intro]: "effect g es g' \<Longrightarrow> list_all A es \<Longrightarrow> explained A g g'"
  by (auto simp: explained_def)

lemma explained_inv: "explained A g g' \<Longrightarrow> dm_inv (gw_devices g')"
  using effect_inv by (auto simp: explained_def)

lemma explained_refl: "dm_inv (gw_devices g) \<Longrightarrow> explained A g g"
  using effect_refl by (force intro: explainedI)

lemma explained_trans: "explained A g g' \<Longrightarrow> explained A g' g'' \<Longrightarrow> explained A g g''"
  unfolding explained_def by (metis effect_trans list_all_append)

lemma explained_mono: "explained A g g' \<Longrightarrow> (\<And>e. A e \<Longrightarrow> B e) \<Longrightarrow> explained B g g'"
  unfolding explained_def by (metis list.pred_mono_strong)

lemma explained_effect: "explained A g g' \<Longrightarrow> \<exists>es. effect g es g'"
  by (auto simp: explained_def)

text \<open>What does not touch the devices and the logs has no effect, before and after as well.\<close>

definition same_books :: "gateway \<Rightarrow> gateway \<Rightarrow> bool" where
  "same_books g g' = (gw_devices g' = gw_devices g \<and> gw_pushed g' = gw_pushed g \<and> gw_sent g' = gw_sent g
     \<and> gw_history g' = gw_history g)"

lemma effect_same_left: "same_books g g' \<Longrightarrow> effect g' es g'' \<Longrightarrow> effect g es g''"
  by (simp add: effect_def same_books_def pending_def)

lemma effect_same_right: "effect g es g' \<Longrightarrow> same_books g' g'' \<Longrightarrow> effect g es g''"
  by (simp add: effect_def same_books_def pending_def)

lemma same_books_effect: "same_books g g' \<Longrightarrow> dm_inv (gw_devices g) \<Longrightarrow> effect g [] g'"
  using effect_same_right [OF effect_refl] by blast

lemma explained_same_left: "same_books g g' \<Longrightarrow> explained A g' g'' \<Longrightarrow> explained A g g''"
  unfolding explained_def by (meson effect_same_left)

lemma explained_same_right: "explained A g g' \<Longrightarrow> same_books g' g'' \<Longrightarrow> explained A g g''"
  unfolding explained_def by (meson effect_same_right)

lemma same_books_explained: "same_books g g' \<Longrightarrow> dm_inv (gw_devices g) \<Longrightarrow> explained A g g'"
  using explained_same_right [OF explained_refl] by blast

lemma accountable_after: "accountable_by A f \<Longrightarrow> explained A g h \<Longrightarrow> explained A g (f h)"
  unfolding accountable_by_def using explained_trans explained_inv by blast

lemma accountable_mono: "accountable_by A f \<Longrightarrow> (\<And>e. A e \<Longrightarrow> B e) \<Longrightarrow> accountable_by B f"
  unfolding accountable_by_def using explained_mono by blast

lemma accountable_comp: "accountable_by A f \<Longrightarrow> accountable_by A h \<Longrightarrow> accountable_by A (\<lambda>g. h (f g))"
  using accountable_after [of A h] by (auto simp: accountable_by_def)

lemma accountable_id: "accountable_by A (\<lambda>g. g)"
  using explained_refl by (auto simp: accountable_by_def)

lemma accountable_fold: "list_all (accountable_by A) fs \<Longrightarrow> accountable_by A (fold (\<lambda>f. f) fs)"
  by (induction fs) (auto simp: accountable_id comp_def intro: accountable_comp)

section \<open>Device manager operations\<close>

lemma dm_exec_step:
  assumes "dm_inv m" "dm_exec op m = (r, m', out)"
  shows "(r, dm_abs m', out) = dm_spec op (dm_abs m)" "dm_inv m'"
  using dm_refinement [OF assms(1), of op] assms(2) by (auto simp: refines_def)

lemma pending_facts:
  assumes "dm_inv (gw_devices g)"
  shows "length (pending g i) \<le> 8" "list_all (\<lambda>c. routable c \<and> cmd_target_node c = i) (pending g i)"
proof -
  have "length (pending g i) \<le> 8 \<and> list_all (\<lambda>c. routable c \<and> cmd_target_node c = i) (pending g i)"
  proof (cases "device_manager_find_index_locked (gw_devices g) i")
    case None
    then show ?thesis using dm_find_None [of "gw_devices g" i] by (simp add: pending_def)
  next
    case (Some k)
    note k = dm_find_Some [OF Some assms]
    have "dev_node_id (devices (gw_devices g) ! k) \<noteq> []" "length (dev_node_id (devices (gw_devices g) ! k)) < 32"
      using k(3) by (auto simp: dev_ok_def dm_consts)
    with k show ?thesis
      using dev_ok_pending [OF k(3)] by (auto simp: pending_def view_def dev_ok_def list_all_iff routable_def)
  qed
  then show "length (pending g i) \<le> 8" "list_all (\<lambda>c. routable c \<and> cmd_target_node c = i) (pending g i)" by auto
qed

lemma pending_devices [simp]: "pending (g\<lparr>gw_devices := m\<rparr>) i = (case dm_abs m i of None \<Rightarrow> [] | Some v \<Rightarrow> nv_pending v)"
  by (simp add: pending_def)

lemma books_of_refusals [simp]:
  "queued i (map (Refused error) cs) = []" "settled i (map (Refused error) cs) = filter (\<lambda>c. cmd_target_node c = i) cs"
  "pushed_by (map (Refused error) cs) = map (nack_message error) cs" "sent_by (map (Refused error) cs) = []"
  "list_all event_ok (map (Refused error) cs) = (cs = [] \<or> event_ok (Refused error zero_frame_command))"
  "list_all (worker_event tr) (map (Refused error) cs)"
  by (induction cs) (auto simp: event_defs)

lemma effect_commands_nacked:
  assumes inv: "dm_inv (gw_devices g)" "dm_inv devs" "error \<in> {''transport_replaced'', ''transport_disconnected''}"
    and "pending g i = out @ rest" "\<forall>j. j \<noteq> i \<longrightarrow> pending (g\<lparr>gw_devices := devs\<rparr>) j = pending g j"
      "pending (g\<lparr>gw_devices := devs\<rparr>) i = rest"
  shows "effect g (map (Refused error) out) (nack_commands error out (g\<lparr>gw_devices := devs\<rparr>))"
proof -
  have out: "list_all routable out" "\<forall>c \<in> set out. cmd_target_node c = i"
    using pending_facts(2) [OF inv(1), of i] assms(4) by (auto simp: list_all_iff)
  have "filter (\<lambda>c. cmd_target_node c = j) out = (if j = i then out else [])" for j
    using out(2) by (auto simp: filter_empty_conv filter_id_conv)
  moreover have "nack_commands error out (g\<lparr>gw_devices := devs\<rparr>) = g\<lparr>gw_devices := devs,
      gw_pushed := gw_pushed g @ map (nack_message error) out, gw_history := gw_history g @ map (Refused error) out\<rparr>"
    using out(1) assms(3) by (auto simp: nack_commands_eq)
  ultimately show ?thesis
    using assms by (auto simp: effect_def pending_def)
qed

lemma effect_enqueue:
  assumes inv: "dm_inv (gw_devices g)"
    and "device_manager_enqueue_command (gw_devices g) (Some (cmd_target_node c)) (Some c) = (r, devs)"
  shows "r = DEVICE_MANAGER_OK \<Longrightarrow> from_server c \<Longrightarrow> effect g [Queued c] (log_event (Queued c) (g\<lparr>gw_devices := devs\<rparr>))"
    and "r \<noteq> DEVICE_MANAGER_OK \<Longrightarrow> effect g [] (g\<lparr>gw_devices := devs\<rparr>)"
proof -
  have "dm_exec (Enqueue (Some (cmd_target_node c)) (Some c)) (gw_devices g) = (r, devs, [])" using assms(2) by simp
  note s = dm_exec_step [OF inv this]
  show "r = DEVICE_MANAGER_OK \<Longrightarrow> from_server c \<Longrightarrow> effect g [Queued c] (log_event (Queued c) (g\<lparr>gw_devices := devs\<rparr>))"
    using s by (auto simp: effect_def event_defs pending_def split: if_splits option.splits)
  show "r \<noteq> DEVICE_MANAGER_OK \<Longrightarrow> effect g [] (g\<lparr>gw_devices := devs\<rparr>)"
    using s by (auto simp: effect_def event_defs pending_def split: if_splits option.splits)
qed

section \<open>The handlers are accountable\<close>

lemma explained_report:
  assumes "dm_inv (gw_devices g)" "reported_by tr node t"
  shows "explained (worker_event tr) g (note_report node (json_written 256 t) (enqueue_built (json_written 256 t) g))"
proof (cases "length t < 256")
  case True
  have "effect g [Reported node t] (log_event (Reported node t) (g\<lparr>gw_pushed := gw_pushed g @ [to_message t]\<rparr>))"
    using assms True by (auto simp: effect_def event_defs pending_def)
  then show ?thesis using True assms by (auto simp: csimps)
next
  case False
  then show ?thesis using explained_refl assms by (simp add: csimps)
qed

lemma touch_explained:
  assumes inv: "dm_inv (gw_devices g)" and t: "gateway_app_touch_device now node (g, up) = (ok, g', up')"
  shows "explained (worker_event tr) g g'"
proof -
  consider (none) "node = []" | (long) "up_bound_node_id up = []" "32 \<le> length node"
    | (bind) "node \<noteq> []" "up_bound_node_id up = []" "length node < 32"
    | (other) "node \<noteq> []" "up_bound_node_id up \<noteq> []" "up_bound_node_id up \<noteq> node"
    | (seen) "node \<noteq> []" "up_bound_node_id up = node" by force
  then show ?thesis
  proof cases
    case bind
    let ?op = "Bind (Some node) (up_transport up) (up_device_fd up) (up_thread up) (Some 8) now"
    obtain r devs out where e: "dm_exec ?op (gw_devices g) = (r, devs, out)" by (cases "dm_exec ?op (gw_devices g)")
    have g': "g' = (if r = DEVICE_MANAGER_OK then nack_commands ''transport_replaced'' out (g\<lparr>gw_devices := devs\<rparr>)
        else g\<lparr>gw_devices := devs\<rparr>)"
      using t e bind by (auto simp: gateway_app_touch_device_def dm_consts split: if_splits)
    note s = dm_exec_step [OF inv e]
    show ?thesis
    proof (cases "r = DEVICE_MANAGER_OK")
      case False
      then have "dm_abs devs = dm_abs (gw_devices g)"
        using s(1) by (auto split: if_splits option.splits)
      then have "effect g [] g'" using s(2) False g' by (simp add: effect_def event_defs pending_def)
      then show ?thesis by auto
    next
      case True
      have "pending g node = out @ pending (g\<lparr>gw_devices := devs\<rparr>) node"
        "\<forall>j. j \<noteq> node \<longrightarrow> pending (g\<lparr>gw_devices := devs\<rparr>) j = pending g j"
        using s(1) True by (auto simp: pending_def fresh_view_def split: if_splits option.splits)
      from effect_commands_nacked [OF inv s(2) _ this(1) this(2) refl, of "''transport_replaced''"] True g'
      show ?thesis by (auto intro: explainedI)
    qed
  next
    case seen
    obtain r devs where e: "device_manager_update_last_seen (gw_devices g) (Some node) now = (r, devs)" by fastforce
    have g': "g' = g\<lparr>gw_devices := devs\<rparr>"
      using t e seen by (auto simp: gateway_app_touch_device_def)
    have "dm_exec (Update_Last_Seen (Some node) now) (gw_devices g) = (r, devs, [])" using e by simp
    from dm_exec_step [OF inv this] have "effect g [] g'"
      by (auto simp: g' effect_def event_defs pending_def split: if_splits option.splits)
    then show ?thesis by auto
  qed (use t inv explained_refl [of g] in \<open>auto simp: gateway_app_touch_device_def dm_consts split: if_splits\<close>)
qed

lemma report_explained:
  assumes inv: "dm_inv (gw_devices g)" and r: "\<And>node t. report = Some (node, t) \<Longrightarrow> reported_by tr node t"
  shows "explained (worker_event tr) g (fst (handle_report now report (g, up)))"
proof (cases report)
  case None
  have "same_books g (fst (handle_report now report (g, up)))"
    by (simp add: None handle_report_def same_books_def decode_error_def)
  then show ?thesis using same_books_explained inv by blast
next
  case (Some nt)
  obtain node t where nt: "nt = (node, t)" by fastforce
  obtain ok g' up' where td: "gateway_app_touch_device now node (g, up) = (ok, g', up')"
    by (cases "gateway_app_touch_device now node (g, up)")
  note touched = touch_explained [OF inv td, of tr]
  from explained_trans [OF touched explained_report [OF explained_inv [OF touched] r [OF Some [unfolded nt]]]] touched
  show ?thesis using Some nt td by (auto simp: handle_report_def touch_and_enqueue_def)
qed

lemma frame_explained:
  "dm_inv (gw_devices g) \<Longrightarrow> explained (worker_event DEVICE_TRANSPORT_BLUETOOTH) g (fst (gateway_app_on_frame now f (g, up)))"
  unfolding on_frame_report by (rule report_explained) (auto simp: reported_by_def)

lemma line_explained:
  "dm_inv (gw_devices g) \<Longrightarrow> explained (worker_event DEVICE_TRANSPORT_WIFI) g (fst (gateway_app_on_wifi_line now l (g, up)))"
  unfolding on_wifi_line_report by (rule report_explained) (auto simp: reported_by_def)

lemma route_nack_explained:
  assumes inv: "dm_inv (gw_devices g)" and c: "from_server c" and r: "route_error r = Some error"
  shows "explained link_event g (snd (gateway_app_send_route_nack os (Some c) (Some error) g))"
proof -
  let ?g' = "snd (gateway_app_send_route_nack os (Some c) (Some error) g)"
  obtain line n where "message_json_decode_command (Some line) (Some zero_frame_command) = (Some n, Some c)"
    using c by (auto simp: from_server_def)
  note len = decode_command_fits [OF this]
  have e: "error \<noteq> []" "length error < 32" using route_error_ok(2) [OF r] by auto
  let ?a = "\<lparr>nack_node_id = cmd_target_node c, nack_sequence = cmd_sequence c, nack_error = error\<rparr>"
  have fits: "length (json_nack_text ?a) < 256" by (rule json_nack_text_fits) (simp_all add: e len)
  show ?thesis
  proof (cases "gc_tcp_fd (gw_context g) < 0")
    case True
    then show ?thesis using explained_refl [OF inv] by (simp add: gateway_app_send_route_nack_def)
  next
    case False
    obtain ok s where s: "send_logged os (gc_tcp_fd (gw_context g)) (json_nack_text ?a) (gw_sent g) = (ok, gw_sent g @ [s])"
      "sent_data s = json_nack_text ?a" using False by (force simp: send_logged_def Let_def)
    have "effect g [Route_Nack c error s] ?g'"
      using False e fits s inv c r
      by (cases ok; cases r)
        (auto simp: gateway_app_send_route_nack_def csimps json_written_def Let_def effect_def event_defs pending_def
          nack_message_def to_message_def)
    then show ?thesis by auto
  qed
qed

lemma tcp_line_accountable: "accountable_by link_event (gateway_app_on_tcp_line os line)"
  unfolding accountable_by_def
proof (intro allI impI)
  fix g :: gateway assume inv: "dm_inv (gw_devices g)"
  obtain n c where d: "message_json_decode_command (Some line) (Some zero_frame_command) = (n, c)" by fastforce
  show "explained link_event g (gateway_app_on_tcp_line os line g)"
  proof (cases n)
    case None
    then have "same_books g (gateway_app_on_tcp_line os line g)"
      using d by (simp add: gateway_app_on_tcp_line_def same_books_def decode_error_def)
    then show ?thesis using same_books_explained inv by blast
  next
    case (Some m)
    then obtain c' where c': "c = Some c'"
      using d by (auto simp: message_json_decode_command_def split: option.splits if_splits prod.splits)
    have fs: "from_server c'" using d by (auto simp: Some c' from_server_def)
    obtain r devs where e: "device_manager_enqueue_command (gw_devices g) (Some (cmd_target_node c')) (Some c') = (r, devs)"
      by fastforce
    show ?thesis
    proof (cases "route_error r")
      case None
      with effect_enqueue(1) [OF inv e _ fs] show ?thesis
        using Some c' d e route_error_ok(1) [of r] by (auto simp: gateway_app_on_tcp_line_def)
    next
      case (Some err)
      then have "r \<noteq> DEVICE_MANAGER_OK" by auto
      from effect_enqueue(2) [OF inv e this] have ex: "explained link_event g (g\<lparr>gw_devices := devs\<rparr>)" by auto
      from explained_trans [OF this route_nack_explained [OF explained_inv [OF ex] fs Some]]
      show ?thesis using Some \<open>n = Some m\<close> c' d e by (auto simp: gateway_app_on_tcp_line_def)
    qed
  qed
qed

end
