(* ===== verification/Device_Link.thy ===== *)
theory Device_Link
  imports Command_Fate
begin

text \<open>
  What the Bluetooth worker and the Wi-Fi worker have in common, for the proofs: both take a command
  from the queue of the node they are bound to, encode it, and write it or refuse it; both refuse
  what is pending when the connection ends. The code writes this out in each worker, and so do the
  theories \<open>Bluetooth_Worker\<close> and \<open>Wifi_Client\<close>; they show that their functions are instances of the
  two functions here. The locale \<open>command_link\<close> has the laws of a worker with any encoding.
\<close>

section \<open>One attempt, and the end of a connection\<close>

text \<open>The return codes -1, 0 and 1.\<close>

datatype send_result = Worker_Error | Nothing_Sent | Command_Sent

definition link_send :: "device_transport \<Rightarrow> (nat \<Rightarrow> nat) \<Rightarrow> int \<Rightarrow> string \<Rightarrow> frame_command \<Rightarrow> string option \<Rightarrow> gateway
    \<Rightarrow> send_result \<times> gateway" where
  "link_send transport os fd node c bytes g =
     (case bytes of
        None \<Rightarrow>
          (Nothing_Sent,
           log_event (Refused ''cmd_encode_failed'' c)
             (gateway_app_enqueue_nack (Some node) (cmd_sequence c) (Some ''cmd_encode_failed'') g))
      | Some b \<Rightarrow>
          (case send_logged os fd b (gw_sent g) of (ok, log) \<Rightarrow>
             if ok then (Command_Sent, log_event (Written transport c (last log)) (g\<lparr>gw_sent := log\<rparr>))
             else (Worker_Error,
                   log_event (Send_Failed transport c (last log))
                     (gateway_app_enqueue_nack (Some node) (cmd_sequence c) (Some ''transport_send_failed'')
                       (g\<lparr>gw_sent := log\<rparr>)))))"

definition link_try_send :: "device_transport \<Rightarrow> (frame_command \<Rightarrow> string option) \<Rightarrow> (nat \<Rightarrow> nat) \<Rightarrow> int
    \<Rightarrow> gateway \<times> upstream_context \<Rightarrow> send_result \<times> gateway \<times> upstream_context" where
  "link_try_send transport encode os fd s =
     (case s of (g, up) \<Rightarrow>
       if fd < 0 then (Worker_Error, g, up)
       else if up_bound_node_id up = [] then (Nothing_Sent, g, up)
       else
         (case dm_exec (Try_Dequeue (Some (up_bound_node_id up)) fd (up_thread up)) (gw_devices g) of
            (result, devs, out) \<Rightarrow>
              if result = DEVICE_MANAGER_CONFLICT then (Worker_Error, g\<lparr>gw_devices := devs\<rparr>, up)
              else if result \<noteq> DEVICE_MANAGER_OK then (Nothing_Sent, g\<lparr>gw_devices := devs\<rparr>, up)
              else
                (case link_send transport os fd (up_bound_node_id up) (hd out) (encode (hd out)) (g\<lparr>gw_devices := devs\<rparr>)
                 of (r, g') \<Rightarrow> (r, g', up))))"

definition link_hang_up :: "int \<Rightarrow> gateway \<times> upstream_context \<Rightarrow> gateway" where
  "link_hang_up fd s =
     (case s of (g, up) \<Rightarrow>
       if up_bound_node_id up = [] then g
       else
         (case dm_exec (Disconnect (Some (up_bound_node_id up)) fd (up_thread up) (Some DEVICE_COMMAND_QUEUE_CAPACITY)) (gw_devices g)
          of (result, devs, out) \<Rightarrow>
            if result = DEVICE_MANAGER_OK
            then nack_commands ''transport_disconnected'' out (g\<lparr>gw_devices := devs\<rparr>)
            else g\<lparr>gw_devices := devs\<rparr>))"

text \<open>The worker is the owner of the connection to its node.\<close>

definition owner :: "gateway \<Rightarrow> upstream_context \<Rightarrow> bool" where
  "owner g up = (case dm_abs (gw_devices g) (up_bound_node_id up) of
     None \<Rightarrow> False | Some v \<Rightarrow> nv_online v \<and> nv_thread_id v = up_thread up)"

text \<open>Of the entry of a node only the queue has changed.\<close>

definition same_entry :: "string \<Rightarrow> gateway \<Rightarrow> gateway \<Rightarrow> bool" where
  "same_entry i g g' = (map_option (\<lambda>v. v\<lparr>nv_pending := []\<rparr>) (dm_abs (gw_devices g') i) =
     map_option (\<lambda>v. v\<lparr>nv_pending := []\<rparr>) (dm_abs (gw_devices g) i))"

section \<open>The laws\<close>

lemma link_send_books:
  assumes c: "routable c" "node = cmd_target_node c" and b: "\<forall>b. bytes = Some b \<longrightarrow> b = command_bytes tr c"
    and "link_send tr os fd node c bytes g = (r, g')" "0 \<le> fd"
  shows "\<exists>e. event_ok e \<and> worker_event tr e \<and> (\<forall>i. queued1 i e = []) \<and> (\<forall>i. settled1 i e = (if i = node then [c] else []))
     \<and> gw_history g' = gw_history g @ [e] \<and> gw_devices g' = gw_devices g
     \<and> gw_pushed g' = gw_pushed g @ pushed1 e \<and> gw_sent g' = gw_sent g @ sent1 e
     \<and> ((r = Command_Sent) = (\<exists>s. e = Written tr c s))"
proof (cases bytes)
  case None
  then show ?thesis
    using assms by (auto simp: link_send_def routable_def enqueue_nack_eq nack_message_def)
next
  case (Some b)
  define s where "s = \<lparr>sent_fd = fd, sent_data = b, sent_count = min (length b) (os (length (gw_sent g)))\<rparr>"
  have log: "send_logged os fd b (gw_sent g) = (length b \<le> os (length (gw_sent g)), gw_sent g @ [s])"
    using assms(5) by (simp add: send_logged_def s_def send_call_def Let_def)
  have data: "sent_data s = command_bytes tr c" using Some b by (simp add: s_def)
  show ?thesis
  proof (cases "length b \<le> os (length (gw_sent g))")
    case True
    then have "sent_count s = length (sent_data s)" by (simp add: s_def)
    then show ?thesis
      using assms(4) Some log True data c by (auto simp: link_send_def)
  next
    case False
    then have "sent_count s < length (sent_data s)" by (simp add: s_def)
    moreover have "gw_devices g' = gw_devices g \<and> gw_sent g' = gw_sent g @ [s] \<and> r = Worker_Error
      \<and> gw_history g' = gw_history g @ [Send_Failed tr c s]
      \<and> gw_pushed g' = gw_pushed g @ [nack_message ''transport_send_failed'' c]"
      using assms Some log False by (auto simp: link_send_def routable_def enqueue_nack_eq nack_message_def)
    ultimately show ?thesis
      using data c by (intro exI [of _ "Send_Failed tr c s"]) auto
  qed
qed

lemma hang_up_owner:
  assumes inv: "dm_inv (gw_devices g)" and b: "up_bound_node_id up \<noteq> []" "0 \<le> fd"
    and v: "dm_abs (gw_devices g) (up_bound_node_id up) = Some v" "nv_fd v = fd" "nv_thread_id v = up_thread up"
  shows "gw_pushed (link_hang_up fd (g, up)) = gw_pushed g @ map (nack_message ''transport_disconnected'') (nv_pending v)
     \<and> dm_abs (gw_devices (link_hang_up fd (g, up))) =
         (dm_abs (gw_devices g))(up_bound_node_id up \<mapsto> v\<lparr>nv_online := False, nv_fd := -1, nv_pending := []\<rparr>)"
proof -
  let ?op = "Disconnect (Some (up_bound_node_id up)) fd (up_thread up) (Some DEVICE_COMMAND_QUEUE_CAPACITY)"
  obtain r devs out where e: "dm_exec ?op (gw_devices g) = (r, devs, out)" by (cases "dm_exec ?op (gw_devices g)")
  have p: "length (nv_pending v) \<le> 8" "list_all routable (nv_pending v)"
    using pending_facts [OF inv, of "up_bound_node_id up"] v(1) by (auto simp: pending_def list_all_iff)
  have s: "r = DEVICE_MANAGER_OK" "out = nv_pending v"
    "dm_abs devs = (dm_abs (gw_devices g))(up_bound_node_id up \<mapsto> v\<lparr>nv_online := False, nv_fd := -1, nv_pending := []\<rparr>)"
    using dm_exec_step(1) [OF inv e] v b p by (auto simp: no_node_id_def dm_consts)
  show ?thesis
    using b s e p by (simp add: link_hang_up_def nack_commands_eq del: dm_exec.simps)
qed

lemma hang_up_stale:
  assumes inv: "dm_inv (gw_devices g)"
    and v: "\<forall>v. dm_abs (gw_devices g) (up_bound_node_id up) = Some v \<longrightarrow> nv_fd v \<noteq> fd \<or> nv_thread_id v \<noteq> up_thread up"
  shows "gw_pushed (link_hang_up fd (g, up)) = gw_pushed g \<and> dm_abs (gw_devices (link_hang_up fd (g, up))) = dm_abs (gw_devices g)"
proof -
  let ?op = "Disconnect (Some (up_bound_node_id up)) fd (up_thread up) (Some DEVICE_COMMAND_QUEUE_CAPACITY)"
  obtain r devs out where e: "dm_exec ?op (gw_devices g) = (r, devs, out)" by (cases "dm_exec ?op (gw_devices g)")
  show ?thesis
    using dm_exec_step(1) [OF inv e] v e
    by (auto simp: link_hang_up_def simp del: dm_exec.simps split: if_splits option.splits)
qed

lemma hang_up_refuses:
  assumes inv: "dm_inv (gw_devices g)"
  shows "\<exists>es. effect g es (link_hang_up fd (g, up)) \<and> list_all (worker_event tr) es \<and> (\<forall>i. queued i es = [])"
proof (cases "up_bound_node_id up = []")
  case True
  then show ?thesis using effect_refl [OF inv] by (intro exI [of _ "[]"]) (simp add: link_hang_up_def event_defs)
next
  case b: False
  let ?op = "Disconnect (Some (up_bound_node_id up)) fd (up_thread up) (Some DEVICE_COMMAND_QUEUE_CAPACITY)"
  obtain r devs out where e: "dm_exec ?op (gw_devices g) = (r, devs, out)" by (cases "dm_exec ?op (gw_devices g)")
  note s = dm_exec_step [OF inv e]
  show ?thesis
  proof (cases "r = DEVICE_MANAGER_OK")
    case True
    have "pending g (up_bound_node_id up) = out @ pending (g\<lparr>gw_devices := devs\<rparr>) (up_bound_node_id up)"
      "\<forall>j. j \<noteq> up_bound_node_id up \<longrightarrow> pending (g\<lparr>gw_devices := devs\<rparr>) j = pending g j"
      using s(1) True by (auto simp: pending_def split: if_splits option.splits)
    from effect_commands_nacked [OF inv s(2) _ this(1) this(2) refl, of "''transport_disconnected''"]
    show ?thesis using True b e
      by (intro exI [of _ "map (Refused ''transport_disconnected'') out"]) (simp add: link_hang_up_def del: dm_exec.simps)
  next
    case False
    then have "dm_abs devs = dm_abs (gw_devices g)" using s(1) by (auto split: if_splits option.splits)
    then have "effect g [] (g\<lparr>gw_devices := devs\<rparr>)" using s(2) by (simp add: effect_def event_defs pending_def)
    then show ?thesis using False b e
      by (intro exI [of _ "[]"]) (simp add: link_hang_up_def event_defs del: dm_exec.simps)
  qed
qed

lemma hang_up_explained: "dm_inv (gw_devices g) \<Longrightarrow> explained (worker_event tr) g (link_hang_up fd (g, up))"
  using hang_up_refuses [of g fd up tr] by blast

text \<open>Trying again and again, as the turns of a worker do; it stops when an attempt fails.\<close>

fun try_repeatedly :: "('s \<Rightarrow> send_result \<times> 's) \<Rightarrow> nat \<Rightarrow> 's \<Rightarrow> send_result \<times> 's" where
  "try_repeatedly f 0 s = (Nothing_Sent, s)"
| "try_repeatedly f (Suc n) s =
     (case f s of (r, s') \<Rightarrow> if r = Worker_Error then (r, s') else try_repeatedly f n s')"

locale command_link =
  fixes transport :: device_transport
    and encode :: "frame_command \<Rightarrow> string option"
  assumes encode_bytes: "encode c = Some b \<Longrightarrow> b = command_bytes transport c"
begin

lemma try_send_owner:
  assumes inv: "dm_inv (gw_devices g)" and fd: "0 \<le> fd" "up_bound_node_id up \<noteq> []" and own: "owner g up"
    and t: "link_try_send transport encode os fd (g, up) = (r, g', up')"
  shows "up' = up \<and> owner g' up \<and> same_entry (up_bound_node_id up) g g' \<and> (case pending g (up_bound_node_id up) of
      [] \<Rightarrow> r = Nothing_Sent \<and> effect g [] g'
    | c # cs \<Rightarrow> \<exists>e. effect g [e] g' \<and> worker_event transport e \<and> (\<forall>i. queued i [e] = [])
        \<and> settled (up_bound_node_id up) [e] = [c] \<and> (r = Command_Sent) = (\<exists>s. e = Written transport c s))"
proof -
  let ?i = "up_bound_node_id up"
  obtain v where v: "dm_abs (gw_devices g) ?i = Some v" "nv_online v" "nv_thread_id v = up_thread up"
    using own by (auto simp: owner_def split: option.splits)
  then have p: "pending g ?i = nv_pending v" by (simp add: pending_def)
  obtain q devs out where e: "dm_exec (Try_Dequeue (Some ?i) fd (up_thread up)) (gw_devices g) = (q, devs, out)"
    by (cases "dm_exec (Try_Dequeue (Some ?i) fd (up_thread up)) (gw_devices g)")
  note s = dm_exec_step [OF inv e]
  show ?thesis
  proof (cases "nv_pending v")
    case Nil
    then have "q = DEVICE_MANAGER_QUEUE_EMPTY" "dm_abs devs = dm_abs (gw_devices g)"
      using s(1) v fd by (auto simp: no_node_id_def)
    then have "r = Nothing_Sent" "up' = up" "g' = g\<lparr>gw_devices := devs\<rparr>" "dm_abs (gw_devices g') = dm_abs (gw_devices g)"
      using t e fd by (auto simp: link_try_send_def simp del: dm_exec.simps)
    with s(2) v show ?thesis by (simp add: p Nil effect_def event_defs pending_def owner_def same_entry_def)
  next
    case (Cons c cs)
    then have q: "q = DEVICE_MANAGER_OK" "out = [c]" "dm_abs devs = (dm_abs (gw_devices g))(?i \<mapsto> v\<lparr>nv_pending := cs\<rparr>)"
      using s(1) v fd by (auto simp: no_node_id_def)
    have c: "routable c" "cmd_target_node c = ?i" using pending_facts(2) [OF inv, of ?i] by (auto simp: p Cons)
    obtain r1 g1 where l: "link_send transport os fd ?i c (encode c) (g\<lparr>gw_devices := devs\<rparr>) = (r1, g1)" by fastforce
    from link_send_books [OF c(1) c(2) [symmetric] _ l fd(1)] encode_bytes [of c] obtain e where e1:
      "event_ok e" "worker_event transport e" "\<forall>i. queued1 i e = []" "\<forall>i. settled1 i e = (if i = ?i then [c] else [])"
      "gw_history g1 = gw_history g @ [e]" "gw_devices g1 = devs" "gw_pushed g1 = gw_pushed g @ pushed1 e"
      "gw_sent g1 = gw_sent g @ sent1 e" "(r1 = Command_Sent) = (\<exists>s. e = Written transport c s)"
      by auto
    have r: "r = r1" "g' = g1" "up' = up" using t e fd q l by (auto simp: link_try_send_def simp del: dm_exec.simps)
    have pend: "pending g' i = (if i = ?i then cs else pending g i)" for i
      by (simp add: r e1(6) q(3) pending_def)
    have "pending g i @ queued i [e] = settled i [e] @ pending g' i" for i
      using e1(3,4) pend [of i] p Cons by (simp add: event_defs)
    then have "effect g [e] g'"
      using e1 s(2) by (simp add: effect_def r event_defs)
    moreover have "owner g' up" "same_entry ?i g g'" using v by (simp_all add: owner_def same_entry_def r e1(6) q(3))
    ultimately show ?thesis using e1 by (auto simp: p Cons r event_defs)
  qed
qed

lemma try_send_not_owner:
  assumes inv: "dm_inv (gw_devices g)" and not: "\<not> owner g up \<or> fd < 0 \<or> up_bound_node_id up = []"
    and t: "link_try_send transport encode os fd (g, up) = (r, g', up')"
  shows "up' = up \<and> effect g [] g' \<and> r \<noteq> Command_Sent"
proof -
  let ?i = "up_bound_node_id up"
  obtain q devs out where e: "dm_exec (Try_Dequeue (Some ?i) fd (up_thread up)) (gw_devices g) = (q, devs, out)"
    by (cases "dm_exec (Try_Dequeue (Some ?i) fd (up_thread up)) (gw_devices g)")
  note s = dm_exec_step [OF inv e]
  show ?thesis
  proof (cases "fd < 0 \<or> ?i = []")
    case True
    then show ?thesis using t effect_refl [OF inv] by (auto simp: link_try_send_def split: if_splits)
  next
    case False
    then have "q \<noteq> DEVICE_MANAGER_OK" "dm_abs devs = dm_abs (gw_devices g)"
      using not s(1) by (auto simp: owner_def no_node_id_def split: if_splits option.splits list.splits)
    then have "r \<noteq> Command_Sent" "up' = up" "g' = g\<lparr>gw_devices := devs\<rparr>" "dm_abs (gw_devices g') = dm_abs (gw_devices g)"
      using t e False by (auto simp: link_try_send_def simp del: dm_exec.simps split: if_splits)
    with s(2) show ?thesis by (simp add: effect_def event_defs pending_def)
  qed
qed

lemma try_send_explained:
  assumes "dm_inv (gw_devices g)" "link_try_send transport encode os fd (g, up) = (r, g', up')"
  shows "up' = up \<and> explained (worker_event transport) g g'"
proof (cases "owner g up \<and> 0 \<le> fd \<and> up_bound_node_id up \<noteq> []")
  case True
  then show ?thesis using try_send_owner [OF assms(1) _ _ _ assms(2)] by (auto simp: explained_def split: list.splits)
next
  case False
  then show ?thesis using try_send_not_owner [OF assms(1) _ assms(2)] by force
qed

text \<open>Within as many attempts as there are pending commands the queue is empty or the worker has given up.\<close>

lemma drained:
  assumes "dm_inv (gw_devices g)" "0 \<le> fd" "up_bound_node_id up \<noteq> []" "owner g up"
    and "length (pending g (up_bound_node_id up)) \<le> n"
    and "try_repeatedly (link_try_send transport encode os fd) n (g, up) = (r, g', up')"
  shows "up' = up \<and> owner g' up \<and> same_entry (up_bound_node_id up) g g' \<and> (\<exists>es. effect g es g' \<and> (\<forall>i. queued i es = []))
    \<and> (r = Worker_Error \<or> pending g' (up_bound_node_id up) = [])"
  using assms
proof (induction n arbitrary: g)
  case 0
  then show ?case using effect_refl [of g] by (auto simp: event_defs same_entry_def)
next
  case (Suc n)
  obtain r1 g1 up1 where t: "link_try_send transport encode os fd (g, up) = (r1, g1, up1)"
    by (cases "link_try_send transport encode os fd (g, up)")
  note o = try_send_owner [OF Suc.prems(1-4) t]
  obtain es where es: "effect g es g1" "\<forall>i. queued i es = []" "length (pending g1 (up_bound_node_id up)) \<le> n"
  proof (cases "pending g (up_bound_node_id up)")
    case Nil
    with o have e: "effect g [] g1" by simp
    then have "pending g1 (up_bound_node_id up) = []" using Nil by (simp add: effect_def event_defs)
    with e show ?thesis by (intro that [of "[]"]) (simp_all add: event_defs)
  next
    case (Cons c cs)
    with o obtain e where es: "effect g [e] g1" "\<forall>i. queued i [e] = []" "settled (up_bound_node_id up) [e] = [c]" by auto
    then have "pending g (up_bound_node_id up) = c # pending g1 (up_bound_node_id up)" by (simp add: effect_def)
    then show ?thesis using Suc.prems(5) by (intro that [OF es(1,2)]) simp
  qed
  show ?case
  proof (cases "r1 = Worker_Error")
    case True
    then show ?thesis using Suc.prems(6) t es o by auto
  next
    case False
    then have "try_repeatedly (link_try_send transport encode os fd) n (g1, up) = (r, g', up')"
      using Suc.prems(6) t o by simp
    from Suc.IH [OF effect_inv [OF es(1)] Suc.prems(2,3) _ es(3) this] o obtain fs where
      "up' = up" "owner g' up" "same_entry (up_bound_node_id up) g1 g'" "effect g1 fs g'" "\<forall>i. queued i fs = []" "r = Worker_Error \<or> pending g' (up_bound_node_id up) = []"
      by blast
    moreover from this have "effect g (es @ fs) g'" using effect_trans [OF es(1)] by blast
    moreover have "\<forall>i. queued i (es @ fs) = []" using es(2) \<open>\<forall>i. queued i fs = []\<close> by (simp add: event_defs)
    moreover have "same_entry (up_bound_node_id up) g g'"
      using o \<open>same_entry (up_bound_node_id up) g1 g'\<close> by (simp add: same_entry_def)
    ultimately show ?thesis by blast
  qed
qed

text \<open>An owner settles what is pending: by its attempts, or by hanging up after the one that failed.\<close>

lemma settles:
  assumes inv: "dm_inv (gw_devices g)" and fd: "0 \<le> fd" "up_bound_node_id up \<noteq> []"
    and v: "dm_abs (gw_devices g) (up_bound_node_id up) = Some v" "nv_online v" "nv_fd v = fd" "nv_thread_id v = up_thread up"
    and t: "try_repeatedly (link_try_send transport encode os fd) 8 (g, up) = (r, g1, up1)"
    and g2: "g2 = (if r = Worker_Error then link_hang_up fd (g1, up1) else g1)"
  shows "pending g2 (up_bound_node_id up) = [] \<and> (\<exists>es. effect g es g2 \<and> settled (up_bound_node_id up) es = pending g (up_bound_node_id up))"
proof -
  let ?i = "up_bound_node_id up"
  have own: "owner g up" using v by (simp add: owner_def)
  from drained [OF inv fd own pending_facts(1) [OF inv] t] obtain es where d:
    "up1 = up" "same_entry ?i g g1" "effect g es g1" "\<forall>i. queued i es = []" "r = Worker_Error \<or> pending g1 ?i = []" by blast
  obtain fs where fs: "effect g1 fs g2" "\<forall>i. queued i fs = []" "pending g2 ?i = []"
  proof (cases "r = Worker_Error")
    case True
    obtain v1 where v1: "dm_abs (gw_devices g1) ?i = Some v1" "v1\<lparr>nv_pending := []\<rparr> = v\<lparr>nv_pending := []\<rparr>"
      using d(2) v(1) by (auto simp: same_entry_def)
    from v1(2) have "nv_fd (v1\<lparr>nv_pending := []\<rparr>) = nv_fd v" "nv_thread_id (v1\<lparr>nv_pending := []\<rparr>) = nv_thread_id v" by simp_all
    then have "nv_fd v1 = fd" "nv_thread_id v1 = up_thread up" using v by simp_all
    from hang_up_owner [OF effect_inv [OF d(3)] fd(2,1) v1(1) this] have "pending g2 ?i = []"
      using True d(1) by (simp add: g2 pending_def)
    with hang_up_refuses [OF effect_inv [OF d(3)], of fd up transport] True d(1) show ?thesis by (auto simp: g2 intro: that)
  next
    case False
    then show ?thesis using d(5) effect_refl [OF effect_inv [OF d(3)]] by (intro that [of "[]"]) (simp_all add: g2 event_defs)
  qed
  have e: "effect g (es @ fs) g2" by (rule effect_trans [OF d(3) fs(1)])
  then have "pending g ?i @ queued ?i (es @ fs) = settled ?i (es @ fs) @ pending g2 ?i" by (simp add: effect_def)
  moreover have "queued ?i (es @ fs) = []" using d(4) fs(2) by (simp add: queued_def)
  ultimately have "settled ?i (es @ fs) = pending g ?i" using fs(3) by simp
  with e fs(3) show ?thesis by blast
qed

end

end
