(* ===== verification/Bluetooth_Worker.thy ===== *)
theory Bluetooth_Worker
  imports Device_Link
begin

text \<open>
  \<^verbatim>\<open>gateway/bluetooth_worker.c\<close>: the thread of the serial line. It opens the port, and while the
  connection lasts it alternates between sending a pending command and waiting 100 ms for bytes, which
  it feeds to the frame parser; when the connection is lost it refuses what is pending, forgets the
  identity of the node and opens the port again. The worker reads a script of what the system
  answers. \<open>*running\<close> is true until a script is exhausted and false from then on, so every run is
  finite and no fuel is needed. Other threads may act at every turn (\<open>bt_others\<close>). The lemmas: the
  worker is accountable for every command and hangs up only on its own connection.
\<close>

section \<open>Sending a command\<close>

definition bluetooth_worker_try_send_command :: "(nat \<Rightarrow> nat) \<Rightarrow> int \<Rightarrow> gateway \<times> upstream_context
    \<Rightarrow> send_result \<times> gateway \<times> upstream_context" where
  "bluetooth_worker_try_send_command os serial_fd s =
     (case s of (g, up) \<Rightarrow>
       if serial_fd < 0 then (Worker_Error, g, up)
       else if up_bound_node_id up = [] then (Nothing_Sent, g, up)
       else
         (case device_manager_try_dequeue_command (gw_devices g) (Some (up_bound_node_id up)) serial_fd (up_thread up)
                 (Some zero_frame_command) of
            (result, devs, command) \<Rightarrow>
              let g1 = g\<lparr>gw_devices := devs\<rparr>; c = the command in
              if result = DEVICE_MANAGER_QUEUE_EMPTY then (Nothing_Sent, g1, up)
              else if result = DEVICE_MANAGER_CONFLICT then (Worker_Error, g1, up)
              else if result \<noteq> DEVICE_MANAGER_OK then (Nothing_Sent, g1, up)
              else
                (case frame_build_command_kv (Some []) FRAME_MAX_LEN (Some (cmd_sender c)) (cmd_sequence c)
                        (Some (cmd_fields c)) (length (cmd_fields c)) of
                   (Inl e, frame) \<Rightarrow>
                     (Nothing_Sent,
                      log_event (Refused ''cmd_encode_failed'' c)
                        (gateway_app_enqueue_nack (Some (up_bound_node_id up)) (cmd_sequence c)
                          (Some ''cmd_encode_failed'') g1),
                      up)
                 | (Inr frame_length, frame) \<Rightarrow>
                     (case send_logged os serial_fd (take frame_length (the frame)) (gw_sent g1) of
                        (ok, log) \<Rightarrow>
                          if \<not> ok then
                            (Worker_Error,
                             log_event (Send_Failed DEVICE_TRANSPORT_BLUETOOTH c (last log))
                               (gateway_app_enqueue_nack (Some (up_bound_node_id up)) (cmd_sequence c)
                                 (Some ''transport_send_failed'') (g1\<lparr>gw_sent := log\<rparr>)),
                             up)
                          else
                            (Command_Sent,
                             log_event (Written DEVICE_TRANSPORT_BLUETOOTH c (last log)) (g1\<lparr>gw_sent := log\<rparr>),
                             up)))))"

section \<open>One connection\<close>

text \<open>
  A turn of the inner loop: what other threads do before it, the answer of \<open>poll\<close>, what
  \<open>serial_port_read\<close> returns if it is called, and the time.
\<close>

record bt_turn =
  bt_others :: "gateway \<Rightarrow> gateway"
  bt_poll :: poll_answer
  bt_read :: read_answer
  bt_now :: int

type_synonym bt_state = "gateway \<times> upstream_context \<times> frame_parser"

text \<open>The result says whether the connection was lost; otherwise \<open>*running\<close> ended the loop.\<close>

fun bluetooth_session :: "(nat \<Rightarrow> nat) \<Rightarrow> int \<Rightarrow> bt_turn list \<Rightarrow> bt_state \<Rightarrow> bool \<times> bt_state" where
  "bluetooth_session os serial_fd [] s = (False, s)"
| "bluetooth_session os serial_fd (t # ts) (g, up, p) =
     (case bluetooth_worker_try_send_command os serial_fd (bt_others t g, up) of
        (command_result, g1, up1) \<Rightarrow>
          if command_result = Worker_Error then (True, g1, up1, p)
          else
            (case bt_poll t of
               Poll_Interrupted \<Rightarrow> bluetooth_session os serial_fd ts (g1, up1, p)
             | Poll_Failed \<Rightarrow> (True, g1, up1, p)
             | Poll_Timeout \<Rightarrow> bluetooth_session os serial_fd ts (g1, up1, p)
             | Poll_Ready ev \<Rightarrow>
                 let hung_up = (pollhup ev \<or> pollerr ev \<or> pollnval ev) in
                 if pollin ev then
                   (case bt_read t of
                      Bytes bytes \<Rightarrow>
                        if bytes = [] then (True, g1, up1, p)
                        else
                          (case frame_parser_feed (Some (gateway_app_on_frame (bt_now t))) p (Some bytes) (g1, up1) of
                             (p2, (g2, up2), n) \<Rightarrow>
                               if hung_up then (True, g2, up2, p2)
                               else bluetooth_session os serial_fd ts (g2, up2, p2))
                    | Read_Would_Block \<Rightarrow> bluetooth_session os serial_fd ts (g1, up1, p)
                    | _ \<Rightarrow> (True, g1, up1, p))
                 else if hung_up then (True, g1, up1, p)
                 else bluetooth_session os serial_fd ts (g1, up1, p)))"

text \<open>After the inner loop.\<close>

definition bluetooth_worker_disconnect :: "int \<Rightarrow> gateway \<times> upstream_context \<Rightarrow> gateway" where
  "bluetooth_worker_disconnect serial_fd s =
     (case s of (g, up) \<Rightarrow>
       if up_bound_node_id up = [] then g
       else
         (case collected (device_manager_disconnect_collect_commands (gw_devices g) (Some (up_bound_node_id up)) serial_fd
                 (up_thread up) (Some (replicate DEVICE_COMMAND_QUEUE_CAPACITY zero_frame_command))
                 DEVICE_COMMAND_QUEUE_CAPACITY (Some 0)) of
            (disconnect_result, devs, pending_commands) \<Rightarrow>
              if disconnect_result = DEVICE_MANAGER_OK
              then nack_commands ''transport_disconnected'' pending_commands (g\<lparr>gw_devices := devs\<rparr>)
              else g\<lparr>gw_devices := devs\<rparr>))"

section \<open>The worker\<close>

text \<open>
  A turn of the outer loop: the answers while opening the port, the turns of the inner loop, and what
  other threads do before the worker hangs up (or while it sleeps, when the port does not open).
\<close>

record bt_connection =
  bc_open :: "int \<times> bool \<times> bool \<times> bool \<times> bool"
  bc_turns :: "bt_turn list"
  bc_others :: "gateway \<Rightarrow> gateway"

abbreviation set_serial_fd :: "int \<Rightarrow> gateway \<Rightarrow> gateway" where
  "set_serial_fd fd g \<equiv> g\<lparr>gw_context := (gw_context g)\<lparr>gc_serial_fd := fd\<rparr>\<rparr>"

fun bluetooth_loop :: "(nat \<Rightarrow> nat) \<Rightarrow> string \<Rightarrow> int \<Rightarrow> bt_connection list \<Rightarrow> bt_state \<Rightarrow> bt_state" where
  "bluetooth_loop os serial_device baud_rate [] s = s"
| "bluetooth_loop os serial_device baud_rate (k # ks) (g, up, p) =
     (case bc_open k of (fd, getattr_ok, setspeed_ok, setattr_ok, flush_ok) \<Rightarrow>
       let serial_fd = fst (serial_port_open (Some serial_device) baud_rate fd getattr_ok setspeed_ok setattr_ok flush_ok) in
       if serial_fd < 0 then bluetooth_loop os serial_device baud_rate ks (bc_others k g, up, p)
       else
         (case bluetooth_session os serial_fd (bc_turns k)
                 (g\<lparr>gw_context := (gw_context g)\<lparr>gc_serial_connections := gc_serial_connections (gw_context g) + 1,
                     gc_serial_fd := serial_fd\<rparr>\<rparr>,
                  up\<lparr>up_device_fd := serial_fd\<rparr>, frame_parser_reset p) of
            (disconnected, g1, up1, p1) \<Rightarrow>
              let g2 = set_serial_fd (-1) (bluetooth_worker_disconnect serial_fd (bc_others k g1, up1));
                  up2 = up1\<lparr>up_bound_node_id := [], up_device_fd := -1\<rparr>
              in if disconnected then bluetooth_loop os serial_device baud_rate ks (g2, up2, p1)
                 else (g2, up2, p1)))"

definition bluetooth_worker :: "(nat \<Rightarrow> nat) \<Rightarrow> nat \<Rightarrow> string option \<Rightarrow> int \<Rightarrow> bt_connection list \<Rightarrow> gateway \<times> frame_parser
    \<Rightarrow> gateway \<times> frame_parser" where
  "bluetooth_worker os thread serial_device baud_rate ks s =
     (case s of (g, p) \<Rightarrow>
       (case serial_device of
          None \<Rightarrow> (g, p)
        | Some device \<Rightarrow>
            (case bluetooth_loop os device baud_rate ks
                    (g, \<lparr>up_transport = DEVICE_TRANSPORT_BLUETOOTH, up_device_fd = -1, up_bound_node_id = [],
                         up_thread = thread\<rparr>, p) of
               (g1, up1, p1) \<Rightarrow> (set_serial_fd (-1) g1, p1))))"

section \<open>The worker as a link\<close>

definition frame_encoding :: "frame_command \<Rightarrow> string option" where
  "frame_encoding c =
     (case frame_build_command_kv (Some []) FRAME_MAX_LEN (Some (cmd_sender c)) (cmd_sequence c)
             (Some (cmd_fields c)) (length (cmd_fields c)) of
        (Inl e, frame) \<Rightarrow> None
      | (Inr n, frame) \<Rightarrow> Some (take n (the frame)))"

interpretation bluetooth: command_link DEVICE_TRANSPORT_BLUETOOTH frame_encoding
proof
  fix c b
  assume "frame_encoding c = Some b"
  then obtain n frame where f: "build_kv_frame (Some []) FRAME_MAX_LEN (Some (cmd_sender c)) (cmd_sequence c) ''CMD''
        (Some (cmd_fields c)) (length (cmd_fields c)) = (Inr n, frame)" "b = take n (the frame)"
    by (auto simp: frame_encoding_def frame_build_command_kv_def split: prod.splits sum.splits)
  from f(1) have "frame = Some (frame_of (kv_payload (cmd_sender c) (unat (cmd_sequence c mod 1000000)) ''CMD'' (cmd_fields c)))"
    "n = length (kv_payload (cmd_sender c) (unat (cmd_sequence c mod 1000000)) ''CMD'' (cmd_fields c)) + 8"
    unfolding build_kv_frame_Inr by (auto simp: Let_def)
  then show "b = command_bytes DEVICE_TRANSPORT_BLUETOOTH c" by (simp add: command_bytes_def f(2) frame_of_def)
qed

lemma bluetooth_try_send_link: "bluetooth_worker_try_send_command = link_try_send DEVICE_TRANSPORT_BLUETOOTH frame_encoding"
proof (intro ext)
  fix os fd and s :: "gateway \<times> upstream_context"
  obtain g up where s: "s = (g, up)" by (cases s)
  obtain r devs c where d: "device_manager_try_dequeue_command (gw_devices g) (Some (up_bound_node_id up)) fd (up_thread up)
      (Some zero_frame_command) = (r, devs, c)"
    by (cases "device_manager_try_dequeue_command (gw_devices g) (Some (up_bound_node_id up)) fd (up_thread up)
      (Some zero_frame_command)")
  obtain b frame where f: "frame_build_command_kv (Some []) FRAME_MAX_LEN (Some (cmd_sender (the c))) (cmd_sequence (the c))
      (Some (cmd_fields (the c))) (length (cmd_fields (the c))) = (b, frame)" by fastforce
  show "bluetooth_worker_try_send_command os fd s = link_try_send DEVICE_TRANSPORT_BLUETOOTH frame_encoding os fd s"
    using f
    by (cases b)
      (simp_all add: s d bluetooth_worker_try_send_command_def link_try_send_def link_send_def frame_encoding_def Let_def
        split: prod.split)
qed

lemma bluetooth_disconnect_link: "bluetooth_worker_disconnect = link_hang_up"
  by (intro ext) (simp add: bluetooth_worker_disconnect_def link_hang_up_def split: prod.split)

section \<open>The worker is accountable\<close>

abbreviation bluetooth_event :: "event \<Rightarrow> bool" where
  "bluetooth_event \<equiv> worker_event DEVICE_TRANSPORT_BLUETOOTH"

lemma bluetooth_session_explained:
  assumes "dm_inv (gw_devices g)" "list_all (\<lambda>t. accountable_by A (bt_others t)) ts" "\<And>e. bluetooth_event e \<Longrightarrow> A e"
  shows "explained A g (fst (snd (bluetooth_session os fd ts (g, up, p))))"
  using assms(1,2)
proof (induction ts arbitrary: g up p)
  case Nil
  then show ?case using explained_refl by simp
next
  case (Cons t ts)
  from Cons.prems have ex0: "explained A g (bt_others t g)" by (simp add: accountable_by_def)
  obtain r g1 up1 where s: "bluetooth_worker_try_send_command os fd (bt_others t g, up) = (r, g1, up1)"
    by (cases "bluetooth_worker_try_send_command os fd (bt_others t g, up)")
  have "explained bluetooth_event (bt_others t g) g1"
    using bluetooth.try_send_explained [OF explained_inv [OF ex0] s [unfolded bluetooth_try_send_link]] by simp
  then have ex1: "explained A g g1" using explained_trans [OF ex0 explained_mono [OF _ assms(3)]] by blast
  have go: "explained A g (fst (snd (bluetooth_session os fd ts (g2, up2, p2))))" if "explained A g g2" for g2 up2 p2
    using Cons.IH [OF explained_inv [OF that], of up2 p2] Cons.prems(2) explained_trans [OF that] by simp
  have feed: "explained A g (fst (fst (snd (frame_parser_feed (Some (gateway_app_on_frame now)) p data (g1, up1)))))"
    for now data
  proof (rule frame_parser_feed_keeps [where P = "\<lambda>u. explained A g (fst u)"])
    fix f and u :: "gateway \<times> upstream_context"
    assume u: "explained A g (fst u)"
    show "explained A g (fst (gateway_app_on_frame now f u))"
      using frame_explained [OF explained_inv [OF u], of now f "snd u"] explained_trans [OF u explained_mono [OF _ assms(3)]]
      by simp
  qed (use ex1 in auto)
  show ?case
  proof (cases "bt_poll t")
    case (Poll_Ready ev)
    show ?thesis
    proof (cases "bt_read t")
      case (Bytes bytes)
      obtain p2 g2 up2 n where f: "frame_parser_feed (Some (gateway_app_on_frame (bt_now t))) p (Some bytes) (g1, up1) = (p2, (g2, up2), n)"
        by (metis prod.collapse)
      from feed [of "bt_now t" "Some bytes"] f have "explained A g g2" by simp
      with go [OF this] go [OF ex1] ex1 show ?thesis
        by (auto simp: s f Poll_Ready Bytes Let_def)
    qed (use Poll_Ready go [OF ex1] ex1 in \<open>auto simp: s Let_def\<close>)
  qed (use go [OF ex1] ex1 in \<open>auto simp: s\<close>)
qed

lemma bluetooth_loop_explained:
  assumes "dm_inv (gw_devices g)"
    "list_all (\<lambda>k. accountable_by A (bc_others k) \<and> list_all (\<lambda>t. accountable_by A (bt_others t)) (bc_turns k)) ks"
    "\<And>e. bluetooth_event e \<Longrightarrow> A e"
  shows "explained A g (fst (bluetooth_loop os device baud ks (g, up, p)))"
  using assms(1,2)
proof (induction ks arbitrary: g up p)
  case Nil
  then show ?case using explained_refl by simp
next
  case (Cons k ks)
  have go: "explained A g (fst (bluetooth_loop os device baud ks (g2, up2, p2)))" if "explained A g g2" for g2 up2 p2
    using Cons.IH [OF explained_inv [OF that], of up2 p2] Cons.prems(2) explained_trans [OF that] by simp
  have others: "explained A g (bc_others k h)" if "explained A g h" for h
    using Cons.prems(2) accountable_after [OF _ that] by simp
  obtain fd a b c d where o: "bc_open k = (fd, a, b, c, d)" by (cases "bc_open k")
  define serial_fd where "serial_fd = fst (serial_port_open (Some device) baud fd a b c d)"
  define g0 where "g0 = g\<lparr>gw_context := (gw_context g)\<lparr>gc_serial_connections := gc_serial_connections (gw_context g) + 1,
      gc_serial_fd := serial_fd\<rparr>\<rparr>"
  show ?case
  proof (cases "serial_fd < 0")
    case True
    from go [OF others [OF explained_refl [OF Cons.prems(1)]]] True show ?thesis by (simp add: o serial_fd_def [symmetric])
  next
    case False
    obtain disc g1 up1 p1 where s: "bluetooth_session os serial_fd (bc_turns k)
        (g0, up\<lparr>up_device_fd := serial_fd\<rparr>, frame_parser_reset p) = (disc, g1, up1, p1)" by (metis prod_cases4)
    have g0: "same_books g g0" "dm_inv (gw_devices g0)" using Cons.prems(1) by (simp_all add: g0_def same_books_def)
    have "explained A g0 g1"
      using bluetooth_session_explained [OF g0(2), of A "bc_turns k" os serial_fd "up\<lparr>up_device_fd := serial_fd\<rparr>" "frame_parser_reset p"]
        Cons.prems(2) s assms(3) by simp
    note ex = others [OF explained_same_left [OF g0(1) this]]
    from explained_trans [OF ex explained_mono [OF hang_up_explained [OF explained_inv [OF ex]] assms(3)]]
    have "explained A g (link_hang_up serial_fd (bc_others k g1, up1))" .
    then have ex3: "explained A g (set_serial_fd (-1) (bluetooth_worker_disconnect serial_fd (bc_others k g1, up1)))"
      by (rule explained_same_right) (simp add: same_books_def bluetooth_disconnect_link)
    from go [OF ex3] ex3 False show ?thesis
      by (auto simp: o serial_fd_def [symmetric] g0_def [symmetric] s Let_def)
  qed
qed

text \<open>C29: The Bluetooth worker loses no command: whatever the serial line and the system do over any
  number of connections, and whatever accountable things other threads do in between (their events are
  in some set \<open>A\<close>), the events that the history gains account for the run: for every node the commands
  pending before and those queued since are, in order, those settled and those still pending; what
  is settled was written in full or refused by exactly one pushed NACK; every push and every send
  belongs to one event. The events that are not of the others are those of a worker on Bluetooth: it
  writes commands as CMD frames only, pushes only NACKs for commands it settles and reports of
  frames, and neither queues commands nor sends anything else. At the end the serial descriptor is
  withdrawn.\<close>
theorem bluetooth_worker_accountable:
  assumes "dm_inv (gw_devices g)"
    "list_all (\<lambda>k. accountable_by A (bc_others k) \<and> list_all (\<lambda>t. accountable_by A (bt_others t)) (bc_turns k)) ks"
  shows "case bluetooth_worker os thread serial_device baud_rate ks (g, p) of (g', p') \<Rightarrow>
     (\<exists>es. effect g es g' \<and> list_all (\<lambda>e. A e \<or> worker_event DEVICE_TRANSPORT_BLUETOOTH e) es)
     \<and> (serial_device \<noteq> None \<longrightarrow> gc_serial_fd (gw_context g') = -1)"
proof (cases serial_device)
  case None
  then show ?thesis using effect_refl [OF assms(1)] by (force simp: bluetooth_worker_def)
next
  case (Some device)
  let ?up = "\<lparr>up_transport = DEVICE_TRANSPORT_BLUETOOTH, up_device_fd = -1, up_bound_node_id = [], up_thread = thread\<rparr>"
  let ?A = "\<lambda>e. A e \<or> bluetooth_event e"
  obtain g1 up1 p1 where l: "bluetooth_loop os device baud_rate ks (g, ?up, p) = (g1, up1, p1)" by (metis prod_cases3)
  have "list_all (\<lambda>k. accountable_by ?A (bc_others k) \<and> list_all (\<lambda>t. accountable_by ?A (bt_others t)) (bc_turns k)) ks"
    using assms(2) by (auto simp: list_all_iff intro: accountable_mono)
  from bluetooth_loop_explained [OF assms(1) this, of os device baud_rate ?up p] l have "explained ?A g g1" by auto
  then have "explained ?A g (set_serial_fd (-1) g1)" by (rule explained_same_right) (simp add: same_books_def)
  then show ?thesis using Some l by (auto simp: bluetooth_worker_def explained_def)
qed

theorem bluetooth_worker_accountable_witness:
  "\<exists>es. list_all (\<lambda>e. link_event e \<or> worker_event DEVICE_TRANSPORT_BLUETOOTH e) es
     \<and> effect example_gateway es (fst (bluetooth_worker (\<lambda>i. 4) 2 (Some ''/dev/rfcomm0'') 9600
     [\<lparr>bc_open = (-1, True, True, True, True), bc_turns = [], bc_others = gateway_app_on_tcp_line (\<lambda>i. 4) ''{}''\<rparr>,
      \<lparr>bc_open = (5, True, True, True, True),
       bc_turns = [\<lparr>bt_others = \<lambda>g. g,
         bt_poll = Poll_Ready \<lparr>pollin = True, pollout = False, pollhup = False, pollerr = False, pollnval = False\<rparr>,
         bt_read = Bytes (frame_of ''1,N1,000003,NACK,ERR=busy''), bt_now = 20\<rparr>],
       bc_others = \<lambda>g. g\<rparr>]
     (example_gateway, frame_parser_init)))"
  using bluetooth_worker_accountable [OF example_gateway_inv(1), of link_event
     "[\<lparr>bc_open = (-1, True, True, True, True), bc_turns = [], bc_others = gateway_app_on_tcp_line (\<lambda>i. 4) ''{}''\<rparr>,
      \<lparr>bc_open = (5, True, True, True, True),
       bc_turns = [\<lparr>bt_others = \<lambda>g. g,
         bt_poll = Poll_Ready \<lparr>pollin = True, pollout = False, pollhup = False, pollerr = False, pollnval = False\<rparr>,
         bt_read = Bytes (frame_of ''1,N1,000003,NACK,ERR=busy''), bt_now = 20\<rparr>],
       bc_others = \<lambda>g. g\<rparr>]", where serial_device = "Some ''/dev/rfcomm0''" and thread = 2
       and os = "\<lambda>i. 4" and baud_rate = 9600 and p = frame_parser_init]
  by (auto simp: accountable_id tcp_line_accountable case_prod_beta)

end
