(* ===== verification/Wifi_Client.thy ===== *)
theory Wifi_Client
  imports Device_Link Line_Parser
begin

text \<open>
  \<^verbatim>\<open>gateway/wifi_client.c\<close>: the thread of one Wi-Fi node, with commands and reports as JSON lines, and
  the counter of the running threads. As for the Bluetooth worker, the thread reads a script of what
  the system answers, \<open>*running\<close> is true until the script is exhausted, and other threads may act at
  every turn. The receive buffer has 1024 bytes. The lemmas: the worker is accountable for every
  command; the buffer is never overrun; the main thread that waits for the workers is woken by the
  last one.
\<close>

section \<open>Sending a command\<close>

definition wifi_client_try_send_command :: "(nat \<Rightarrow> nat) \<Rightarrow> int \<Rightarrow> gateway \<times> upstream_context
    \<Rightarrow> send_result \<times> gateway \<times> upstream_context" where
  "wifi_client_try_send_command os client_fd s =
     (case s of (g, up) \<Rightarrow>
       if client_fd < 0 then (Worker_Error, g, up)
       else if up_bound_node_id up = [] then (Nothing_Sent, g, up)
       else
         (case device_manager_try_dequeue_command (gw_devices g) (Some (up_bound_node_id up)) client_fd (up_thread up)
                 (Some zero_frame_command) of
            (result, devs, command) \<Rightarrow>
              let g1 = g\<lparr>gw_devices := devs\<rparr>; c = the command in
              if result = DEVICE_MANAGER_QUEUE_EMPTY then (Nothing_Sent, g1, up)
              else if result = DEVICE_MANAGER_CONFLICT then (Worker_Error, g1, up)
              else if result \<noteq> DEVICE_MANAGER_OK then (Nothing_Sent, g1, up)
              else
                (case message_json_build_command (Some []) 256 (Some c) of
                   (None, json) \<Rightarrow>
                     (Nothing_Sent,
                      log_event (Refused ''cmd_encode_failed'' c)
                        (gateway_app_enqueue_nack (Some (up_bound_node_id up)) (cmd_sequence c)
                          (Some ''cmd_encode_failed'') g1),
                      up)
                 | (Some json_length, json) \<Rightarrow>
                     (case send_logged os client_fd (take json_length (the json)) (gw_sent g1) of
                        (ok, log) \<Rightarrow>
                          if \<not> ok then
                            (Worker_Error,
                             log_event (Send_Failed DEVICE_TRANSPORT_WIFI c (last log))
                               (gateway_app_enqueue_nack (Some (up_bound_node_id up)) (cmd_sequence c)
                                 (Some ''transport_send_failed'') (g1\<lparr>gw_sent := log\<rparr>)),
                             up)
                          else
                            (Command_Sent,
                             log_event (Written DEVICE_TRANSPORT_WIFI c (last log)) (g1\<lparr>gw_sent := log\<rparr>),
                             up)))))"

section \<open>The main loop\<close>

definition WIFI_CLIENT_BUFFER_SIZE :: nat where "WIFI_CLIENT_BUFFER_SIZE = 1024"

text \<open>A turn: what other threads do before it, the answers of \<open>poll\<close> and \<open>recv\<close>, and the time.\<close>

record wifi_turn =
  wt_others :: "gateway \<Rightarrow> gateway"
  wt_poll :: poll_answer
  wt_recv :: read_answer
  wt_now :: int

type_synonym wifi_state = "gateway \<times> upstream_context \<times> string"

fun wifi_client_loop :: "(nat \<Rightarrow> nat) \<Rightarrow> int \<Rightarrow> wifi_turn list \<Rightarrow> wifi_state \<Rightarrow> wifi_state" where
  "wifi_client_loop os client_fd [] s = s"
| "wifi_client_loop os client_fd (t # ts) (g, up, buf) =
     (case wifi_client_try_send_command os client_fd (wt_others t g, up) of
        (command_result, g1, up1) \<Rightarrow>
          if command_result = Worker_Error then (g1, up1, buf)
          else
            (case wt_poll t of
               Poll_Interrupted \<Rightarrow> wifi_client_loop os client_fd ts (g1, up1, buf)
             | Poll_Failed \<Rightarrow> (g1, up1, buf)
             | Poll_Timeout \<Rightarrow> wifi_client_loop os client_fd ts (g1, up1, buf)
             | Poll_Ready ev \<Rightarrow>
                 let hung_up = (pollhup ev \<or> pollerr ev \<or> pollnval ev) in
                 if pollin ev then
                   (case wt_recv t of
                      Bytes bytes \<Rightarrow>
                        if bytes = [] then (g1, up1, buf)
                        else if WIFI_CLIENT_BUFFER_SIZE < length buf + length bytes
                        then wifi_client_loop os client_fd ts (g1, up1, [])
                        else
                          (case line_parser_feed (Some (buf @ bytes)) WIFI_CLIENT_BUFFER_SIZE
                                  (Some (gateway_app_on_wifi_line (wt_now t))) (g1, up1) of
                             (rest, (g2, up2), n) \<Rightarrow> wifi_client_loop os client_fd ts (g2, up2, the rest))
                    | Read_Would_Block \<Rightarrow> wifi_client_loop os client_fd ts (g1, up1, buf)
                    | Read_Failed \<Rightarrow> (g1, up1, buf)
                    | Read_Interrupted \<Rightarrow>
                        if hung_up then (g1, up1, buf) else wifi_client_loop os client_fd ts (g1, up1, buf))
                 else if hung_up then (g1, up1, buf)
                 else wifi_client_loop os client_fd ts (g1, up1, buf)))"

definition wifi_client_disconnect :: "int \<Rightarrow> gateway \<times> upstream_context \<Rightarrow> gateway" where
  "wifi_client_disconnect client_fd s =
     (case s of (g, up) \<Rightarrow>
       if up_bound_node_id up = [] then g
       else
         (case collected (device_manager_disconnect_collect_commands (gw_devices g) (Some (up_bound_node_id up)) client_fd
                 (up_thread up) (Some (replicate DEVICE_COMMAND_QUEUE_CAPACITY zero_frame_command))
                 DEVICE_COMMAND_QUEUE_CAPACITY (Some 0)) of
            (disconnect_result, devs, pending_commands) \<Rightarrow>
              if disconnect_result = DEVICE_MANAGER_OK
              then nack_commands ''transport_disconnected'' pending_commands (g\<lparr>gw_devices := devs\<rparr>)
              else g\<lparr>gw_devices := devs\<rparr>))"

section \<open>The counter of running workers\<close>

text \<open>
  \<open>active_workers\<close> is the field of \<open>wifi_worker_group_t\<close>; a result \<open>True\<close> is a broadcast on \<open>all_stopped\<close>.
  \<open>wifi_worker_group_wait\<close> returns when it sees the counter at 0 (\<open>Some\<close>) and waits otherwise.
\<close>

record wifi_worker_group =
  active_workers :: nat

definition wifi_worker_group_init :: "wifi_worker_group \<Rightarrow> int \<Rightarrow> int \<Rightarrow> bool \<times> wifi_worker_group" where
  "wifi_worker_group_init workers mutex_init cond_init =
     (let workers' = workers\<lparr>active_workers := 0\<rparr> in
      if mutex_init \<noteq> 0 then (False, workers')
      else if cond_init \<noteq> 0 then (False, workers')
      else (True, workers'))"

definition wifi_worker_group_add :: "wifi_worker_group \<Rightarrow> wifi_worker_group" where
  "wifi_worker_group_add workers = workers\<lparr>active_workers := active_workers workers + 1\<rparr>"

definition wifi_worker_group_remove :: "wifi_worker_group \<Rightarrow> bool \<times> wifi_worker_group" where
  "wifi_worker_group_remove workers =
     (let workers' = (if 0 < active_workers workers then workers\<lparr>active_workers := active_workers workers - 1\<rparr> else workers)
      in (active_workers workers' = 0, workers'))"

definition wifi_worker_group_wait :: "wifi_worker_group \<Rightarrow> wifi_worker_group option" where
  "wifi_worker_group_wait workers = (if 0 < active_workers workers then None else Some workers)"

section \<open>The worker\<close>

text \<open>
  \<open>flags\<close> and \<open>setfl_ok\<close> are the answers while making the socket non-blocking, \<open>others\<close> what other
  threads do before the worker hangs up. The worker leaves the group at its very end, on every path;
  the last component of the result is whether that woke the main thread.
\<close>

definition wifi_client_worker :: "(nat \<Rightarrow> nat) \<Rightarrow> nat \<Rightarrow> int \<Rightarrow> int \<Rightarrow> bool \<Rightarrow> wifi_turn list \<Rightarrow> (gateway \<Rightarrow> gateway)
    \<Rightarrow> gateway \<times> wifi_worker_group \<Rightarrow> gateway \<times> wifi_worker_group \<times> bool" where
  "wifi_client_worker os thread client_fd flags setfl_ok ts others s =
     (case s of (g, workers) \<Rightarrow>
       if \<not> wifi_client_set_nonblocking client_fd flags setfl_ok
       then (case wifi_worker_group_remove workers of (woken, workers') \<Rightarrow> (g, workers', woken))
       else
         (case wifi_client_loop os client_fd ts
                 (g, \<lparr>up_transport = DEVICE_TRANSPORT_WIFI, up_device_fd = client_fd, up_bound_node_id = [],
                      up_thread = thread\<rparr>, []) of
            (g1, up1, buf) \<Rightarrow>
              (case wifi_worker_group_remove workers of (woken, workers') \<Rightarrow>
                 (wifi_client_disconnect client_fd (others g1, up1), workers', woken))))"

section \<open>The worker as a link\<close>

definition json_encoding :: "frame_command \<Rightarrow> string option" where
  "json_encoding c =
     (case message_json_build_command (Some []) 256 (Some c) of
        (None, json) \<Rightarrow> None
      | (Some n, json) \<Rightarrow> Some (take n (the json)))"

interpretation wifi: command_link DEVICE_TRANSPORT_WIFI json_encoding
  by unfold_locales (auto simp: json_encoding_def command_bytes_def csimps json_written_def split: if_splits)

lemma wifi_try_send_link: "wifi_client_try_send_command = link_try_send DEVICE_TRANSPORT_WIFI json_encoding"
proof (intro ext)
  fix os fd and s :: "gateway \<times> upstream_context"
  obtain g up where s: "s = (g, up)" by (cases s)
  obtain r devs c where d: "device_manager_try_dequeue_command (gw_devices g) (Some (up_bound_node_id up)) fd (up_thread up)
      (Some zero_frame_command) = (r, devs, c)"
    by (cases "device_manager_try_dequeue_command (gw_devices g) (Some (up_bound_node_id up)) fd (up_thread up)
      (Some zero_frame_command)")
  obtain b json where f: "message_json_build_command (Some []) 256 (Some (the c)) = (b, json)" by fastforce
  show "wifi_client_try_send_command os fd s = link_try_send DEVICE_TRANSPORT_WIFI json_encoding os fd s"
    using f
    by (cases b)
      (simp_all add: s d wifi_client_try_send_command_def link_try_send_def link_send_def json_encoding_def Let_def
        split: prod.split)
qed

lemma wifi_disconnect_link: "wifi_client_disconnect = link_hang_up"
  by (intro ext) (simp add: wifi_client_disconnect_def link_hang_up_def split: prod.split)

section \<open>The worker is accountable\<close>

abbreviation wifi_event :: "event \<Rightarrow> bool" where
  "wifi_event \<equiv> worker_event DEVICE_TRANSPORT_WIFI"

lemma wifi_loop_explained:
  assumes "dm_inv (gw_devices g)" "list_all (\<lambda>t. accountable_by A (wt_others t)) ts" "length buf \<le> WIFI_CLIENT_BUFFER_SIZE"
    "\<And>e. wifi_event e \<Longrightarrow> A e"
  shows "explained A g (fst (wifi_client_loop os fd ts (g, up, buf)))
    \<and> length (snd (snd (wifi_client_loop os fd ts (g, up, buf)))) \<le> WIFI_CLIENT_BUFFER_SIZE"
  using assms(1-3)
proof (induction ts arbitrary: g up buf)
  case Nil
  then show ?case using explained_refl by simp
next
  case (Cons t ts)
  from Cons.prems have ex0: "explained A g (wt_others t g)" by (simp add: accountable_by_def)
  obtain r g1 up1 where s: "wifi_client_try_send_command os fd (wt_others t g, up) = (r, g1, up1)"
    by (cases "wifi_client_try_send_command os fd (wt_others t g, up)")
  have "explained wifi_event (wt_others t g) g1"
    using wifi.try_send_explained [OF explained_inv [OF ex0] s [unfolded wifi_try_send_link]] by simp
  then have ex1: "explained A g g1" using explained_trans [OF ex0 explained_mono [OF _ assms(4)]] by blast
  have go: "explained A g (fst (wifi_client_loop os fd ts (g2, up2, b2)))
      \<and> length (snd (snd (wifi_client_loop os fd ts (g2, up2, b2)))) \<le> WIFI_CLIENT_BUFFER_SIZE"
    if "explained A g g2" "length b2 \<le> WIFI_CLIENT_BUFFER_SIZE" for g2 up2 b2
    using Cons.IH [OF explained_inv [OF that(1)] _ that(2), of up2] Cons.prems(2) explained_trans [OF that(1)] by simp
  have feed: "explained A g (fst (fst (snd (line_parser_feed data cap (Some (gateway_app_on_wifi_line now)) (g1, up1)))))"
    for now data cap
  proof (rule line_parser_feed_keeps [where P = "\<lambda>u. explained A g (fst u)"])
    fix l and u :: "gateway \<times> upstream_context"
    assume u: "explained A g (fst u)"
    show "explained A g (fst (gateway_app_on_wifi_line now l u))"
      using line_explained [OF explained_inv [OF u], of now l "snd u"] explained_trans [OF u explained_mono [OF _ assms(4)]]
      by simp
  qed (use ex1 in auto)
  show ?case
  proof (cases "wt_poll t")
    case (Poll_Ready ev)
    show ?thesis
    proof (cases "wt_recv t")
      case (Bytes bytes)
      obtain rest g2 up2 n where f: "line_parser_feed (Some (buf @ bytes)) WIFI_CLIENT_BUFFER_SIZE
          (Some (gateway_app_on_wifi_line (wt_now t))) (g1, up1) = (rest, (g2, up2), n)"
        by (metis prod.collapse)
      from feed [of "Some (buf @ bytes)" WIFI_CLIENT_BUFFER_SIZE "wt_now t"] f have ex2: "explained A g g2" by simp
      have "length (the rest) \<le> length (buf @ bytes)"
        using f line_parser_rest_length [of "buf @ bytes" WIFI_CLIENT_BUFFER_SIZE "Some (gateway_app_on_wifi_line (wt_now t))" "(g1, up1)"]
        by simp
      then show ?thesis
        using go [OF ex2, of "the rest"] go [OF ex1, of buf] go [OF ex1, of "[]"] ex1 Cons.prems(3)
        by (auto simp: s f Poll_Ready Bytes Let_def)
    qed (use Poll_Ready go [OF ex1] ex1 Cons.prems(3) in \<open>auto simp: s Let_def\<close>)
  qed (use go [OF ex1] ex1 Cons.prems(3) in \<open>auto simp: s\<close>)
qed

text \<open>C30: A Wi-Fi worker loses no command: whatever its socket and the system do, and whatever
  accountable things other threads do in between (their events are in some set \<open>A\<close>), the events that the
  history gains account for the run, as for the Bluetooth worker; those that are not of the others
  are the events of a worker on Wi-Fi: commands written as JSON lines, NACKs for the commands it
  settles, and reports of lines. When it leaves its loop, after any number of turns, the receive buffer
  is not overrun; and it leaves the group of workers exactly once, on every path, waking the main
  thread if it is the last.\<close>
theorem wifi_worker_accountable:
  assumes "dm_inv (gw_devices g)" "list_all (\<lambda>t. accountable_by A (wt_others t)) ts" "accountable_by A others"
  shows "case wifi_client_worker os thread client_fd flags setfl_ok ts others (g, workers) of (g', workers', woken) \<Rightarrow>
     (\<exists>es. effect g es g' \<and> list_all (\<lambda>e. A e \<or> worker_event DEVICE_TRANSPORT_WIFI e) es)
     \<and> length (snd (snd (wifi_client_loop os client_fd ts
          (g, \<lparr>up_transport = DEVICE_TRANSPORT_WIFI, up_device_fd = client_fd, up_bound_node_id = [], up_thread = thread\<rparr>, []))))
        \<le> WIFI_CLIENT_BUFFER_SIZE
     \<and> active_workers workers' = active_workers workers - 1
     \<and> woken = (wifi_worker_group_wait workers' \<noteq> None)"
proof -
  let ?up = "\<lparr>up_transport = DEVICE_TRANSPORT_WIFI, up_device_fd = client_fd, up_bound_node_id = [], up_thread = thread\<rparr>"
  let ?A = "\<lambda>e. A e \<or> wifi_event e"
  obtain g1 up1 buf where l: "wifi_client_loop os client_fd ts (g, ?up, []) = (g1, up1, buf)" by (metis prod_cases3)
  have "list_all (\<lambda>t. accountable_by ?A (wt_others t)) ts" "accountable_by ?A others"
    using assms(2,3) by (auto simp: list_all_iff intro: accountable_mono)
  with wifi_loop_explained [OF assms(1), of ?A ts "[]" os client_fd ?up] l
  have ex: "explained ?A g g1" "length buf \<le> WIFI_CLIENT_BUFFER_SIZE" "accountable_by ?A others" by auto
  note ex2 = accountable_after [OF ex(3,1)]
  have "explained ?A (others g1) (wifi_client_disconnect client_fd (others g1, up1))"
    unfolding wifi_disconnect_link
    by (rule explained_mono [OF hang_up_explained [OF explained_inv [OF ex2], of DEVICE_TRANSPORT_WIFI]]) simp
  from explained_trans [OF ex2 this] have "explained ?A g (wifi_client_disconnect client_fd (others g1, up1))" .
  then show ?thesis using l ex(2) explained_refl [OF assms(1), of ?A]
    by (auto simp: wifi_client_worker_def wifi_worker_group_remove_def wifi_worker_group_wait_def Let_def explained_def)
qed

theorem wifi_worker_accountable_witness:
  "\<exists>es. list_all (\<lambda>e. link_event e \<or> worker_event DEVICE_TRANSPORT_WIFI e) es
     \<and> effect example_gateway es (fst (wifi_client_worker (\<lambda>i. 9) 3 8 2 True
      [\<lparr>wt_others = gateway_app_on_tcp_line (\<lambda>i. 4) ''{}'',
        wt_poll = Poll_Ready \<lparr>pollin = True, pollout = False, pollhup = False, pollerr = False, pollnval = False\<rparr>,
        wt_recv = Bytes (''noise'' @ [LF]), wt_now = 20\<rparr>]
      (\<lambda>g. g) (example_gateway, \<lparr>active_workers = 1\<rparr>)))"
  using wifi_worker_accountable [OF example_gateway_inv(1), of link_event
      "[\<lparr>wt_others = gateway_app_on_tcp_line (\<lambda>i. 4) ''{}'',
        wt_poll = Poll_Ready \<lparr>pollin = True, pollout = False, pollhup = False, pollerr = False, pollnval = False\<rparr>,
        wt_recv = Bytes (''noise'' @ [LF]), wt_now = 20\<rparr>]" "\<lambda>g. g", where os = "\<lambda>i. 9" and thread = 3
      and client_fd = 8 and flags = 2 and setfl_ok = True and workers = "\<lparr>active_workers = 1\<rparr>"]
  by (auto simp: accountable_id tcp_line_accountable case_prod_beta)

end
