(* ===== verification/Worker_Settlement.thy ===== *)
theory Worker_Settlement
  imports Bluetooth_Worker Wifi_Client
begin

text \<open>
  A promise both workers keep: no command is stuck in the queue of a connected node. The worker that
  owns the connection needs at most as many attempts as the queue has places; each attempt settles
  one command, and if one fails, the end of the connection settles the rest.
\<close>

text \<open>C31: Commands do not get stuck: when a worker owns the connection of its node, then at most eight
  attempts (followed by hanging up, if one of them failed) leave nothing pending for this node, and
  every command that was pending has been written in full or refused with a NACK, in order.\<close>
theorem workers_settle_queue:
  assumes "dm_inv (gw_devices g)" "0 \<le> fd" "up_bound_node_id up \<noteq> []"
    and "dm_abs (gw_devices g) (up_bound_node_id up) = Some v" "nv_online v" "nv_fd v = fd" "nv_thread_id v = up_thread up"
  shows "let settles = (\<lambda>try_send hang_up.
      case try_repeatedly (try_send os fd) 8 (g, up) of
        (r, g1, up1) \<Rightarrow>
          let g2 = (if r = Worker_Error then hang_up fd (g1, up1) else g1)
          in pending g2 (up_bound_node_id up) = []
             \<and> (\<exists>es. effect g es g2 \<and> settled (up_bound_node_id up) es = pending g (up_bound_node_id up)))
    in settles bluetooth_worker_try_send_command bluetooth_worker_disconnect
       \<and> settles wifi_client_try_send_command wifi_client_disconnect"
proof -
  obtain rb gb ub where b: "try_repeatedly (link_try_send DEVICE_TRANSPORT_BLUETOOTH frame_encoding os fd) 8 (g, up) = (rb, gb, ub)"
    by (cases "try_repeatedly (link_try_send DEVICE_TRANSPORT_BLUETOOTH frame_encoding os fd) 8 (g, up)")
  obtain rw gw uw where w: "try_repeatedly (link_try_send DEVICE_TRANSPORT_WIFI json_encoding os fd) 8 (g, up) = (rw, gw, uw)"
    by (cases "try_repeatedly (link_try_send DEVICE_TRANSPORT_WIFI json_encoding os fd) 8 (g, up)")
  show ?thesis
    unfolding Let_def bluetooth_try_send_link bluetooth_disconnect_link wifi_try_send_link wifi_disconnect_link
    using bluetooth.settles [OF assms b refl] wifi.settles [OF assms w refl] by (simp only: b w prod.case simp_thms)
qed

theorem workers_settle_queue_witness:
  "case try_repeatedly (bluetooth_worker_try_send_command (\<lambda>i. 4) 5) 8 (example_gateway, example_upstream ''N1'' 1) of
     (r, g1, up1) \<Rightarrow> pending (if r = Worker_Error then bluetooth_worker_disconnect 5 (g1, up1) else g1) ''N1'' = []"
proof -
  have bound: "up_bound_node_id (example_upstream ''N1'' 1) = ''N1''" "up_thread (example_upstream ''N1'' 1) = 1"
    by (simp_all add: example_upstream_def)
  have v: "dm_abs (gw_devices example_gateway) ''N1'' = Some (view example_device)" by (simp add: example_gateway_inv(2))
  show ?thesis
    using workers_settle_queue [OF example_gateway_inv(1), where fd = 5 and up = "example_upstream ''N1'' 1" and os = "\<lambda>i. 4"
        and v = "view example_device", unfolded bound, OF _ _ v]
    by (simp add: example_view Let_def case_prod_beta)
qed

end
