(* ===== verification/Server_Link.thy ===== *)
theory Server_Link
  imports Command_Fate Message_Queue Line_Parser "HOL-Library.Sublist"
begin

text \<open>
  \<^verbatim>\<open>gateway/server_link.c\<close>: the thread that owns the connection to the server. Every turn of its loop
  takes a message from the upstream queue unless one is still waiting to be sent, connects if
  necessary (at most once a second), sends the message, and reads commands from the server. The worker
  reads a script of what the system answers; \<open>*running\<close> is true until the script is exhausted; other
  threads may act on the gateway and the queue at the start of every turn. \<open>ln_done\<close> lists the
  messages for which the code prints "sent". The lemmas: messages leave in the order of the queue,
  none is skipped or dropped, and one is given up only after all of its bytes are sent; connecting is
  throttled.
\<close>

section \<open>State\<close>

definition SERVER_LINK_BUFFER_SIZE :: nat where "SERVER_LINK_BUFFER_SIZE = 1024"

record server_link =
  ln_gateway :: gateway
  ln_queue :: message_queue
  ln_pending :: "gateway_message option"
  ln_buffer :: string
  ln_done :: "gateway_message list"

record link_turn =
  lt_others :: "gateway \<times> message_queue \<Rightarrow> gateway \<times> message_queue"
  lt_now :: int
  lt_connect :: "int \<times> bool \<times> bool"
  lt_poll :: poll_answer
  lt_recv :: read_answer
  lt_later :: int

section \<open>The steps of a turn\<close>

definition server_link_disconnect :: "int \<Rightarrow> server_link \<Rightarrow> server_link" where
  "server_link_disconnect now s =
     (let c = gw_context (ln_gateway s);
          c1 = (if 0 \<le> gc_tcp_fd c then c\<lparr>gc_tcp_fd := -1\<rparr> else c);
          c2 = (if now \<noteq> -1 then c1\<lparr>gc_next_tcp_retry := now + 1\<rparr> else c1)
      in s\<lparr>ln_gateway := (ln_gateway s)\<lparr>gw_context := c2\<rparr>, ln_buffer := []\<rparr>)"

text \<open>1. Take a message, unless one is waiting; \<open>False\<close> leaves the loop.\<close>

definition server_link_pop :: "server_link \<Rightarrow> bool \<times> server_link" where
  "server_link_pop s =
     (case ln_pending s of
        Some m \<Rightarrow> (True, s)
      | None \<Rightarrow>
          (case message_queue_try_pop (ln_queue s) (Some \<lparr>msg_data = [], msg_length = 0\<rparr>) of
             (queue_result, message, q) \<Rightarrow>
               if queue_result = MESSAGE_QUEUE_OK then (True, s\<lparr>ln_queue := q, ln_pending := message\<rparr>)
               else if queue_result = MESSAGE_QUEUE_SHUTDOWN then (False, s\<lparr>ln_queue := q\<rparr>)
               else if queue_result \<noteq> MESSAGE_QUEUE_EMPTY then (False, s\<lparr>ln_queue := q\<rparr>)
               else (True, s\<lparr>ln_queue := q\<rparr>)))"

text \<open>2. Connect, if necessary; \<open>False\<close> waits and starts the next turn.\<close>

definition server_link_connect :: "link_turn \<Rightarrow> server_link \<Rightarrow> bool \<times> server_link" where
  "server_link_connect t s =
     (let g = ln_gateway s in
      if gc_tcp_fd (gw_context g) < 0 then
        (case lt_connect t of (fd, aton_ok, connect_ok) \<Rightarrow>
           let c = gateway_app_try_tcp_connect (lt_now t) fd aton_ok connect_ok (gw_context g) in
           if gc_tcp_fd c < 0 then (False, s\<lparr>ln_gateway := g\<lparr>gw_context := c\<rparr>\<rparr>)
           else (True, s\<lparr>ln_gateway := g\<lparr>gw_context := c\<rparr>, ln_buffer := []\<rparr>))
      else (True, s))"

text \<open>3. Send the message; on failure it stays.\<close>

definition server_link_send :: "(nat \<Rightarrow> nat) \<Rightarrow> int \<Rightarrow> server_link \<Rightarrow> bool \<times> server_link" where
  "server_link_send os now s =
     (case ln_pending s of
        None \<Rightarrow> (True, s)
      | Some m \<Rightarrow>
          let g = ln_gateway s; c = gw_context g in
          (case send_logged os (gc_tcp_fd c) (take (msg_length m) (msg_data m)) (gw_sent g) of
             (ok, log) \<Rightarrow>
               let g' = log_event (Upstream m (last log)) (g\<lparr>gw_sent := log\<rparr>) in
               if \<not> ok then
                 (False, server_link_disconnect now
                    (s\<lparr>ln_gateway := g'\<lparr>gw_context := c\<lparr>gc_tcp_send_error := gc_tcp_send_error c + 1\<rparr>\<rparr>\<rparr>))
               else
                 (True, s\<lparr>ln_gateway := g'\<lparr>gw_context := c\<lparr>gc_tcp_send := gc_tcp_send c + 1\<rparr>\<rparr>,
                         ln_pending := None, ln_done := ln_done s @ [m]\<rparr>)))"

text \<open>4. Read commands.\<close>

definition server_link_receive :: "(nat \<Rightarrow> nat) \<Rightarrow> link_turn \<Rightarrow> server_link \<Rightarrow> server_link" where
  "server_link_receive os t s =
     (case lt_poll t of
        Poll_Interrupted \<Rightarrow> s
      | Poll_Failed \<Rightarrow> server_link_disconnect (lt_later t) s
      | Poll_Timeout \<Rightarrow> s
      | Poll_Ready ev \<Rightarrow>
          let hung_up = (pollhup ev \<or> pollerr ev \<or> pollnval ev);
              check_hung_up = (\<lambda>s. if 0 \<le> gc_tcp_fd (gw_context (ln_gateway s)) \<and> hung_up
                                   then server_link_disconnect (lt_later t) s else s)
          in
          if pollin ev then
            (case lt_recv t of
               Bytes bytes \<Rightarrow>
                 if bytes = [] then server_link_disconnect (lt_later t) s
                 else if SERVER_LINK_BUFFER_SIZE < length (ln_buffer s) + length bytes
                 then check_hung_up (s\<lparr>ln_buffer := []\<rparr>)
                 else
                   (case line_parser_feed (Some (ln_buffer s @ bytes)) SERVER_LINK_BUFFER_SIZE
                           (Some (gateway_app_on_tcp_line os)) (ln_gateway s) of
                      (rest, g, n) \<Rightarrow> check_hung_up (s\<lparr>ln_gateway := g, ln_buffer := the rest\<rparr>))
             | Read_Would_Block \<Rightarrow> s
             | Read_Interrupted \<Rightarrow> check_hung_up s
             | Read_Failed \<Rightarrow> server_link_disconnect (lt_later t) s)
          else check_hung_up s)"

definition server_link_turn :: "(nat \<Rightarrow> nat) \<Rightarrow> link_turn \<Rightarrow> server_link \<Rightarrow> bool \<times> server_link" where
  "server_link_turn os t s =
     (case server_link_pop s of (go, s1) \<Rightarrow>
       if \<not> go then (False, s1)
       else (case server_link_connect t s1 of (go, s2) \<Rightarrow>
         if \<not> go then (True, s2)
         else (case server_link_send os (lt_later t) s2 of (go, s3) \<Rightarrow>
           if \<not> go then (True, s3) else (True, server_link_receive os t s3))))"

fun server_link_loop :: "(nat \<Rightarrow> nat) \<Rightarrow> link_turn list \<Rightarrow> server_link \<Rightarrow> server_link" where
  "server_link_loop os [] s = s"
| "server_link_loop os (t # ts) s =
     (case lt_others t (ln_gateway s, ln_queue s) of (g, q) \<Rightarrow>
       (case server_link_turn os t (s\<lparr>ln_gateway := g, ln_queue := q\<rparr>) of (go, s1) \<Rightarrow>
          if go then server_link_loop os ts s1 else s1))"

definition server_link_worker :: "(nat \<Rightarrow> nat) \<Rightarrow> link_turn list \<Rightarrow> gateway \<times> message_queue \<Rightarrow> server_link" where
  "server_link_worker os ts s =
     (case s of (g, q) \<Rightarrow>
       let s1 = server_link_loop os ts
         \<lparr>ln_gateway = g, ln_queue = q, ln_pending = None, ln_buffer = [], ln_done = []\<rparr>;
           c = gw_context (ln_gateway s1)
       in if 0 \<le> gc_tcp_fd c then s1\<lparr>ln_gateway := (ln_gateway s1)\<lparr>gw_context := c\<lparr>gc_tcp_fd := -1\<rparr>\<rparr>\<rparr> else s1)"

section \<open>Nothing is lost on the way to the server\<close>

text \<open>The messages the worker has dealt with, deals with, and will deal with.\<close>

definition link_messages :: "server_link \<Rightarrow> gateway_message list" where
  "link_messages s = ln_done s @ (case ln_pending s of None \<Rightarrow> [] | Some m \<Rightarrow> [m]) @ mq_contents (ln_queue s)"

definition complete :: "sent \<Rightarrow> bool" where "complete s = (sent_count s = length (sent_data s))"

definition link_ok :: "server_link \<Rightarrow> bool" where
  "link_ok s = (dm_inv (gw_devices (ln_gateway s)) \<and> mq_inv (ln_queue s) \<and> length (ln_buffer s) \<le> SERVER_LINK_BUFFER_SIZE)"

text \<open>From one state of the worker to a later one, when others have pushed \<open>pushed\<close> on the queue.\<close>

definition link_progress :: "server_link \<Rightarrow> gateway_message list \<Rightarrow> server_link \<Rightarrow> bool" where
  "link_progress s pushed s' =
     (link_ok s' \<and> link_messages s' = link_messages s @ pushed
      \<and> (\<exists>es. effect (ln_gateway s) es (ln_gateway s'))
      \<and> (\<exists>ms sends. ln_done s' = ln_done s @ ms \<and> gw_sent (ln_gateway s') = gw_sent (ln_gateway s) @ sends
           \<and> subseq (map message_bytes ms) (map sent_data (filter complete sends))))"

text \<open>What the other threads may do: push on the queue and change the gateway accountably.\<close>

definition pushes :: "(gateway \<times> message_queue \<Rightarrow> gateway \<times> message_queue) \<Rightarrow> gateway_message list \<Rightarrow> bool" where
  "pushes f pushed =
     (\<forall>g q. dm_inv (gw_devices g) \<and> mq_inv q \<longrightarrow>
        (\<exists>es. effect g es (fst (f (g, q)))) \<and> mq_inv (snd (f (g, q)))
        \<and> mq_contents (snd (f (g, q))) = mq_contents q @ pushed)"

lemma link_progress_trans:
  assumes "link_progress s p s'" "link_progress s' q s''" shows "link_progress s (p @ q) s''"
proof -
  obtain ms sends where 1: "ln_done s' = ln_done s @ ms" "gw_sent (ln_gateway s') = gw_sent (ln_gateway s) @ sends"
    "subseq (map message_bytes ms) (map sent_data (filter complete sends))"
    using assms(1) by (auto simp: link_progress_def)
  obtain ms' sends' where 2: "ln_done s'' = ln_done s' @ ms'" "gw_sent (ln_gateway s'') = gw_sent (ln_gateway s') @ sends'"
    "subseq (map message_bytes ms') (map sent_data (filter complete sends'))"
    using assms(2) by (auto simp: link_progress_def)
  have "ln_done s'' = ln_done s @ (ms @ ms') \<and> gw_sent (ln_gateway s'') = gw_sent (ln_gateway s) @ (sends @ sends')
     \<and> subseq (map message_bytes (ms @ ms')) (map sent_data (filter complete (sends @ sends')))"
    using 1 2 by (simp add: list_emb_append_mono)
  moreover have "\<exists>es. effect (ln_gateway s) es (ln_gateway s'')"
    using assms effect_trans unfolding link_progress_def by blast
  ultimately show ?thesis using assms by (auto simp: link_progress_def)
qed

lemma link_progress_same:
  assumes "link_ok s" "same_books (ln_gateway s) (ln_gateway s')" "link_ok s'"
    "ln_done s' = ln_done s" "ln_pending s' = ln_pending s" "ln_queue s' = ln_queue s"
  shows "link_progress s [] s'"
  using assms same_books_effect [OF assms(2)]
  by (auto simp: link_progress_def link_ok_def link_messages_def same_books_def)

lemma link_progress_refl: "link_ok s \<Longrightarrow> link_progress s [] s"
  by (rule link_progress_same) (simp_all add: same_books_def)

lemma disconnect_progress: "link_ok s \<Longrightarrow> link_progress s [] (server_link_disconnect now s)"
  by (rule link_progress_same) (simp_all add: server_link_disconnect_def same_books_def link_ok_def Let_def)

lemma pop_progress:
  assumes "link_ok s" shows "link_progress s [] (snd (server_link_pop s))"
proof (cases "ln_pending s")
  case (Some m)
  then show ?thesis using link_progress_refl [OF assms] by (simp add: server_link_pop_def)
next
  case None
  obtain r m q where t: "message_queue_try_pop (ln_queue s) (Some \<lparr>msg_data = [], msg_length = 0\<rparr>) = (r, m, q)"
    by (cases "message_queue_try_pop (ln_queue s) (Some \<lparr>msg_data = [], msg_length = 0\<rparr>)")
  have inv: "mq_inv (ln_queue s)" using assms by (simp add: link_ok_def)
  show ?thesis
  proof (cases "mq_count (ln_queue s) = 0")
    case True
    then have "q = ln_queue s" "r \<noteq> MESSAGE_QUEUE_OK" using t by (auto simp: message_queue_try_pop_def split: if_splits)
    then show ?thesis using None t link_progress_refl [OF assms] by (simp add: server_link_pop_def)
  next
    case False
    then have r: "r = MESSAGE_QUEUE_OK" "m = Some (fst (mq_take (ln_queue s)))" "q = snd (mq_take (ln_queue s))"
      using t by (auto simp: message_queue_try_pop_def split: prod.splits)
    have "mq_contents (ln_queue s) = fst (mq_take (ln_queue s)) # mq_contents q" "mq_inv q"
      using mq_take_contents [OF inv] mq_take_inv [OF inv] False by (simp_all add: r)
    then show ?thesis
      using None t r assms effect_refl [of "ln_gateway s"]
      by (auto simp: server_link_pop_def link_progress_def link_ok_def link_messages_def)
  qed
qed

lemma connect_progress: "link_ok s \<Longrightarrow> link_progress s [] (snd (server_link_connect t s))"
  by (rule link_progress_same)
    (auto simp: server_link_connect_def same_books_def link_ok_def Let_def split: prod.split)

lemma send_progress:
  assumes "link_ok s" "0 \<le> gc_tcp_fd (gw_context (ln_gateway s))"
  shows "link_progress s [] (snd (server_link_send os now s))"
proof (cases "ln_pending s")
  case None
  then show ?thesis using link_progress_refl [OF assms(1)] by (simp add: server_link_send_def)
next
  case (Some m)
  let ?g = "ln_gateway s" and ?b = "message_bytes m" and ?k = "os (length (gw_sent (ln_gateway s)))"
  define e where "e = \<lparr>sent_fd = gc_tcp_fd (gw_context ?g), sent_data = ?b, sent_count = length (take ?k ?b)\<rparr>"
  have log: "send_logged os (gc_tcp_fd (gw_context ?g)) ?b (gw_sent ?g) = (length ?b \<le> ?k, gw_sent ?g @ [e])"
    using assms(2) by (simp add: send_logged_def send_call_def Let_def e_def)
  define s1 where "s1 = s\<lparr>ln_gateway := ?g\<lparr>gw_sent := gw_sent ?g @ [e], gw_history := gw_history ?g @ [Upstream m e],
      gw_context := (gw_context ?g)\<lparr>gc_tcp_send_error := gc_tcp_send_error (gw_context ?g) + 1\<rparr>\<rparr>\<rparr>"
  have eff: "effect ?g [Upstream m e]
      (?g\<lparr>gw_sent := gw_sent ?g @ [e], gw_history := gw_history ?g @ [Upstream m e], gw_context := c\<rparr>)" for c
    using assms(1) by (simp add: effect_def event_defs pending_def link_ok_def e_def)
  show ?thesis
  proof (cases "length ?b \<le> ?k")
    case False
    have "link_progress s [] s1"
      using assms(1) eff by (auto simp: s1_def link_progress_def link_ok_def link_messages_def)
    moreover have "link_progress s1 [] (server_link_disconnect now s1)"
      by (rule disconnect_progress) (use assms(1) in \<open>simp add: s1_def link_ok_def\<close>)
    ultimately show ?thesis
      using link_progress_trans [of s "[]" s1 "[]"] False Some log by (simp add: server_link_send_def Let_def s1_def)
  next
    case True
    then have "complete e" by (simp add: complete_def e_def)
    then have "\<exists>sends. gw_sent ?g @ [e] = gw_sent ?g @ sends \<and> subseq [?b] (map sent_data (filter complete sends))"
      by (intro exI [of _ "[e]"]) (simp add: e_def)
    then show ?thesis
      using True Some log assms(1) eff
      by (auto simp: server_link_send_def Let_def link_progress_def link_ok_def link_messages_def)
  qed
qed

lemma receive_progress:
  assumes ok: "link_ok s" shows "link_progress s [] (server_link_receive os t s)"
proof -
  have hup: "link_progress s [] (if P then server_link_disconnect (lt_later t) s' else s')" if "link_progress s [] s'" for P s'
    using that link_progress_trans [OF that disconnect_progress] by (auto simp: link_progress_def)
  have clear: "link_progress s [] (s\<lparr>ln_buffer := []\<rparr>)"
    by (rule link_progress_same) (use ok in \<open>simp_all add: same_books_def link_ok_def\<close>)
  show ?thesis
  proof (cases "lt_poll t")
    case (Poll_Ready ev)
    show ?thesis
    proof (cases "lt_recv t")
      case (Bytes bytes)
      obtain rest g n where f: "line_parser_feed (Some (ln_buffer s @ bytes)) SERVER_LINK_BUFFER_SIZE
          (Some (gateway_app_on_tcp_line os)) (ln_gateway s) = (rest, g, n)" by (metis prod_cases3)
      have "explained link_event (ln_gateway s) (fst (snd (line_parser_feed (Some (ln_buffer s @ bytes)) SERVER_LINK_BUFFER_SIZE
          (Some (gateway_app_on_tcp_line os)) (ln_gateway s))))"
      proof (rule line_parser_feed_keeps [where P = "explained link_event (ln_gateway s)"])
        show "explained link_event (ln_gateway s) (gateway_app_on_tcp_line os l u)" if "explained link_event (ln_gateway s) u" for l u
          using that accountable_after [OF tcp_line_accountable] by blast
        show "explained link_event (ln_gateway s) (ln_gateway s)"
          using ok explained_refl by (simp add: link_ok_def)
      qed
      then obtain es where es: "effect (ln_gateway s) es g" using f by (auto simp: explained_def)
      have len: "length (the rest) \<le> length (ln_buffer s @ bytes)"
        using f line_parser_rest_length [of "ln_buffer s @ bytes" SERVER_LINK_BUFFER_SIZE "Some (gateway_app_on_tcp_line os)"]
        by (metis fst_conv)
      have sent: "\<exists>sends. gw_sent g = gw_sent (ln_gateway s) @ sends" using es by (auto simp: effect_def)
      have fed: "link_progress s [] (s\<lparr>ln_gateway := g, ln_buffer := the rest\<rparr>)"
        if "length (ln_buffer s) + length bytes \<le> SERVER_LINK_BUFFER_SIZE"
        using that es sent len ok effect_inv [OF es] by (auto simp: link_progress_def link_ok_def link_messages_def)
      show ?thesis
        using hup [OF clear] hup [OF fed] hup [OF link_progress_refl [OF ok]] disconnect_progress [OF ok]
        by (auto simp: server_link_receive_def Poll_Ready Bytes f Let_def)
    qed (use hup [OF link_progress_refl [OF ok]] disconnect_progress [OF ok] link_progress_refl [OF ok] Poll_Ready in
        \<open>auto simp: server_link_receive_def Let_def\<close>)
  qed (use disconnect_progress [OF ok] link_progress_refl [OF ok] in \<open>auto simp: server_link_receive_def\<close>)
qed

lemma turn_progress:
  assumes "link_ok s" shows "link_progress s [] (snd (server_link_turn os t s))"
proof -
  obtain go1 s1 where 1: "server_link_pop s = (go1, s1)" by fastforce
  obtain go2 s2 where 2: "server_link_connect t s1 = (go2, s2)" by fastforce
  obtain go3 s3 where 3: "server_link_send os (lt_later t) s2 = (go3, s3)" by fastforce
  have p1: "link_progress s [] s1" using pop_progress [OF assms] 1 by simp
  then have p2: "link_progress s [] s2"
    using link_progress_trans [OF p1, of "[]"] connect_progress [of s1 t] 2 by (simp add: link_progress_def)
  have fd: "go2 \<Longrightarrow> 0 \<le> gc_tcp_fd (gw_context (ln_gateway s2))"
    using 2 by (auto simp: server_link_connect_def Let_def split: if_splits prod.splits)
  have p3: "link_progress s [] s3" if go2
    using link_progress_trans [OF p2, of "[]"] send_progress [OF _ fd [OF that], of os "lt_later t"] p2 3
    by (simp add: link_progress_def)
  have p4: "link_progress s [] (server_link_receive os t s3)" if go2
    using link_progress_trans [OF p3 [OF that], of "[]"] receive_progress [of s3 os t] p3 [OF that]
    by (simp add: link_progress_def)
  show ?thesis using p1 p2 p3 p4 by (auto simp: server_link_turn_def 1 2 3)
qed

lemma loop_progress:
  assumes "link_ok s" "list_all2 (\<lambda>t pushed. pushes (lt_others t) pushed) ts ps"
  shows "\<exists>n \<le> length ps. link_progress s (concat (take n ps)) (server_link_loop os ts s)"
  using assms
proof (induction ts arbitrary: s ps)
  case Nil
  then show ?case using link_progress_refl by auto
next
  case (Cons t ts)
  obtain p ps' where ps: "ps = p # ps'" "pushes (lt_others t) p" "list_all2 (\<lambda>t pushed. pushes (lt_others t) pushed) ts ps'"
    using Cons.prems(2) by (auto simp: list_all2_Cons1)
  obtain g q where o: "lt_others t (ln_gateway s, ln_queue s) = (g, q)" by fastforce
  let ?s = "s\<lparr>ln_gateway := g, ln_queue := q\<rparr>"
  obtain go s1 where t: "server_link_turn os t ?s = (go, s1)" by fastforce
  have e: "\<exists>es. effect (ln_gateway s) es g" "mq_inv q" "mq_contents q = mq_contents (ln_queue s) @ p"
    using ps(2) Cons.prems(1) o by (fastforce simp: pushes_def link_ok_def)+
  then have sent: "\<exists>sends. gw_sent g = gw_sent (ln_gateway s) @ sends" by (auto simp: effect_def)
  have "link_progress s p ?s"
    using e sent Cons.prems(1) by (auto simp: link_progress_def link_ok_def link_messages_def dest: effect_inv)
  moreover have ok: "link_ok ?s" using calculation by (simp add: link_progress_def)
  ultimately have s1: "link_progress s p s1"
    using link_progress_trans [OF _ turn_progress [OF ok, of os t]] t by fastforce
  then have "link_ok s1" by (simp add: link_progress_def)
  from Cons.IH [OF this ps(3)] obtain n where n: "n \<le> length ps'" "link_progress s1 (concat (take n ps')) (server_link_loop os ts s1)"
    by blast
  show ?case
  proof (cases go)
    case True
    then show ?thesis
      using link_progress_trans [OF s1 n(2)] n(1) o t by (intro exI [of _ "Suc n"]) (simp add: ps(1))
  next
    case False
    then show ?thesis using s1 o t by (intro exI [of _ 1]) (simp add: ps(1))
  qed
qed

text \<open>C32: No report is lost or overtaken on the way to the server: whatever the network and the
  system do over any number of connections, the messages the worker has sent, the one it still holds
  and those in the queue are together exactly the initial contents of the queue and what the other
  threads have pushed since, in this order; for each message sent there is a send, in the same order,
  whose bytes the system took completely; a failed send leaves the message in place. The receive
  buffer is never overrun and every command received meanwhile is accounted for.\<close>
theorem server_link_delivers_in_order:
  assumes "dm_inv (gw_devices g)" "mq_inv q" "list_all2 (\<lambda>t pushed. pushes (lt_others t) pushed) ts ps"
  shows "let s = server_link_worker os ts (g, q) in
     (\<exists>n \<le> length ps. ln_done s @ (case ln_pending s of None \<Rightarrow> [] | Some m \<Rightarrow> [m]) @ mq_contents (ln_queue s)
         = mq_contents q @ concat (take n ps))
     \<and> (\<exists>sends. gw_sent (ln_gateway s) = gw_sent g @ sends
         \<and> subseq (map message_bytes (ln_done s)) (map sent_data (filter complete sends)))
     \<and> (\<exists>es. effect g es (ln_gateway s)) \<and> length (ln_buffer s) \<le> 1024 \<and> gc_tcp_fd (gw_context (ln_gateway s)) < 0"
proof -
  let ?s0 = "\<lparr>ln_gateway = g, ln_queue = q, ln_pending = None, ln_buffer = [], ln_done = []\<rparr>"
  define s1 where "s1 = server_link_loop os ts ?s0"
  define s2 where "s2 = server_link_worker os ts (g, q)"
  have "link_ok ?s0" using assms by (simp add: link_ok_def)
  from loop_progress [OF this assms(3), of os] obtain n where n: "n \<le> length ps" "link_progress ?s0 (concat (take n ps)) s1"
    unfolding s1_def by blast
  have "same_books (ln_gateway s1) (ln_gateway s2)" "ln_done s2 = ln_done s1" "ln_pending s2 = ln_pending s1"
    "ln_queue s2 = ln_queue s1" "ln_buffer s2 = ln_buffer s1"
    by (simp_all add: s2_def server_link_worker_def s1_def [symmetric] Let_def same_books_def)
  then have "link_progress s1 [] s2"
    using n(2) by (intro link_progress_same) (auto simp: link_progress_def link_ok_def same_books_def)
  from link_progress_trans [OF n(2) this] have "link_progress ?s0 (concat (take n ps)) s2" by simp
  moreover have "gc_tcp_fd (gw_context (ln_gateway s2)) < 0"
    by (simp add: s2_def server_link_worker_def Let_def)
  ultimately show ?thesis
    using n(1) by (auto simp: Let_def s2_def [symmetric] link_progress_def link_ok_def link_messages_def SERVER_LINK_BUFFER_SIZE_def)
qed

text \<open>An example: the first send fails, the message is sent again on the next connection.\<close>

definition example_upstream_queue :: message_queue where
  "example_upstream_queue = mq_put \<lparr>msg_data = ''hello'', msg_length = 5\<rparr>
     \<lparr>mq_items = replicate 32 \<lparr>msg_data = [], msg_length = 0\<rparr>, mq_head = 0, mq_tail = 0, mq_count = 0, mq_shutting_down = False\<rparr>"

lemma example_upstream_queue_inv: "mq_inv example_upstream_queue" "mq_contents example_upstream_queue = [\<lparr>msg_data = ''hello'', msg_length = 5\<rparr>]"
proof -
  let ?q = "\<lparr>mq_items = replicate 32 \<lparr>msg_data = [], msg_length = 0\<rparr>, mq_head = 0, mq_tail = 0, mq_count = 0, mq_shutting_down = False\<rparr>"
  have q: "mq_inv ?q" "mq_contents ?q = []"
    by (simp_all add: mq_inv_def mq_contents_def mq_consts ring_contents_def)
  show "mq_inv example_upstream_queue" "mq_contents example_upstream_queue = [\<lparr>msg_data = ''hello'', msg_length = 5\<rparr>]"
    using mq_put_inv [OF q(1)] mq_put_contents [OF q(1)] q(2) by (simp_all add: example_upstream_queue_def mq_consts)
qed

definition example_turn :: "int \<Rightarrow> link_turn" where
  "example_turn now = \<lparr>lt_others = (\<lambda>s. s), lt_now = now, lt_connect = (7, True, True), lt_poll = Poll_Timeout,
     lt_recv = Read_Failed, lt_later = now\<rparr>"

theorem server_link_delivers_in_order_witness:
  "ln_done (server_link_worker (\<lambda>i. 3 + 2 * i) [example_turn 1, example_turn 2] (example_gateway, example_upstream_queue))
     = [\<lparr>msg_data = ''hello'', msg_length = 5\<rparr>]
   \<and> ln_pending (server_link_worker (\<lambda>i. 3) [example_turn 1, example_turn 2] (example_gateway, example_upstream_queue))
     = Some \<lparr>msg_data = ''hello'', msg_length = 5\<rparr>"
proof -
  have p: "list_all2 (\<lambda>t pushed. pushes (lt_others t) pushed) [example_turn 1, example_turn 2] [[], []]"
    by (auto simp: example_turn_def pushes_def intro: effect_refl)
  note run = server_link_worker_def server_link_turn_def server_link_pop_def server_link_connect_def server_link_send_def
    server_link_receive_def server_link_disconnect_def message_queue_try_pop_def example_turn_def gateway_app_try_tcp_connect_def
    tcp_client_connect_def opened_def send_logged_def send_call_def gateway_app_init_def Let_def
  have t: "mq_count example_upstream_queue = 1" "fst (mq_take example_upstream_queue) = \<lparr>msg_data = ''hello'', msg_length = 5\<rparr>"
    by (simp_all add: example_upstream_queue_def mq_put_def mq_take_def mq_consts)
  obtain q where q: "mq_take example_upstream_queue = (\<lparr>msg_data = ''hello'', msg_length = 5\<rparr>, q)"
    using t(2) by (cases "mq_take example_upstream_queue") simp
  have "mq_count q = 0" using q by (auto simp: example_upstream_queue_def mq_put_def mq_take_def mq_consts)
  then have "ln_done (server_link_worker (\<lambda>i. 3) [example_turn 1, example_turn 2] (example_gateway, example_upstream_queue)) = []"
    "ln_pending (server_link_worker (\<lambda>i. 3) [example_turn 1, example_turn 2] (example_gateway, example_upstream_queue)) \<noteq> None"
    "ln_done (server_link_worker (\<lambda>i. 3 + 2 * i) [example_turn 1, example_turn 2] (example_gateway, example_upstream_queue))
       = [\<lparr>msg_data = ''hello'', msg_length = 5\<rparr>]"
    using t(1) q by (simp_all add: run example_gateway_def)
  then show ?thesis
    using server_link_delivers_in_order [OF example_gateway_inv(1) example_upstream_queue_inv(1) p, of "\<lambda>i. 3"]
    by (auto simp: Let_def example_upstream_queue_inv(2) take_Cons' split: option.splits if_splits)
qed

section \<open>Connecting is throttled\<close>

lemma connect_attempts:
  assumes "list_all (\<lambda>(now, fd, a, b). t0 \<le> now \<and> now \<le> t1) attempts"
  shows "\<exists>k. gc_tcp_connect_error (fold (\<lambda>(now, fd, a, b). gateway_app_try_tcp_connect now fd a b) attempts c)
      = gc_tcp_connect_error c + of_nat k \<and> int k \<le> max 0 (t1 + 1 - max t0 (gc_next_tcp_retry c))"
  using assms
proof (induction attempts arbitrary: c)
  case Nil
  then show ?case by (intro exI [of _ 0]) simp
next
  case (Cons x xs)
  obtain now fd a b where x: "x = (now, fd, a, b)" by (cases x)
  let ?c = "gateway_app_try_tcp_connect now fd a b c"
  from Cons.IH [of ?c] Cons.prems obtain k where
    k: "gc_tcp_connect_error (fold (\<lambda>(now, fd, a, b). gateway_app_try_tcp_connect now fd a b) xs ?c)
      = gc_tcp_connect_error ?c + of_nat k" "int k \<le> max 0 (t1 + 1 - max t0 (gc_next_tcp_retry ?c))"
    by auto
  have t: "t0 \<le> now" "now \<le> t1" using Cons.prems x by auto
  have "(gc_tcp_connect_error ?c = gc_tcp_connect_error c \<and> gc_next_tcp_retry ?c = gc_next_tcp_retry c)
      \<or> (gc_tcp_connect_error ?c = gc_tcp_connect_error c + 1 \<and> gc_next_tcp_retry ?c = now + 1 \<and> gc_next_tcp_retry c \<le> now)"
    by (auto simp: gateway_app_try_tcp_connect_def Let_def)
  then show ?case
  proof
    assume "gc_tcp_connect_error ?c = gc_tcp_connect_error c \<and> gc_next_tcp_retry ?c = gc_next_tcp_retry c"
    then show ?thesis using k by (intro exI [of _ k]) (simp add: x)
  next
    assume a: "gc_tcp_connect_error ?c = gc_tcp_connect_error c + 1 \<and> gc_next_tcp_retry ?c = now + 1 \<and> gc_next_tcp_retry c \<le> now"
    then have "max t0 (gc_next_tcp_retry c) \<le> now" using t by simp
    then have "int (Suc k) \<le> max 0 (t1 + 1 - max t0 (gc_next_tcp_retry c))"
      using a k(2) t by (simp add: max_def split: if_splits)
    then show ?thesis using k a by (intro exI [of _ "Suc k"]) (simp add: x)
  qed
qed

text \<open>Reconnecting is throttled: however often the worker tries while the server is unreachable,
  it makes at most one failing attempt per second, so at most \<open>t1 - t0 + 1\<close> of them between the
  seconds \<open>t0\<close> and \<open>t1\<close>, even if the clock jumps back and forth in between.\<close>
theorem connect_throttled:
  assumes "list_all (\<lambda>(now, fd, a, b). t0 \<le> now \<and> now \<le> t1) attempts" "t0 \<le> t1"
  shows "\<exists>k. gc_tcp_connect_error (fold (\<lambda>(now, fd, a, b). gateway_app_try_tcp_connect now fd a b) attempts c)
      = gc_tcp_connect_error c + of_nat k \<and> int k \<le> t1 - t0 + 1"
proof -
  from connect_attempts [OF assms(1), of c] obtain k where
    "gc_tcp_connect_error (fold (\<lambda>(now, fd, a, b). gateway_app_try_tcp_connect now fd a b) attempts c)
      = gc_tcp_connect_error c + of_nat k" "int k \<le> max 0 (t1 + 1 - max t0 (gc_next_tcp_retry c))" by blast
  with assms(2) show ?thesis by (intro exI [of _ k]) auto
qed

theorem connect_throttled_witness:
  "\<exists>k. gc_tcp_connect_error (fold (\<lambda>(now, fd, a, b). gateway_app_try_tcp_connect now fd a b)
       [(5, -1, True, True), (5, 7, True, False), (6, 7, False, True), (6, -1, True, True)] (gateway_app_init (Some ''10.0.0.1'') 9000))
      = of_nat k \<and> int k \<le> 2"
  using connect_throttled [of 5 6 "[(5, -1, True, True), (5, 7, True, False), (6, 7, False, True), (6, -1, True, True)]"
     "gateway_app_init (Some ''10.0.0.1'') 9000"]
  by (simp add: gateway_app_init_def)

end
