(* ===== verification/Gateway_Loop.thy ===== *)
theory Gateway_Loop
  imports Wifi_Client Message_Queue
begin

text \<open>
  \<^verbatim>\<open>gateway/gateway_loop.c\<close> and \<^verbatim>\<open>gateway/main.c\<close>: the main thread of the gateway. It creates what the
  threads share, starts them, accepts Wi-Fi nodes until it is told to stop, and takes everything down
  again. The result of a run is its return code and the list of what it acquired, started, stopped and
  released, in order. The specification is a ledger that accepts an action only when it is safe: a
  thread starts only while everything it uses exists, nothing is released twice or while a thread may
  use it, and a thread is joined only after the queue was shut down, so that it cannot be waiting there.
  What the threads do is the subject of the other theories; here they only end.
\<close>

section \<open>The main thread\<close>

datatype loop_action =
    Listen int | Init_Workers | Init_Queue | Init_Devices | Start_Server | Start_Bluetooth
  | Accept int | Alloc_Context int | Start_Worker int | Close_Client int | Free_Context int | Worker_Ends
  | Close_Listen int | Shut_Queue | Join_Server | Join_Bluetooth | All_Workers_Ended
  | Destroy_Workers | Destroy_Queue | Destroy_Devices

text \<open>
  A turn of the accept loop: how many workers end before it, and the answers of \<open>poll\<close>, \<open>accept\<close>,
  \<open>malloc\<close> and \<open>pthread_create\<close> (a failing \<open>pthread_detach\<close> is only reported). \<open>*running\<close> is true
  until the list of turns is exhausted. \<open>la_late\<close> workers end while the main thread waits for them.
\<close>

record loop_turn =
  tn_ends :: nat
  tn_poll :: poll_answer
  tn_accept :: int
  tn_allocated :: bool
  tn_create :: int

record loop_answers =
  la_listen :: "int \<times> bool \<times> bool \<times> bool"
  la_workers :: "int \<times> int"
  la_queue :: "int \<times> int \<times> int"
  la_devices :: int
  la_server :: int
  la_bluetooth :: int
  la_turns :: "loop_turn list"
  la_late :: nat

type_synonym loop_state = "wifi_worker_group \<times> loop_action list"

fun workers_end :: "nat \<Rightarrow> loop_state \<Rightarrow> loop_state" where
  "workers_end 0 s = s"
| "workers_end (Suc n) (workers, log) =
     (if active_workers workers = 0 then (workers, log)
      else workers_end n (snd (wifi_worker_group_remove workers), log @ [Worker_Ends]))"

definition accept_client :: "loop_turn \<Rightarrow> loop_state \<Rightarrow> loop_state" where
  "accept_client t s =
     (case s of (workers, log) \<Rightarrow>
       let new_client_fd = wifi_server_accept (tn_accept t) in
       if new_client_fd < 0 then (workers, log)
       else if \<not> tn_allocated t then (workers, log @ [Accept new_client_fd, Close_Client new_client_fd])
       else
         let workers1 = wifi_worker_group_add workers in
         if tn_create t \<noteq> 0
         then (snd (wifi_worker_group_remove workers1), log @ [Accept new_client_fd, Alloc_Context new_client_fd,
                                                               Close_Client new_client_fd, Free_Context new_client_fd])
         else (workers1, log @ [Accept new_client_fd, Alloc_Context new_client_fd, Start_Worker new_client_fd]))"

fun accept_loop :: "loop_turn list \<Rightarrow> loop_state \<Rightarrow> loop_state" where
  "accept_loop [] s = s"
| "accept_loop (t # ts) s =
     (let s1 = workers_end (tn_ends t) s in
      case tn_poll t of
        Poll_Interrupted \<Rightarrow> accept_loop ts s1
      | Poll_Failed \<Rightarrow> accept_loop ts s1
      | Poll_Timeout \<Rightarrow> accept_loop ts s1
      | Poll_Ready ev \<Rightarrow> if pollin ev then accept_loop ts (accept_client t s1) else accept_loop ts s1)"

text \<open>\<open>None\<close>: the main thread waits for ever.\<close>

fun wait_workers :: "nat \<Rightarrow> loop_state \<Rightarrow> loop_state option" where
  "wait_workers n (workers, log) =
     (case wifi_worker_group_wait workers of
        Some workers' \<Rightarrow> Some (workers', log @ [All_Workers_Ended])
      | None \<Rightarrow>
          (case n of
             0 \<Rightarrow> None
           | Suc k \<Rightarrow> wait_workers k (snd (wifi_worker_group_remove workers), log @ [Worker_Ends])))"

text \<open>After the accept loop: take everything down.\<close>

definition gateway_loop_stop :: "nat \<Rightarrow> int \<Rightarrow> loop_state \<Rightarrow> (int \<times> loop_action list) option" where
  "gateway_loop_stop late wifi_listen_fd s =
     (case s of (workers, log) \<Rightarrow>
       (case wait_workers late (workers, log @ [Close_Listen wifi_listen_fd, Shut_Queue, Join_Bluetooth]) of
          None \<Rightarrow> None
        | Some (workers', log') \<Rightarrow>
            Some (0, log' @ [Join_Server, Destroy_Workers, Destroy_Queue, Destroy_Devices])))"

definition gateway_loop_run :: "loop_answers \<Rightarrow> string option \<Rightarrow> (int \<times> loop_action list) option" where
  "gateway_loop_run a serial_device =
     (if serial_device = None then Some (-1, [])
      else
        (case la_listen a of (fd, setsockopt_ok, bind_ok, listen_ok) \<Rightarrow>
          let wifi_listen_fd = fst (wifi_server_open fd setsockopt_ok bind_ok listen_ok) in
          if wifi_listen_fd < 0 then Some (-1, [])
          else
            (case wifi_worker_group_init \<lparr>active_workers = 0\<rparr> (fst (la_workers a)) (snd (la_workers a)) of
              (workers_ok, workers) \<Rightarrow>
                if \<not> workers_ok then Some (-1, [Listen wifi_listen_fd, Close_Listen wifi_listen_fd])
                else
                  (case la_queue a of (q1, q2, q3) \<Rightarrow>
                    if fst (message_queue_init \<lparr>mq_items = [], mq_head = 0, mq_tail = 0, mq_count = 0, mq_shutting_down = False\<rparr> q1 q2 q3) \<noteq> MESSAGE_QUEUE_OK
                    then Some (-1, [Listen wifi_listen_fd, Init_Workers, Destroy_Workers, Close_Listen wifi_listen_fd])
                    else if fst (device_manager_init (la_devices a)) \<noteq> DEVICE_MANAGER_OK
                    then Some (-1, [Listen wifi_listen_fd, Init_Workers, Init_Queue,
                                    Destroy_Queue, Destroy_Workers, Close_Listen wifi_listen_fd])
                    else if la_server a \<noteq> 0
                    then Some (-1, [Listen wifi_listen_fd, Init_Workers, Init_Queue, Init_Devices,
                                    Destroy_Queue, Destroy_Workers, Destroy_Devices, Close_Listen wifi_listen_fd])
                    else if la_bluetooth a \<noteq> 0
                    then Some (-1, [Listen wifi_listen_fd, Init_Workers, Init_Queue, Init_Devices, Start_Server,
                                    Shut_Queue, Join_Server, Destroy_Queue, Destroy_Workers, Close_Listen wifi_listen_fd])
                    else
                      gateway_loop_stop (la_late a) wifi_listen_fd
                        (accept_loop (la_turns a)
                           (workers, [Listen wifi_listen_fd, Init_Workers, Init_Queue, Init_Devices, Start_Server,
                                      Start_Bluetooth]))))))"

text \<open>\<^verbatim>\<open>main.c\<close>: the exit code and the actions; \<open>sigint\<close> and \<open>sigterm\<close> are the results of \<open>sigaction\<close>.\<close>

definition install_signal_handlers :: "int \<Rightarrow> int \<Rightarrow> int" where
  "install_signal_handlers sigint sigterm = (if sigint \<noteq> 0 then -1 else if sigterm \<noteq> 0 then -1 else 0)"

definition gateway_main :: "string list \<Rightarrow> int \<Rightarrow> int \<Rightarrow> loop_answers \<Rightarrow> (int \<times> loop_action list) option" where
  "gateway_main args sigint sigterm a =
     (case gateway_app_parse_args args (gateway_app_init (Some ''127.0.0.1'') 9000) of
        (ok, serial_device, baud_rate, c) \<Rightarrow>
          if \<not> ok then Some (1, [])
          else if serial_device = None then Some (1, [])
          else if install_signal_handlers sigint sigterm \<noteq> 0 then Some (1, [])
          else (case gateway_loop_run a serial_device of None \<Rightarrow> None | Some (result, log) \<Rightarrow> Some (0, log)))"

section \<open>The ledger\<close>

text \<open>
  \<open>Context fd\<close> is the block that is allocated for the connection \<open>fd\<close>. A thread that is started takes it over
  with the socket, and frees it before anything else.
\<close>

datatype loop_resource = Listening int | Client int | Context int | Worker_Group | Queue | Devices | Server_Thread | Bluetooth_Thread

record ledger =
  ld_live :: "loop_resource set"
  ld_workers :: nat
  ld_shut :: bool

definition acquire :: "loop_resource \<Rightarrow> ledger \<Rightarrow> ledger option" where
  "acquire r l = (if r \<in> ld_live l then None else Some (l\<lparr>ld_live := insert r (ld_live l)\<rparr>))"

definition release :: "loop_resource \<Rightarrow> ledger \<Rightarrow> ledger option" where
  "release r l = (if r \<in> ld_live l then Some (l\<lparr>ld_live := ld_live l - {r}\<rparr>) else None)"

definition no_thread :: "ledger \<Rightarrow> bool" where
  "no_thread l = (Server_Thread \<notin> ld_live l \<and> Bluetooth_Thread \<notin> ld_live l \<and> ld_workers l = 0)"

definition require :: "bool \<Rightarrow> ledger option \<Rightarrow> ledger option" where
  "require b l = (if b then l else None)"

fun enter :: "loop_action \<Rightarrow> ledger \<Rightarrow> ledger option" where
  "enter (Listen fd) l = acquire (Listening fd) l"
| "enter Init_Workers l = acquire Worker_Group l"
| "enter Init_Queue l = acquire Queue l"
| "enter Init_Devices l = acquire Devices l"
| "enter Start_Server l = require ({Queue, Devices} \<subseteq> ld_live l) (acquire Server_Thread l)"
| "enter Start_Bluetooth l = require ({Queue, Devices} \<subseteq> ld_live l) (acquire Bluetooth_Thread l)"
| "enter (Accept fd) l = require (\<exists>x. Listening x \<in> ld_live l) (acquire (Client fd) l)"
| "enter (Start_Worker fd) l = require ({Worker_Group, Queue, Devices} \<subseteq> ld_live l)
     (Option.bind (release (Context fd) (l\<lparr>ld_workers := ld_workers l + 1\<rparr>)) (release (Client fd)))"
| "enter (Alloc_Context fd) l = acquire (Context fd) l"
| "enter (Free_Context fd) l = release (Context fd) l"
| "enter (Close_Client fd) l = release (Client fd) l"
| "enter Worker_Ends l = require ({Worker_Group, Queue, Devices} \<subseteq> ld_live l \<and> 0 < ld_workers l)
     (Some (l\<lparr>ld_workers := ld_workers l - 1\<rparr>))"
| "enter (Close_Listen fd) l = release (Listening fd) l"
| "enter Shut_Queue l = require (Queue \<in> ld_live l) (Some (l\<lparr>ld_shut := True\<rparr>))"
| "enter Join_Server l = require (ld_shut l) (release Server_Thread l)"
| "enter Join_Bluetooth l = require (ld_shut l) (release Bluetooth_Thread l)"
| "enter All_Workers_Ended l = require (ld_workers l = 0) (Some l)"
| "enter Destroy_Workers l = require (ld_workers l = 0) (release Worker_Group l)"
| "enter Destroy_Queue l = require (no_thread l) (release Queue l)"
| "enter Destroy_Devices l = require (no_thread l) (release Devices l)"

fun enter_all :: "loop_action list \<Rightarrow> ledger \<Rightarrow> ledger option" where
  "enter_all [] l = Some l"
| "enter_all (a # as) l = Option.bind (enter a l) (enter_all as)"

lemma enter_all_append: "enter_all (as @ bs) l = Option.bind (enter_all as l) (enter_all bs)"
  by (induction as arbitrary: l) (auto split: Option.bind_split)

lemmas ledger_simps = acquire_def release_def no_thread_def require_def

section \<open>Every run balances\<close>

abbreviation no_resources :: ledger where
  "no_resources \<equiv> \<lparr>ld_live = {}, ld_workers = 0, ld_shut = False\<rparr>"

text \<open>The log explains the state: it leads to the ledger \<open>l\<close>, except for the number of workers.\<close>

definition explained :: "ledger \<Rightarrow> loop_state \<Rightarrow> bool" where
  "explained l s = (enter_all (snd s) no_resources = Some (l\<lparr>ld_workers := active_workers (fst s)\<rparr>))"

definition running_ledger :: "int \<Rightarrow> ledger" where
  "running_ledger fd = \<lparr>ld_live = {Listening fd, Worker_Group, Queue, Devices, Server_Thread, Bluetooth_Thread},
     ld_workers = 0, ld_shut = False\<rparr>"

lemma worker_ends_explained:
  assumes "explained l (workers, log)" "{Worker_Group, Queue, Devices} \<subseteq> ld_live l" "0 < active_workers workers"
  shows "explained l (snd (wifi_worker_group_remove workers), log @ [Worker_Ends])"
  using assms by (simp add: explained_def enter_all_append ledger_simps wifi_worker_group_remove_def Let_def)

lemma workers_end_explained:
  "explained l s \<Longrightarrow> {Worker_Group, Queue, Devices} \<subseteq> ld_live l \<Longrightarrow> explained l (workers_end n s)"
proof (induction n s rule: workers_end.induct)
  case (2 n workers log)
  then show ?case using worker_ends_explained [OF 2(2,3)] by simp
qed simp

lemma accept_client_explained:
  assumes "explained (running_ledger fd) s"
  shows "explained (running_ledger fd) (accept_client t s)"
  using assms
  by (cases s)
    (auto simp: explained_def accept_client_def wifi_server_accept_def enter_all_append ledger_simps running_ledger_def Let_def
      wifi_worker_group_add_def wifi_worker_group_remove_def)

lemma accept_loop_explained: "explained (running_ledger fd) s \<Longrightarrow> explained (running_ledger fd) (accept_loop ts s)"
proof (induction ts arbitrary: s)
  case (Cons t ts)
  have "explained (running_ledger fd) (workers_end (tn_ends t) s)"
    by (rule workers_end_explained [OF Cons.prems]) (simp add: running_ledger_def)
  then show ?case using Cons.IH accept_client_explained by (cases "tn_poll t") (simp_all add: Let_def)
qed simp

lemma wait_workers_explained:
  assumes "explained l s" "{Worker_Group, Queue, Devices} \<subseteq> ld_live l" "wait_workers n s = Some s'"
  shows "explained l s' \<and> active_workers (fst s') = 0"
  using assms
proof (induction n s rule: wait_workers.induct)
  case (1 n workers log)
  show ?case
  proof (cases "active_workers workers = 0")
    case True
    then show ?thesis using 1(2-4)
      by (auto simp: wifi_worker_group_wait_def explained_def enter_all_append ledger_simps)
  next
    case False
    then have "wifi_worker_group_wait workers = None" by (simp add: wifi_worker_group_wait_def)
    moreover from this obtain k where "n = Suc k" using 1(4) by (cases n) auto
    ultimately show ?thesis using 1 worker_ends_explained [OF 1(2,3)] False by simp
  qed
qed

lemma wait_workers_step:
  "wait_workers 0 (workers, log) = (if active_workers workers = 0 then Some (workers, log @ [All_Workers_Ended]) else None)"
  "wait_workers (Suc n) (workers, log) =
     (if active_workers workers = 0 then Some (workers, log @ [All_Workers_Ended])
      else wait_workers n (snd (wifi_worker_group_remove workers), log @ [Worker_Ends]))"
  by (simp_all add: wifi_worker_group_wait_def)

lemmas [simp del] = wait_workers.simps

lemma remove_active: "active_workers (snd (wifi_worker_group_remove workers)) = active_workers workers - 1"
  by (simp add: wifi_worker_group_remove_def Let_def)

lemma wait_workers_returns: "wait_workers n (workers, log) \<noteq> None \<longleftrightarrow> active_workers workers \<le> n"
proof (induction n arbitrary: workers log)
  case (Suc n)
  then show ?case by (auto simp: wait_workers_step remove_active)
qed (simp add: wait_workers_step)

lemma workers_end_active: "active_workers (fst (workers_end n s)) \<le> active_workers (fst s)"
proof (induction n s rule: workers_end.induct)
  case (2 n workers log)
  show ?case
  proof (cases "active_workers workers = 0")
    case False
    from 2 [OF this] False show ?thesis by (simp add: remove_active)
  qed simp
qed simp

lemma accept_client_active: "active_workers (fst (accept_client t s)) \<le> active_workers (fst s) + 1"
  by (cases s) (simp add: accept_client_def Let_def wifi_worker_group_add_def remove_active)

lemma accept_loop_active: "active_workers (fst (accept_loop ts s)) \<le> active_workers (fst s) + length ts"
proof (induction ts arbitrary: s)
  case (Cons t ts)
  let ?s = "workers_end (tn_ends t) s"
  have "active_workers (fst x) \<le> active_workers (fst s) + 1 \<Longrightarrow>
      active_workers (fst (accept_loop ts x)) \<le> active_workers (fst s) + length (t # ts)" for x
    using Cons.IH [of x] by simp
  moreover have "active_workers (fst ?s) \<le> active_workers (fst s) + 1"
    using workers_end_active [of "tn_ends t" s] by simp
  moreover have "active_workers (fst (accept_client t ?s)) \<le> active_workers (fst s) + 1"
    using workers_end_active [of "tn_ends t" s] accept_client_active [of t ?s] by simp
  ultimately show ?case by (cases "tn_poll t") (simp_all add: Let_def)
qed simp

text \<open>Logs only grow.\<close>

lemma workers_end_grows: "set (snd s) \<subseteq> set (snd (workers_end n s))"
  by (induction n s rule: workers_end.induct) auto

lemma accept_loop_grows: "set (snd s) \<subseteq> set (snd (accept_loop ts s))"
proof (induction ts arbitrary: s)
  case (Cons t ts)
  let ?s = "workers_end (tn_ends t) s"
  have "set (snd ?s) \<subseteq> set (snd (accept_client t ?s))" by (cases ?s) (auto simp: accept_client_def Let_def)
  then show ?case
    using workers_end_grows [of s "tn_ends t"] Cons.IH [of ?s] Cons.IH [of "accept_client t ?s"]
    by (cases "tn_poll t") (auto simp: Let_def)
qed simp

lemma wait_workers_grows: "wait_workers n s = Some s' \<Longrightarrow> set (snd s) \<subseteq> set (snd s')"
proof (induction n arbitrary: s)
  case 0
  then show ?case by (cases s) (auto simp: wait_workers_step split: if_splits)
next
  case (Suc n)
  then show ?case by (cases s) (fastforce simp: wait_workers_step split: if_splits)
qed

lemma gateway_loop_stops:
  "case gateway_loop_run a (Some serial_device) of
     None \<Rightarrow> la_late a < length (la_turns a)
   | Some (result, log) \<Rightarrow>
       (case enter_all log no_resources of
          None \<Rightarrow> False
        | Some l \<Rightarrow> ld_workers l = 0 \<and> (result = 0 \<longleftrightarrow> Start_Bluetooth \<in> set log)
            \<and> ld_live l = (if Start_Server \<in> set log \<and> Start_Bluetooth \<notin> set log then {Devices} else {}))"
proof -
  obtain fd so bo lo where listen: "la_listen a = (fd, so, bo, lo)" by (cases "la_listen a")
  obtain q1 q2 q3 where queue: "la_queue a = (q1, q2, q3)" by (cases "la_queue a")
  obtain wo ws where init: "wifi_worker_group_init \<lparr>active_workers = 0\<rparr> (fst (la_workers a)) (snd (la_workers a)) = (wo, ws)" by fastforce
  then have ws: "active_workers ws = 0" by (auto simp: wifi_worker_group_init_def Let_def split: if_splits)
  define l where "l = fst (wifi_server_open fd so bo lo)"
  let ?start = "[Listen l, Init_Workers, Init_Queue, Init_Devices, Start_Server, Start_Bluetooth]"
  obtain ws1 log1 where loop: "accept_loop (la_turns a) (ws, ?start) = (ws1, log1)" by fastforce
  have "explained (running_ledger l) (ws, ?start)"
    by (simp add: explained_def ledger_simps running_ledger_def ws insert_commute)
  from accept_loop_explained [OF this, of "la_turns a"] have e1: "explained (running_ledger l) (ws1, log1)" by (simp add: loop)
  let ?stop = "[Close_Listen l, Shut_Queue, Join_Bluetooth]"
  define stopping where "stopping = \<lparr>ld_live = {Worker_Group, Queue, Devices, Server_Thread}, ld_workers = 0, ld_shut = True\<rparr>"
  have e2: "explained stopping (ws1, log1 @ ?stop)"
    using e1 by (auto simp: explained_def enter_all_append running_ledger_def stopping_def ledger_simps)
  have none: "la_late a < length (la_turns a)" if "wait_workers (la_late a) (ws1, log1 @ ?stop) = None"
    using that wait_workers_returns [of "la_late a" ws1 "log1 @ ?stop"] accept_loop_active [of "la_turns a" "(ws, ?start)"]
    by (simp add: loop ws)
  have some: "enter_all (log2 @ [Join_Server, Destroy_Workers, Destroy_Queue, Destroy_Devices]) no_resources
       = Some \<lparr>ld_live = {}, ld_workers = 0, ld_shut = True\<rparr> \<and> Start_Bluetooth \<in> set log2 \<and> Start_Server \<in> set log2"
    if w: "wait_workers (la_late a) (ws1, log1 @ ?stop) = Some (ws2, log2)" for ws2 log2
  proof -
    have "{Start_Bluetooth, Start_Server} \<subseteq> set log2"
      using accept_loop_grows [of "(ws, ?start)" "la_turns a"] wait_workers_grows [OF w] by (auto simp: loop)
    with wait_workers_explained [OF e2 _ w] show ?thesis
      by (auto simp: explained_def enter_all_append stopping_def ledger_simps)
  qed
  show ?thesis
  proof (cases "0 \<le> l \<and> wo \<and> q1 = 0 \<and> q2 = 0 \<and> q3 = 0 \<and> la_devices a = 0 \<and> la_server a = 0 \<and> la_bluetooth a = 0")
    case True
    then have "gateway_loop_run a (Some serial_device) =
        (case wait_workers (la_late a) (ws1, log1 @ ?stop) of
           None \<Rightarrow> None
         | Some (ws2, log2) \<Rightarrow> Some (0, log2 @ [Join_Server, Destroy_Workers, Destroy_Queue, Destroy_Devices]))"
      by (simp add: gateway_loop_run_def gateway_loop_stop_def listen l_def [symmetric] init queue loop message_queue_init_def device_manager_init_def Let_def)
    then show ?thesis using none some by (auto split: option.split)
  next
    case False
    then show ?thesis
      by (auto simp: gateway_loop_run_def gateway_loop_stop_def listen l_def [symmetric] init queue message_queue_init_def device_manager_init_def Let_def
          ledger_simps)
  qed
qed

text \<open>C40: The main thread of the gateway keeps its books, whatever the system answers: on every path, early
  failures included, each step is safe (a thread is started only while the queue, the devices and the
  group exist; nothing is released twice or while a thread may use it; threads are joined only after
  the queue was shut down; every accepted socket, with the block that is allocated for it, goes to one worker, or is closed and the
  block freed), and at the end
  everything acquired is released and every thread has ended, with one exception: when the Bluetooth
  thread cannot be started, the device manager is never destroyed. The result is 0 exactly if
  everything could be started.\<close>
theorem gateway_loop_balanced:
  "case gateway_loop_run a (Some serial_device) of
     None \<Rightarrow> la_late a < length (la_turns a)
   | Some (result, log) \<Rightarrow>
       (case enter_all log no_resources of
          None \<Rightarrow> False
        | Some l \<Rightarrow> ld_workers l = 0 \<and> (result = 0 \<longleftrightarrow> Start_Bluetooth \<in> set log)
            \<and> ld_live l = (if Start_Server \<in> set log \<and> Start_Bluetooth \<notin> set log then {Devices} else {}))"
  by (rule gateway_loop_stops)

text \<open>The loop can only wait for workers: if enough of them end, it returns.\<close>

lemma gateway_loop_returns: "length (la_turns a) \<le> la_late a \<Longrightarrow> gateway_loop_run a (Some serial_device) \<noteq> None"
  using gateway_loop_stops [of a serial_device] by (auto split: option.splits)

text \<open>The exit code does not show that the gateway could not start.\<close>

lemma gateway_exit_code:
  "gateway_main [''--serial'', ''/dev/rfcomm0''] 0 0
     \<lparr>la_listen = (3, True, False, True), la_workers = (0, 0), la_queue = (0, 0, 0), la_devices = 0, la_server = 0,
      la_bluetooth = 0, la_turns = [], la_late = 0\<rparr> = Some (0, [])"
  by (simp add: gateway_main_def install_signal_handlers_def gateway_app_parse_args_def gateway_loop_run_def wifi_server_open_def given_up_def)

end
