(* ===== verification/Server_Main.thy ===== *)
theory Server_Main
  imports Command_Manager Node_Store Message_Json_Spec Line_Parser Io_Loops "HOL-Library.Multiset"
begin

text \<open>
  \<^verbatim>\<open>server/main.c\<close>: the server. Its only thread waits for the operator's commands, for connections of
  gateways and for their messages, and in every turn of its loop repeats the commands that were not
  answered. The loop reads a script of what the system answers; \<open>g_running\<close> is true until the script
  is exhausted. Printing is left out, except that the list of nodes that \<open>nodes\<close> prints is computed.
  The lemmas: what each line does to the store and the table of commands; what an operator command and
  the repetition of commands send; the invariant of the loop; the memory and the descriptors the process holds.
\<close>

section \<open>Configuration\<close>

definition server_parse_port :: "string option \<Rightarrow> u16 option" where
  "server_parse_port s =
     (case s of
        None \<Rightarrow> None
      | Some t \<Rightarrow>
          if t = [] then None
          else (case strtol10 t of (v, rest, range_error) \<Rightarrow>
            if range_error \<or> rest = t \<or> rest \<noteq> [] \<or> v < 1 \<or> 65535 < v then None else Some (word_of_int v)))"

section \<open>Lines from the gateway\<close>

definition line_has :: "string \<Rightarrow> string \<Rightarrow> bool" where
  "line_has line pattern =
     (if length line < length pattern then False
      else list_ex (\<lambda>i. take (length pattern) (drop i line) = pattern) [0..<length line - length pattern + 1])"

text \<open>The state is \<open>server_context_t\<close>, \<open>now\<close> the clock in \<open>node_store_update\<close>.\<close>

definition on_line :: "int \<Rightarrow> string \<Rightarrow> node_store \<times> command_manager \<Rightarrow> node_store \<times> command_manager" where
  "on_line now line ctx =
     (case ctx of (store, manager) \<Rightarrow>
       if line_has line ''\"type\":\"ACK\"'' then
         (case message_json_decode_ack (Some line) (Some zero_frame_ack) of
            (None, ack) \<Rightarrow> (store, manager)
          | (Some n, ack) \<Rightarrow> (store, snd (command_manager_on_ack manager ack)))
       else if line_has line ''\"type\":\"NACK\"'' then
         (case message_json_decode_nack (Some line) (Some zero_frame_nack) of
            (None, nack) \<Rightarrow> (store, manager)
          | (Some n, nack) \<Rightarrow> (store, snd (command_manager_on_nack manager nack)))
       else
         (case message_json_decode_data (Some line) (Some zero_frame_data) of
            (None, data) \<Rightarrow> (store, manager)
          | (Some n, data) \<Rightarrow> (snd (node_store_update store data now), manager)))"

section \<open>The registry\<close>

definition NODE_ONLINE_TIMEOUT_SEC :: int where "NODE_ONLINE_TIMEOUT_SEC = 30"

type_synonym registry_line = "string \<times> frame_device_type \<times> bool \<times> int"

definition print_registry_entry :: "node_store \<Rightarrow> int \<Rightarrow> frame_data \<Rightarrow> int \<Rightarrow> registry_line list
    \<Rightarrow> bool \<times> registry_line list" where
  "print_registry_entry store clock data last_update printed =
     (let dev_type = frame_device_type_from_text (frame_data_find_field (Some data) (Some ''DEV''));
          online = (case node_store_is_online store (Some (data_node_id data)) NODE_ONLINE_TIMEOUT_SEC (Some False) clock of
                      (ok, out) \<Rightarrow> if \<not> ok then False else the out)
      in (False, printed @ [(data_node_id data, dev_type, online, last_update)]))"

definition print_node_registry :: "node_store \<Rightarrow> int \<Rightarrow> registry_line list" where
  "print_node_registry store clock = node_store_foreach store (Some (print_registry_entry store clock)) []"

section \<open>The operator\<close>

text \<open>
  \<open>sscanf\<close> with \<open>led %31s %31s %c\<close>: the three letters, two words of at most 31 characters, and whether
  any character but white space is left. The first component is the number of conversions (a
  failure before the first one, 0 or -1, is 0).
\<close>

definition scan_word :: "string \<Rightarrow> string \<times> string" where
  "scan_word s =
     (let t = dropWhile is_space s; w = take 31 (takeWhile (\<lambda>c. \<not> is_space c) t) in (w, drop (length w) t))"

definition scan_led :: "string \<Rightarrow> nat \<times> string \<times> string" where
  "scan_led s =
     (if take 3 s \<noteq> ''led'' then (0, [], [])
      else
        (case scan_word (drop 3 s) of (w1, r1) \<Rightarrow>
           if w1 = [] then (0, [], [])
           else
             (case scan_word r1 of (w2, r2) \<Rightarrow>
                if w2 = [] then (1, w1, [])
                else if dropWhile is_space r2 = [] then (2, w1, w2)
                else (3, w1, w2))))"

definition CMD_SENDER :: string where "CMD_SENDER = ''GATEWAY''"

text \<open>
  \<open>line\<close> is what \<open>fgets\<close> put in the buffer (\<open>None\<close> at the end of the input or on an error). The
  \<open>command\<close> is what is left of it before the first line break.
\<close>

text \<open>The last part of \<open>handle_stdin_command\<close>: the values are fine.\<close>

definition send_led_command :: "(nat \<Rightarrow> nat) \<Rightarrow> int \<Rightarrow> string \<Rightarrow> int \<Rightarrow> int \<Rightarrow> command_manager \<times> sent list
    \<Rightarrow> command_manager \<times> sent list" where
  "send_led_command os now target_node led_value client_fd s =
     (case s of (manager, log) \<Rightarrow>
       if client_fd < 0 then (manager, log)
       else
         let fields = [\<lparr>kv_key = ''LED'', kv_value = print_d led_value\<rparr>] in
         (case command_manager_send manager (Some target_node) (Some CMD_SENDER) (Some fields) 1 (Some 0) now of
            (ok, manager', sequence) \<Rightarrow>
              if \<not> ok then (manager', log)
              else
                (case message_json_build_command (Some []) 256
                        (Some \<lparr>cmd_target_node = target_node, cmd_sender = CMD_SENDER,
                               cmd_sequence = the sequence, cmd_fields = fields\<rparr>) of
                   (None, json) \<Rightarrow> (manager', log)
                 | (Some n, json) \<Rightarrow>
                     (manager', snd (send_logged os client_fd (take n (the json)) log)))))"

definition handle_stdin_command :: "(nat \<Rightarrow> nat) \<Rightarrow> int \<Rightarrow> string option \<Rightarrow> int
    \<Rightarrow> command_manager \<times> sent list \<Rightarrow> command_manager \<times> sent list" where
  "handle_stdin_command os now line client_fd s =
     (case s of (manager, log) \<Rightarrow>
       (case line of
          None \<Rightarrow> (manager, log)
        | Some bytes \<Rightarrow>
            let command = takeWhile (\<lambda>c. c \<noteq> CR \<and> c \<noteq> LF) (cstr bytes) in
            if command = ''help'' then (manager, log)
            else if command = ''nodes'' then (manager, log)
            else
              (case scan_led command of (matched, target_node, led_text) \<Rightarrow>
                if matched \<noteq> 2 then (manager, log)
                else
                  (case strtol10 led_text of (v, rest, range_error) \<Rightarrow>
                    if range_error \<or> rest = led_text \<or> rest \<noteq> [] \<or> v < 0 \<or> 1 < v then (manager, log)
                    else send_led_command os now target_node v client_fd (manager, log)))))"

lemmas stdin_command_defs = handle_stdin_command_def send_led_command_def

section \<open>Repeating commands\<close>

definition CMD_TIMEOUT_SEC :: int where "CMD_TIMEOUT_SEC = 3"
definition CMD_MAX_RETRIES :: int where "CMD_MAX_RETRIES = 2"
definition CMD_RETRY_TABLE :: nat where "CMD_RETRY_TABLE = 16"

lemmas cmd_consts = CMD_TIMEOUT_SEC_def CMD_MAX_RETRIES_def CMD_RETRY_TABLE_def

text \<open>The loop over the parallel arrays of the retries.\<close>

fun retry_loop :: "(nat \<Rightarrow> nat) \<Rightarrow> int \<Rightarrow> (u32 \<times> string \<times> frame_kv list \<times> nat) list \<Rightarrow> sent list \<Rightarrow> sent list" where
  "retry_loop os client_fd [] log = log"
| "retry_loop os client_fd ((sequence, target_node, kvs, field_count) # rs) log =
     (if client_fd < 0 then retry_loop os client_fd rs log
      else
        (case message_json_build_command (Some []) 256
                (Some \<lparr>cmd_target_node = fst (snprintf 32 target_node), cmd_sender = CMD_SENDER,
                       cmd_sequence = sequence, cmd_fields = take field_count kvs\<rparr>) of
           (None, json) \<Rightarrow> retry_loop os client_fd rs log
         | (Some n, json) \<Rightarrow>
             retry_loop os client_fd rs (snd (send_logged os client_fd (take n (the json)) log))))"

definition retry_commands :: "(nat \<Rightarrow> nat) \<Rightarrow> int \<Rightarrow> int \<Rightarrow> command_manager \<times> sent list \<Rightarrow> command_manager \<times> sent list" where
  "retry_commands os now client_fd s =
     (case s of (manager, log) \<Rightarrow>
       (case command_manager_check_timeouts manager now CMD_TIMEOUT_SEC CMD_MAX_RETRIES (Some []) (Some []) (Some [])
               (Some []) CMD_RETRY_TABLE (Some 0) (Some []) CMD_RETRY_TABLE (Some 0) of
          (ok, manager', rep, retry_count, timeout_count) \<Rightarrow>
            (manager',
             retry_loop os client_fd
               (take (the retry_count)
                 (zip (the (retry_sequences rep))
                   (zip (the (retry_target_nodes rep)) (zip (the (retry_fields rep)) (the (retry_field_counts rep))))))
               log)))"

section \<open>The main loop\<close>

definition RECEIVE_BUFFER_SIZE :: nat where "RECEIVE_BUFFER_SIZE = 4096"
definition REGISTRY_PRINT_INTERVAL :: int where "REGISTRY_PRINT_INTERVAL = 10"
definition NODE_STORE_MAX_NODES :: nat where "NODE_STORE_MAX_NODES = 64"

text \<open>
  What the process holds: blocks of memory and descriptors. \<open>sv_actions\<close> lists what it has got and
  given back, in order.
\<close>

datatype server_resource = Store_Block | Entries_Block | Manager_Block | Socket int

datatype server_action = Acquired server_resource | Released server_resource

definition node_store_destroy :: "node_store option \<Rightarrow> server_action list" where
  "node_store_destroy store = (if store = None then [] else [Released Entries_Block, Released Store_Block])"

definition command_manager_destroy :: "command_manager option \<Rightarrow> server_action list" where
  "command_manager_destroy manager = (if manager = None then [] else [Released Manager_Block])"

record server =
  sv_store :: node_store
  sv_manager :: command_manager
  sv_client_fd :: int
  sv_buffer :: string
  sv_next_registry_print :: int
  sv_sent :: "sent list"
  sv_actions :: "server_action list"

text \<open>
  What the system answers in a turn: the time, \<open>poll\<close> (with the events of the listening socket, of the
  client if there is one, and of the standard input), \<open>fgets\<close>, \<open>accept\<close> and \<open>recv\<close> if they are called.
\<close>

datatype server_poll = Server_Poll_Interrupted | Server_Poll_Failed | Server_Poll_Timeout
  | Server_Poll_Ready revents revents revents

record server_turn =
  st_now :: int
  st_poll :: server_poll
  st_stdin :: "string option"
  st_accept :: int
  st_recv :: read_answer

abbreviation drop_client :: "server \<Rightarrow> server" where
  "drop_client s \<equiv> s\<lparr>sv_client_fd := -1, sv_buffer := [], sv_actions := sv_actions s @ [Released (Socket (sv_client_fd s))]\<rparr>"

text \<open>The part after \<open>accept\<close>, for a client with the events \<open>ev\<close>.\<close>

definition server_receive :: "server_turn \<Rightarrow> revents \<Rightarrow> server \<Rightarrow> server" where
  "server_receive t ev s =
     (if sv_client_fd s < 0 then s
      else
        (let check_hung_up = (\<lambda>s. if 0 \<le> sv_client_fd s \<and> (pollerr ev \<or> pollhup ev \<or> pollnval ev) then drop_client s else s)
         in if pollin ev then
              (case st_recv t of
                 Bytes bytes \<Rightarrow>
                   if bytes = [] then check_hung_up (drop_client s)
                   else if RECEIVE_BUFFER_SIZE < length (sv_buffer s) + length bytes then drop_client s
                   else
                     (case line_parser_feed (Some (sv_buffer s @ bytes)) RECEIVE_BUFFER_SIZE (Some (on_line (st_now t)))
                             (sv_store s, sv_manager s) of
                        (rest, (store, manager), n) \<Rightarrow>
                          check_hung_up (s\<lparr>sv_store := store, sv_manager := manager, sv_buffer := the rest\<rparr>))
               | Read_Interrupted \<Rightarrow> check_hung_up s
               | _ \<Rightarrow> check_hung_up (drop_client s))
            else check_hung_up s))"

text \<open>What happens after a successful \<open>poll\<close>: operator input, a new client, or data from the client.\<close>

definition server_events :: "(nat \<Rightarrow> nat) \<Rightarrow> server_turn \<Rightarrow> revents \<Rightarrow> revents \<Rightarrow> revents \<Rightarrow> server \<Rightarrow> server" where
  "server_events os t listen_ev client_ev stdin_ev s =
     (let s1 = (if pollin stdin_ev
                then (case handle_stdin_command os (st_now t) (st_stdin t) (sv_client_fd s) (sv_manager s, sv_sent s) of
                        (manager, log) \<Rightarrow> s\<lparr>sv_manager := manager, sv_sent := log\<rparr>)
                else s)
      in if pollin listen_ev \<and> 0 \<le> st_accept t
         then s1\<lparr>sv_client_fd := st_accept t, sv_buffer := [],
                 sv_actions := sv_actions s1 @ Acquired (Socket (st_accept t))
                   # (if 0 \<le> sv_client_fd s1 then [Released (Socket (sv_client_fd s1))] else [])\<rparr>
         else server_receive t client_ev s1)"

text \<open>One turn of the loop; \<open>False\<close> leaves it.\<close>

definition server_iteration :: "(nat \<Rightarrow> nat) \<Rightarrow> server_turn \<Rightarrow> server \<Rightarrow> bool \<times> server" where
  "server_iteration os t s =
     (let s1 = (if sv_next_registry_print s \<le> st_now t
                then s\<lparr>sv_next_registry_print := st_now t + REGISTRY_PRINT_INTERVAL\<rparr> else s) in
      (case retry_commands os (st_now t) (sv_client_fd s1) (sv_manager s1, sv_sent s1) of (manager, log) \<Rightarrow>
        let s2 = s1\<lparr>sv_manager := manager, sv_sent := log\<rparr> in
        (case st_poll t of
           Server_Poll_Interrupted \<Rightarrow> (True, s2)
         | Server_Poll_Failed \<Rightarrow> (False, s2)
         | Server_Poll_Timeout \<Rightarrow> (True, s2)
         | Server_Poll_Ready listen_ev client_ev stdin_ev \<Rightarrow> (True, server_events os t listen_ev client_ev stdin_ev s2))))"

fun server_loop :: "(nat \<Rightarrow> nat) \<Rightarrow> server_turn list \<Rightarrow> server \<Rightarrow> server" where
  "server_loop os [] s = s"
| "server_loop os (t # ts) s =
     (case server_iteration os t s of (go, s') \<Rightarrow> if go then server_loop os ts s' else s')"

text \<open>
  \<open>main\<close>: the exit code, and the last state if the loop was entered. The arguments after the command
  line say what the system answers before the loop: the allocations of the store and of the
  manager, the two calls of \<open>sigaction\<close>, and the calls in \<open>tcp_server_create\<close>. The last component of
  the result is everything the process has got and given back.
\<close>

definition store_actions :: "bool \<Rightarrow> bool \<Rightarrow> server_action list" where
  "store_actions store_allocated entries_allocated =
     (if \<not> store_allocated then []
      else if \<not> entries_allocated then [Acquired Store_Block, Released Store_Block]
      else [Acquired Store_Block, Acquired Entries_Block])"

definition manager_actions :: "bool \<Rightarrow> server_action list" where
  "manager_actions allocated = (if \<not> allocated then [] else [Acquired Manager_Block])"

definition socket_actions :: "open_result \<Rightarrow> server_action list" where
  "socket_actions r = (case r of (fd, opened_fds, closed_fds) \<Rightarrow>
     map (Acquired \<circ> Socket) opened_fds @ map (Released \<circ> Socket) closed_fds)"

text \<open>After the loop.\<close>

definition server_stop :: "int \<Rightarrow> server \<Rightarrow> server" where
  "server_stop server_fd s =
     s\<lparr>sv_actions := sv_actions s @ (if 0 \<le> sv_client_fd s then [Released (Socket (sv_client_fd s))] else [])
         @ [Released (Socket server_fd)] @ command_manager_destroy (Some (sv_manager s)) @ node_store_destroy (Some (sv_store s))\<rparr>"

definition server_install_signal_handlers :: "int \<Rightarrow> int \<Rightarrow> int" where
  "server_install_signal_handlers sigint sigterm = (if sigint \<noteq> 0 then -1 else if sigterm \<noteq> 0 then -1 else 0)"

definition server_main :: "(nat \<Rightarrow> nat) \<Rightarrow> string list \<Rightarrow> bool \<Rightarrow> bool \<Rightarrow> bool \<Rightarrow> int \<Rightarrow> int \<Rightarrow> int \<times> bool \<times> bool \<times> bool
    \<Rightarrow> server_turn list \<Rightarrow> int \<times> server option \<times> server_action list" where
  "server_main os args store_allocated entries_allocated manager_allocated sigint sigterm create ts =
     (if args \<noteq> [] \<and> server_parse_port (Some (hd args)) = None then (1, None, [])
      else
        let a1 = store_actions store_allocated entries_allocated in
        (case node_store_create NODE_STORE_MAX_NODES store_allocated entries_allocated of
           None \<Rightarrow> (1, None, a1)
         | Some store \<Rightarrow>
             let a2 = a1 @ manager_actions manager_allocated in
             (case command_manager_create manager_allocated of
                None \<Rightarrow> (1, None, a2 @ node_store_destroy (Some store))
              | Some manager \<Rightarrow>
                  if server_install_signal_handlers sigint sigterm \<noteq> 0
                  then (1, None, a2 @ command_manager_destroy (Some manager) @ node_store_destroy (Some store))
                  else
                    (case create of (fd, setsockopt_ok, bind_ok, listen_ok) \<Rightarrow>
                      let r = tcp_server_create fd setsockopt_ok bind_ok listen_ok; server_fd = fst r; a3 = a2 @ socket_actions r in
                      if server_fd < 0
                      then (1, None, a3 @ command_manager_destroy (Some manager) @ node_store_destroy (Some store))
                      else
                        let final = server_stop server_fd (server_loop os ts
                          \<lparr>sv_store = store, sv_manager = manager, sv_client_fd = -1, sv_buffer = [],
                           sv_next_registry_print = 0, sv_sent = [], sv_actions = a3\<rparr>)
                        in (0, Some final, sv_actions final)))))"

section \<open>Operator commands\<close>

text \<open>The target and the value that a line of input asks for, if it is a valid command \<open>led\<close>.\<close>

definition operator_request :: "string option \<Rightarrow> (string \<times> int) option" where
  "operator_request line =
     (case line of
        None \<Rightarrow> None
      | Some bytes \<Rightarrow>
          (case scan_led (takeWhile (\<lambda>c. c \<noteq> CR \<and> c \<noteq> LF) (cstr bytes)) of (matched, target, led_text) \<Rightarrow>
             if matched \<noteq> 2 then None
             else (case strtol10 led_text of (v, rest, range_error) \<Rightarrow>
               if range_error \<or> rest \<noteq> [] \<or> v < 0 \<or> 1 < v then None else Some (target, v))))"

definition led_command :: "string \<Rightarrow> int \<Rightarrow> u32 \<Rightarrow> frame_command" where
  "led_command target v sequence = \<lparr>cmd_target_node = target, cmd_sender = ''GATEWAY'', cmd_sequence = sequence,
     cmd_fields = [\<lparr>kv_key = ''LED'', kv_value = print_d v\<rparr>]\<rparr>"

definition led_entry :: "nat \<Rightarrow> string \<Rightarrow> int \<Rightarrow> int \<Rightarrow> command_entry" where
  "led_entry k target v now = sent_entry (of_nat (k + 1)) target ''GATEWAY'' (Some [\<lparr>kv_key = ''LED'', kv_value = print_d v\<rparr>]) 1 now"

lemma scan_word_bounds:
  "scan_word s = (w, r) \<Longrightarrow> length w \<le> 31 \<and> (\<forall>c \<in> set w. \<not> is_space c)"
  by (auto simp: scan_word_def Let_def dest!: in_set_takeD set_takeWhileD)

lemma scan_led_target:
  assumes "scan_led s = (2, target, led)"
  shows "target \<noteq> []" "length target < 32" "led \<noteq> []" "\<forall>c \<in> set target. \<not> is_space c"
  using assms scan_word_bounds [of "drop 3 s"]
  by (fastforce simp: scan_led_def split: if_splits prod.splits)+

lemma led_json_fits:
  assumes "length target < 32" "0 \<le> v" "v \<le> 1"
  shows "length (json_command_text (led_command target v sequence)) < 256"
proof -
  have "length (print_u (unat sequence)) \<le> 10"
    using print_u_length [of "unat sequence" 10] unsigned_less [of sequence, where 'a = nat] by simp
  moreover have "length (print_d v) = 1" using assms(2,3) by (cases "v = 0") (auto simp: print_compute)
  ultimately show ?thesis
    using assms(1) by (simp add: led_command_def json_command_text_def json_string_text_def json_seq_text_def json_quoted_def
        json_fields_member_def json_field_text_def)
qed

lemma strtol10_rest: "strtol10 s = (v, rest, e) \<Longrightarrow> s \<noteq> [] \<Longrightarrow> rest = [] \<Longrightarrow> rest \<noteq> s" by simp

lemma handle_stdin_eq:
  assumes "cm_filled k m"
  shows "handle_stdin_command os now line fd (m, log) =
     (case operator_request line of
        None \<Rightarrow> (m, log)
      | Some (target, v) \<Rightarrow>
          if fd < 0 \<or> k = 64 then (m, log)
          else (\<lparr>entries = (entries m)[k := led_entry k target v now], next_sequence = of_nat (k + 2)\<rparr>,
                snd (send_logged os fd (json_command_text (led_command target v (of_nat (k + 1)))) log)))"
proof (cases line)
  case None
  then show ?thesis by (simp add: stdin_command_defs operator_request_def)
next
  case (Some bytes)
  define command where "command = takeWhile (\<lambda>c. c \<noteq> CR \<and> c \<noteq> LF) (cstr bytes)"
  obtain n target led where sc: "scan_led command = (n, target, led)" by (metis prod_cases3)
  obtain v rest e where st: "strtol10 led = (v, rest, e)" by (metis prod_cases3)
  have words: "scan_led ''help'' = (0, [], [])" "scan_led ''nodes'' = (0, [], [])" by (simp_all add: scan_led_def)
  show ?thesis
  proof (cases "command = ''help'' \<or> command = ''nodes'' \<or> n \<noteq> 2")
    case True
    then show ?thesis using words sc by (auto simp: stdin_command_defs operator_request_def Some command_def [symmetric])
  next
    case False
    then have t: "n = 2" "target \<noteq> []" "length target < 32" "led \<noteq> []" using scan_led_target [of command target led] sc by auto
    show ?thesis
    proof (cases "e \<or> rest = led \<or> rest \<noteq> [] \<or> v < 0 \<or> 1 < v \<or> fd < 0")
      case True
      then show ?thesis using False sc st t
        by (auto simp: stdin_command_defs operator_request_def Some command_def [symmetric] split: if_splits)
    next
      case ok: False
      have args: "send_args_ok (Some target) (Some CMD_SENDER) (Some [\<lparr>kv_key = ''LED'', kv_value = print_d v\<rparr>]) 1"
        using t by (simp add: send_args_ok_def CMD_SENDER_def)
      have k: "k \<le> 64" using assms by (simp add: cm_filled_def)
      have fits: "length (json_command_text (led_command target v (of_nat (k + 1)))) < 256"
        using led_json_fits [OF t(3)] ok by auto
      have b: "message_json_build_command (Some []) 256 (Some (led_command target v (of_nat (k + 1)))) =
          (Some (length (json_command_text (led_command target v (of_nat (k + 1))))), Some (json_command_text (led_command target v (of_nat (k + 1)))))"
        using fits by (simp add: csimps json_written_def)
      show ?thesis
        using False sc st t ok k args send_eq [OF assms, of "Some target" "Some CMD_SENDER" "Some [\<lparr>kv_key = ''LED'', kv_value = print_d v\<rparr>]" 1 0 now]
          b [unfolded led_command_def]
        by (auto simp: stdin_command_defs operator_request_def Some command_def [symmetric] Let_def led_entry_def
            led_command_def CMD_SENDER_def)
    qed
  qed
qed

text \<open>C33: Operator input never leaves the server in between: for every line of input (and its end), a
  line that is not \<open>led <node> <0 or 1>\<close> with a node of at most 31 characters changes and sends nothing,
  like a valid one while no gateway is connected or when the table of commands is used up; every
  other one registers exactly one waiting command, under the next sequence number, and sends exactly
  one message, the JSON text of this command, which always fits its buffer.\<close>
theorem operator_command_spec:
  assumes "cm_filled k m"
  shows "handle_stdin_command os now line fd (m, log) =
     (case operator_request line of
        None \<Rightarrow> (m, log)
      | Some (target, v) \<Rightarrow>
          if fd < 0 \<or> k = 64 then (m, log)
          else (\<lparr>entries = (entries m)[k := led_entry k target v now], next_sequence = of_nat (k + 2)\<rparr>,
                snd (send_logged os fd (json_command_text (led_command target v (of_nat (k + 1)))) log)))"
  by (rule handle_stdin_eq [OF assms])

theorem operator_command_spec_witness:
  "handle_stdin_command (\<lambda>i. 99) 7 (Some (''led N1 2'' @ [LF])) 4 (cm_start, []) = (cm_start, [])
   \<and> snd (handle_stdin_command (\<lambda>i. 99) 7 (Some (''led N1 1'' @ [LF])) 4 (cm_start, [])) =
       [\<lparr>sent_fd = 4, sent_data = json_command_text (led_command ''N1'' 1 1),
         sent_count = min (length (json_command_text (led_command ''N1'' 1 1))) 99\<rparr>]"
proof -
  have st: "strtol10 ''1'' = (1, [], False)" "strtol10 ''2'' = (2, [], False)"
    by (simp_all add: strtol10_def is_space_def strip_sign_def is_digit_def dec_value_def digit_val_def)
  have sc: "scan_led ''led N1 1'' = (2, ''N1'', ''1'')" "scan_led ''led N1 2'' = (2, ''N1'', ''2'')"
    by (simp_all add: scan_led_def scan_word_def is_space_def Let_def)
  have "operator_request (Some (''led N1 1'' @ [LF])) = Some (''N1'', 1)" "operator_request (Some (''led N1 2'' @ [LF])) = None"
    using st sc by (simp_all add: operator_request_def)
  then show ?thesis
    using operator_command_spec [OF cm_start_filled, of "\<lambda>i. 99" 7 "Some (''led N1 2'' @ [LF])" 4 "[]"]
      operator_command_spec [OF cm_start_filled, of "\<lambda>i. 99" 7 "Some (''led N1 1'' @ [LF])" 4 "[]"]
    by (simp add: send_logged_def send_call_def)
qed

section \<open>Repeating commands\<close>

definition entry_command :: "command_entry \<Rightarrow> frame_command" where
  "entry_command e = \<lparr>cmd_target_node = ce_target_node e, cmd_sender = CMD_SENDER, cmd_sequence = ce_sequence e,
     cmd_fields = ce_fields e\<rparr>"

definition entry_fits :: "command_entry \<Rightarrow> bool" where
  "entry_fits e = (length (ce_target_node e) < 32 \<and> length (json_command_text (entry_command e)) < 256)"

lemma retry_loop_sends:
  assumes "list_all entry_fits es" "0 \<le> fd"
  shows "map (\<lambda>s. (sent_fd s, sent_data s)) (retry_loop os fd (map (\<lambda>e. (ce_sequence e, ce_target_node e, ce_fields e, length (ce_fields e))) es) log)
     = map (\<lambda>s. (sent_fd s, sent_data s)) log @ map (\<lambda>e. (fd, json_command_text (entry_command e))) es"
  using assms
proof (induction es arbitrary: log)
  case Nil
  then show ?case by simp
next
  case (Cons e es)
  have e: "length (ce_target_node e) < 32" "length (json_command_text (entry_command e)) < 256"
    using Cons.prems(1) by (simp_all add: entry_fits_def)
  then have "message_json_build_command (Some []) 256 (Some (entry_command e)) =
      (Some (length (json_command_text (entry_command e))), Some (json_command_text (entry_command e)))"
    by (simp add: csimps json_written_def)
  moreover have "fst (snprintf 32 (ce_target_node e)) = ce_target_node e" using e(1) by (simp add: snprintf_def)
  ultimately show ?case
    using Cons.prems Cons.IH by (simp add: entry_command_def send_logged_def Let_def)
qed

lemma retry_loop_no_client: "fd < 0 \<Longrightarrow> retry_loop os fd rs log = log"
  by (induction rs) auto

lemma zip_maps: "zip (map f xs) (zip (map g xs) (zip (map h xs) (map i xs))) = map (\<lambda>x. (f x, g x, h x, i x)) xs"
  by (induction xs) simp_all

lemma retry_commands_eq:
  assumes "list_all entry_fits (entries m)"
  shows "case retry_commands os now fd (m, log) of (m', log') \<Rightarrow>
     m' = m\<lparr>entries := map (after_check now 3 2) (entries m)\<rparr>
     \<and> map (\<lambda>s. (sent_fd s, sent_data s)) log' = map (\<lambda>s. (sent_fd s, sent_data s)) log @
         (if fd < 0 then []
          else map (\<lambda>e. (fd, json_command_text (entry_command e))) (take 16 (filter (to_retry now 3 2) (entries m))))"
proof -
  let ?es = "take 16 (filter (to_retry now 3 2) (entries m))"
  have fits: "list_all entry_fits ?es" using assms by (auto simp: list_all_iff dest!: in_set_takeD)
  then have t: "map (\<lambda>e. (ce_sequence e, take 31 (ce_target_node e), ce_fields e, length (ce_fields e))) ?es
      = map (\<lambda>e. (ce_sequence e, ce_target_node e, ce_fields e, length (ce_fields e))) ?es"
    by (auto simp: list_all_iff entry_fits_def)
  show ?thesis
    using retry_loop_sends [OF fits, of fd os log] retry_loop_no_client [of fd os]
    by (simp add: retry_commands_def check_timeouts_eq cmd_consts zip_maps t Let_def)
qed

text \<open>Repeating commands: a pass over the table repeats exactly the first 16 commands that have
  waited 3 seconds and were repeated less than twice, in the order of the table. With a gateway
  connected each one is sent once, with its own target, number and fields, and nothing else is sent;
  without one nothing is sent. Every command that is due is counted as repeated or given up.\<close>
theorem retry_commands_spec:
  assumes "list_all entry_fits (entries m)"
  shows "case retry_commands os now fd (m, log) of (m', log') \<Rightarrow>
     m' = m\<lparr>entries := map (after_check now 3 2) (entries m)\<rparr>
     \<and> map (\<lambda>s. (sent_fd s, sent_data s)) log' = map (\<lambda>s. (sent_fd s, sent_data s)) log @
         (if fd < 0 then []
          else map (\<lambda>e. (fd, json_command_text (entry_command e))) (take 16 (filter (to_retry now 3 2) (entries m))))"
  by (rule retry_commands_eq [OF assms])

lemma led_entry_command: "entry_command (led_entry k target v now) = led_command target v (of_nat (k + 1))"
  by (simp add: entry_command_def led_entry_def sent_entry_def led_command_def CMD_SENDER_def)

lemma led_entry_fits: "length target < 32 \<Longrightarrow> 0 \<le> v \<Longrightarrow> v \<le> 1 \<Longrightarrow> entry_fits (led_entry k target v now)"
  using led_json_fits by (simp add: entry_fits_def led_entry_command) (simp add: led_entry_def sent_entry_def)

theorem retry_commands_spec_witness:
  "map (\<lambda>s. (sent_fd s, sent_data s)) (snd (retry_commands (\<lambda>i. 0) 10 4
      (\<lparr>entries = [led_entry 0 ''N1'' 1 7, led_entry 1 ''N2'' 0 8], next_sequence = 3\<rparr>, [])))
    = [(4, json_command_text (led_command ''N1'' 1 1))]"
proof -
  let ?m = "\<lparr>entries = [led_entry 0 ''N1'' 1 7, led_entry 1 ''N2'' 0 8], next_sequence = 3\<rparr>"
  have "list_all entry_fits (entries ?m)" using led_entry_fits by simp
  moreover have "filter (to_retry 10 3 2) (entries ?m) = [led_entry 0 ''N1'' 1 7]"
    by (simp add: to_retry_def expired_def led_entry_def sent_entry_def)
  ultimately show ?thesis
    using retry_commands_spec [of ?m, where os = "\<lambda>i. 0" and now = 10 and fd = 4 and log = "[]"] led_entry_command [of 0 "''N1''" 1 7]
    by (simp split: prod.splits)
qed

section \<open>The invariant of the server\<close>

text \<open>
  The table of commands and what was sent. Every message is the text of a command of the table, and a
  command is sent at most once more than it was repeated: with 64 entries that are never freed and two
  repetitions, the server sends at most 192 messages.
\<close>

definition issued :: "command_manager \<Rightarrow> frame_command set" where
  "issued m = entry_command ` {e \<in> set (entries m). ce_state e \<noteq> COMMAND_STATE_FREE}"

definition sends_of :: "command_entry \<Rightarrow> nat" where
  "sends_of e = (if ce_state e = COMMAND_STATE_FREE then 0 else 1 + nat (ce_retries e))"

definition manager_inv :: "command_manager \<Rightarrow> sent list \<Rightarrow> bool" where
  "manager_inv m log =
     ((\<exists>k. cm_filled k m) \<and> list_all (\<lambda>e. entry_fits e \<and> 0 \<le> ce_retries e \<and> ce_retries e \<le> 2) (entries m)
      \<and> (\<forall>x \<in> set log. 0 \<le> sent_fd x \<and> sent_data x \<in> json_command_text ` issued m)
      \<and> length log \<le> sum_list (map sends_of (entries m)))"

definition server_inv :: "server \<Rightarrow> bool" where
  "server_inv s =
     (ns_inv (sv_store s) \<and> ns_capacity (sv_store s) = 64 \<and> manager_inv (sv_manager s) (sv_sent s)
      \<and> length (sv_buffer s) \<le> RECEIVE_BUFFER_SIZE)"

lemma zero_entry_fits: "entry_fits zero_command_entry"
  by (simp add: entry_fits_def entry_command_def zero_command_entry_def CMD_SENDER_def json_command_text_def
      json_string_text_def json_seq_text_def json_quoted_def json_fields_member_def print_compute)

lemma manager_inv_start: "manager_inv cm_start []"
  using cm_start_filled zero_entry_fits
  by (auto simp: manager_inv_def cm_start_def command_manager_create_def list_all_iff zero_command_entry_def)

text \<open>What an answer leaves as it is.\<close>

definition book :: "command_entry \<Rightarrow> frame_command \<times> int \<times> bool" where
  "book e = (entry_command e, ce_retries e, ce_state e = COMMAND_STATE_FREE)"

lemma book_fits: "entry_fits e \<and> 0 \<le> ce_retries e \<and> ce_retries e \<le> 2 \<longleftrightarrow>
    (case book e of (c, n, free) \<Rightarrow> length (cmd_target_node c) < 32 \<and> length (json_command_text c) < 256 \<and> 0 \<le> n \<and> n \<le> 2)"
  by (simp add: book_def entry_fits_def) (simp add: entry_command_def)

lemma book_sends: "sends_of = (\<lambda>(c, n, free). if free then 0 else 1 + nat n) \<circ> book"
  by (auto simp: book_def sends_of_def)

lemma book_issued: "issued m = fst ` {b \<in> set (map book (entries m)). \<not> snd (snd b)}"
proof -
  have "{b \<in> book ` set (entries m). \<not> snd (snd b)} = book ` {e \<in> set (entries m). ce_state e \<noteq> COMMAND_STATE_FREE}"
    by (auto simp: book_def)
  then show ?thesis by (simp add: issued_def image_image) (simp add: book_def)
qed

lemma list_all_map_eq: "list_all (\<lambda>e. P (f e)) es = list_all P (map f es)"
  by (simp add: list.pred_map o_def)

lemma manager_inv_book:
  assumes "manager_inv m log" "map book (entries m') = map book (entries m)" "cm_filled k m'"
  shows "manager_inv m' log"
proof -
  have "map sends_of (entries m') = map sends_of (entries m)"
    unfolding book_sends map_map [symmetric] by (simp only: assms(2))
  moreover have "issued m' = issued m" by (simp only: book_issued assms(2))
  moreover have "list_all (\<lambda>e. entry_fits e \<and> 0 \<le> ce_retries e \<and> ce_retries e \<le> 2) (entries m')
      = list_all (\<lambda>e. entry_fits e \<and> 0 \<le> ce_retries e \<and> ce_retries e \<le> 2) (entries m)"
    by (simp only: book_fits list_all_map_eq [where f = book] assms(2))
  ultimately show ?thesis using assms(1,3) by (auto simp: manager_inv_def)
qed

lemma map_book_update: "i < length es \<Longrightarrow> book e = book (es ! i) \<Longrightarrow> map book (es[i := e]) = map book es"
  by (metis list_update_id map_update)

lemma answer_book:
  assumes "cm_filled k m" "state \<noteq> COMMAND_STATE_FREE"
  shows "map book (entries (snd (answer_command m sequence node_id state))) = map book (entries m)"
proof -
  have "i < length (entries m)" if "i < k" for i using assms(1) that by (simp add: cm_filled_def)
  moreover have "book (e\<lparr>ce_state := state\<rparr>) = book e" if "ce_state e = COMMAND_STATE_WAITING" for e
    using assms(2) that by (simp add: book_def entry_command_def)
  ultimately show ?thesis by (auto simp: answer_eq [OF assms(1)] Let_def intro!: map_book_update)
qed

lemma manager_inv_answer:
  assumes "manager_inv m log" "state \<noteq> COMMAND_STATE_FREE"
  shows "manager_inv (snd (answer_command m sequence node_id state)) log"
proof -
  obtain k where "cm_filled k m" using assms(1) by (auto simp: manager_inv_def)
  then show ?thesis using manager_inv_book [OF assms(1) answer_book answer_filled] assms(2) by blast
qed

lemma after_check_book:
  "ce_state (after_check now ts mr e) = COMMAND_STATE_FREE \<longleftrightarrow> ce_state e = COMMAND_STATE_FREE"
  "entry_command (after_check now ts mr e) = entry_command e"
  "entry_fits (after_check now ts mr e) = entry_fits e"
  by (auto simp: after_check_def expired_def entry_command_def entry_fits_def)

lemma after_check_sends:
  "list_all (\<lambda>e. 0 \<le> ce_retries e) es \<Longrightarrow>
     sum_list (map sends_of (map (after_check now ts mr) es)) = sum_list (map sends_of es) + length (filter (to_retry now ts mr) es)"
  by (induction es) (auto simp: sends_of_def after_check_def to_retry_def expired_def nat_add_distrib)

lemma after_check_issued: "issued (m\<lparr>entries := map (after_check now ts mr) (entries m)\<rparr>) = issued m"
proof -
  have "{e \<in> after_check now ts mr ` set (entries m). ce_state e \<noteq> COMMAND_STATE_FREE}
      = after_check now ts mr ` {e \<in> set (entries m). ce_state e \<noteq> COMMAND_STATE_FREE}"
    by (auto simp: after_check_book)
  then show ?thesis by (simp add: issued_def image_image after_check_book)
qed

lemma manager_inv_retry:
  assumes "manager_inv m log"
  shows "case retry_commands os now fd (m, log) of (m', log') \<Rightarrow> manager_inv m' log'"
proof -
  let ?due = "take 16 (filter (to_retry now 3 2) (entries m))"
  let ?kinds = "map (\<lambda>s. (sent_fd s, sent_data s))"
  obtain m' log' where r: "retry_commands os now fd (m, log) = (m', log')" by fastforce
  have fits: "list_all entry_fits (entries m)" using assms by (simp add: manager_inv_def list_all_iff)
  have m': "m' = m\<lparr>entries := map (after_check now 3 2) (entries m)\<rparr>"
    and log': "?kinds log' = ?kinds log @ (if fd < 0 then [] else map (\<lambda>e. (fd, json_command_text (entry_command e))) ?due)"
    using retry_commands_eq [OF fits, where os = os and now = now and fd = fd and log = log] by (simp_all add: r)
  have l: "length log' = length log + (if fd < 0 then 0 else length ?due)"
    using arg_cong [OF log', of length] by simp
  have "sum_list (map sends_of (entries m')) = sum_list (map sends_of (entries m)) + length (filter (to_retry now 3 2) (entries m))"
    using assms after_check_sends [of "entries m" now 3 2] by (simp add: m' manager_inv_def list_all_iff)
  moreover have "length log \<le> sum_list (map sends_of (entries m))" using assms by (simp add: manager_inv_def)
  ultimately have "length log' \<le> sum_list (map sends_of (entries m'))" using l by (cases "fd < 0") (simp_all only: if_True if_False length_take)
  moreover have "0 \<le> sent_fd x \<and> sent_data x \<in> json_command_text ` issued m" if "x \<in> set log'" for x
  proof -
    have "(sent_fd x, sent_data x) \<in> set (?kinds log')" using that by auto
    then show ?thesis using assms
      by (auto simp: log' manager_inv_def issued_def to_retry_def expired_def split: if_splits dest!: in_set_takeD)
  qed
  moreover have "list_all (\<lambda>e. entry_fits e \<and> 0 \<le> ce_retries e \<and> ce_retries e \<le> 2) (entries m')"
    using assms by (auto simp: m' manager_inv_def list_all_iff after_check_book) (auto simp: after_check_def)
  moreover have "\<exists>k. cm_filled k m'" using assms unfolding m' manager_inv_def by (blast intro: after_check_filled)
  ultimately show ?thesis
    using assms by (simp add: r manager_inv_def) (simp add: m' after_check_issued)
qed

lemma manager_inv_operator:
  assumes "manager_inv m log"
  shows "case handle_stdin_command os now line fd (m, log) of (m', log') \<Rightarrow> manager_inv m' log'"
proof -
  obtain k where k: "cm_filled k m" using assms by (auto simp: manager_inv_def)
  have eq: "handle_stdin_command os now line fd (m, log) = (m, log)"
    if "operator_request line = None \<or> fd < 0 \<or> k = 64" using that by (auto simp: handle_stdin_eq [OF k] split: option.split)
  show ?thesis
  proof (cases "operator_request line = None \<or> fd < 0 \<or> k = 64")
    case True
    then show ?thesis using assms by (simp add: eq)
  next
    case False
    then obtain target v where r: "operator_request line = Some (target, v)" by auto
    let ?e = "led_entry k target v now"
    let ?m = "\<lparr>entries = (entries m)[k := ?e], next_sequence = of_nat (k + 2)\<rparr>"
    have t: "target \<noteq> []" "length target < 32" "0 \<le> v" "v \<le> 1"
      using r scan_led_target by (auto simp: operator_request_def split: option.splits prod.splits if_splits)
    have lk: "k < 64" "length (entries m) = 64" using k False by (auto simp: cm_filled_def)
    have free: "ce_state (entries m ! k) = COMMAND_STATE_FREE" using k lk by (simp add: cm_filled_def slot_ok_def)
    have es: "entries m = take k (entries m) @ entries m ! k # drop (Suc k) (entries m)"
      using lk by (simp add: id_take_nth_drop)
    have es': "entries ?m = take k (entries m) @ ?e # drop (Suc k) (entries m)"
      using lk by (simp add: upd_conv_take_nth_drop)
    have e: "entry_fits ?e" "ce_state ?e = COMMAND_STATE_WAITING" "ce_retries ?e = 0"
      using led_entry_fits [OF t(2-4)] by (simp_all add: led_entry_def sent_entry_def)
    have "send_args_ok (Some target) (Some ''GATEWAY'') (Some [\<lparr>kv_key = ''LED'', kv_value = print_d v\<rparr>]) 1"
      using t by (simp add: send_args_ok_def)
    from send_filled [OF k this lk(1), of now] have filled: "cm_filled (k + 1) ?m" by (simp add: led_entry_def)
    have grow: "issued ?m = insert (entry_command ?e) (issued m)"
    proof -
      have "set (entries ?m) = set (take k (entries m)) \<union> {?e} \<union> set (drop (Suc k) (entries m))" by (subst es') auto
      moreover have "set (entries m) = set (take k (entries m)) \<union> {entries m ! k} \<union> set (drop (Suc k) (entries m))"
        by (subst es) auto
      ultimately show ?thesis using free e(2) by (auto simp: issued_def)
    qed
    have sum: "sum_list (map sends_of (entries ?m)) = sum_list (map sends_of (entries m)) + 1"
      by (subst es', subst (2) es) (simp add: sends_of_def free e del: append_take_drop_id)
    have all: "list_all (\<lambda>e. entry_fits e \<and> 0 \<le> ce_retries e \<and> ce_retries e \<le> 2) (entries ?m)"
      using assms e set_update_subset_insert [of "entries m" k ?e] by (auto simp: manager_inv_def list_all_iff)
    have log: "\<exists>n. snd (send_logged os fd d log) = log @ [\<lparr>sent_fd = fd, sent_data = d, sent_count = n\<rparr>]" for d
      using False by (simp add: send_logged_def Let_def)
    obtain n where sent: "snd (send_logged os fd (json_command_text (entry_command ?e)) log)
        = log @ [\<lparr>sent_fd = fd, sent_data = json_command_text (entry_command ?e), sent_count = n\<rparr>]"
      using log by blast
    have "handle_stdin_command os now line fd (m, log)
        = (?m, log @ [\<lparr>sent_fd = fd, sent_data = json_command_text (entry_command ?e), sent_count = n\<rparr>])"
      using False sent by (simp only: handle_stdin_eq [OF k] r led_entry_command) simp
    moreover have "manager_inv ?m (log @ [\<lparr>sent_fd = fd, sent_data = json_command_text (entry_command ?e), sent_count = n\<rparr>])"
      unfolding manager_inv_def sum grow using assms False all filled by (auto simp: manager_inv_def)
    ultimately show ?thesis by simp
  qed
qed

lemma on_line_keeps:
  assumes "ns_inv (fst ctx) \<and> ns_capacity (fst ctx) = 64 \<and> manager_inv (snd ctx) log"
  shows "case on_line now line ctx of (store, m) \<Rightarrow> ns_inv store \<and> ns_capacity store = 64 \<and> manager_inv m log"
proof -
  obtain store m where ctx: "ctx = (store, m)" by fastforce
  have update: "ns_inv (snd (node_store_update store data now)) \<and> ns_capacity (snd (node_store_update store data now)) = 64" for data
  proof (cases "\<exists>d. data = Some d \<and> data_node_id d \<noteq> []")
    case True
    then obtain d where "data = Some d" "data_node_id d \<noteq> []" by auto
    then show ?thesis using assms ctx by (auto intro: ns_update_cases [of store d now])
  next
    case False
    then show ?thesis using assms ctx by (auto simp: node_store_update_def split: option.split)
  qed
  have ack: "manager_inv (snd (command_manager_on_ack m ack)) log" for ack
    using assms ctx manager_inv_answer by (auto simp: command_manager_on_ack_def split: option.split)
  have nack: "manager_inv (snd (command_manager_on_nack m nack)) log" for nack
    using assms ctx manager_inv_answer by (auto simp: command_manager_on_nack_def split: option.split)
  show ?thesis
    using assms update ack nack by (auto simp: on_line_def ctx split: prod.splits option.splits)
qed

lemma drop_client_inv: "server_inv s \<Longrightarrow> server_inv (drop_client s)"
  by (simp add: server_inv_def)

lemma server_receive_inv:
  assumes "server_inv s"
  shows "server_inv (server_receive t ev s)"
proof (cases "st_recv t")
  case (Bytes bytes)
  define r where "r = line_parser_feed (Some (sv_buffer s @ bytes)) RECEIVE_BUFFER_SIZE (Some (on_line (st_now t))) (sv_store s, sv_manager s)"
  obtain rest store m n where eq: "r = (rest, (store, m), n)" by (metis surj_pair)
  have "ns_inv (fst u) \<and> ns_capacity (fst u) = 64 \<and> manager_inv (snd u) (sv_sent s)" if "u = fst (snd r)" for u
    unfolding that r_def
    by (rule line_parser_feed_keeps [where P = "\<lambda>u. ns_inv (fst u) \<and> ns_capacity (fst u) = 64 \<and> manager_inv (snd u) (sv_sent s)"])
      (use on_line_keeps assms in \<open>auto simp: server_inv_def case_prod_beta\<close>)
  then have u: "ns_inv store" "ns_capacity store = 64" "manager_inv m (sv_sent s)" by (auto simp: eq)
  have l: "length (the rest) \<le> length (sv_buffer s) + length bytes"
    using line_parser_rest_length [of "sv_buffer s @ bytes" RECEIVE_BUFFER_SIZE "Some (on_line (st_now t))" "(sv_store s, sv_manager s)"]
    by (simp add: r_def [symmetric] eq)
  show ?thesis
    using assms u l by (simp add: server_receive_def Bytes Let_def r_def [symmetric] eq server_inv_def)
qed (use assms in \<open>simp_all add: server_receive_def Let_def server_inv_def\<close>)

lemma server_iteration_inv:
  assumes "server_inv s"
  shows "server_inv (snd (server_iteration os t s))"
proof -
  define s1 where "s1 = (if sv_next_registry_print s \<le> st_now t
                then s\<lparr>sv_next_registry_print := st_now t + REGISTRY_PRINT_INTERVAL\<rparr> else s)"
  have s1: "server_inv s1" using assms by (simp add: s1_def server_inv_def)
  obtain m log where r: "retry_commands os (st_now t) (sv_client_fd s1) (sv_manager s1, sv_sent s1) = (m, log)" by fastforce
  define s2 where "s2 = s1\<lparr>sv_manager := m, sv_sent := log\<rparr>"
  have s2: "server_inv s2"
    using s1 manager_inv_retry [of "sv_manager s1" "sv_sent s1" os "st_now t" "sv_client_fd s1"] by (simp add: s2_def server_inv_def r)
  obtain m' log' where h: "handle_stdin_command os (st_now t) (st_stdin t) (sv_client_fd s2) (sv_manager s2, sv_sent s2) = (m', log')"
    by fastforce
  have s3: "server_inv (s2\<lparr>sv_manager := m', sv_sent := log'\<rparr>)"
    using s2 manager_inv_operator [of "sv_manager s2" "sv_sent s2" os "st_now t" "st_stdin t" "sv_client_fd s2"]
    by (simp add: server_inv_def h)
  have accept: "server_inv (x\<lparr>sv_client_fd := c, sv_buffer := [], sv_actions := a\<rparr>)" if "server_inv x" for x c a
    using that by (simp add: server_inv_def)
  show ?thesis
    by (cases "st_poll t")
      (simp_all add: server_iteration_def server_events_def Let_def s1_def [symmetric] r s2_def [symmetric] h s2 s3 accept server_receive_inv)
qed

lemma server_loop_inv: "server_inv s \<Longrightarrow> server_inv (server_loop os ts s)"
proof (induction ts arbitrary: s)
  case (Cons t ts)
  then show ?case using server_iteration_inv [of s os t] by (cases "server_iteration os t s") auto
qed simp

lemma sends_bounded:
  assumes "manager_inv m log"
  shows "length log \<le> 192"
proof -
  have "list_all (\<lambda>e. ce_retries e \<le> 2) es \<Longrightarrow> sum_list (map sends_of es) \<le> 3 * length es" for es
    by (induction es) (auto simp: sends_of_def)
  from this [of "entries m"] assms show ?thesis by (auto simp: manager_inv_def cm_filled_def list_all_iff)
qed

text \<open>
  The account of memory and descriptors: something can only be released while it is held, and a
  descriptor that was released may be got again.
\<close>

fun audit :: "server_action list \<Rightarrow> server_resource multiset \<Rightarrow> server_resource multiset option" where
  "audit [] held = Some held"
| "audit (Acquired r # as) held = audit as (add_mset r held)"
| "audit (Released r # as) held = (if r \<in># held then audit as (held - {#r#}) else None)"

lemma audit_append: "audit (as @ bs) held = Option.bind (audit as held) (audit bs)"
  by (induction as held rule: audit.induct) auto

definition client_socket :: "server \<Rightarrow> server_resource multiset" where
  "client_socket s = (if sv_client_fd s < 0 then {#} else {#Socket (sv_client_fd s)#})"

text \<open>In the loop the process holds its memory, the listening socket and at most one client.\<close>

definition server_holds :: "int \<Rightarrow> server \<Rightarrow> bool" where
  "server_holds server_fd s =
     (audit (sv_actions s) {#} = Some ({#Store_Block, Entries_Block, Manager_Block, Socket server_fd#} + client_socket s))"

lemma drop_client_holds: "server_holds fd s \<Longrightarrow> 0 \<le> sv_client_fd s \<Longrightarrow> server_holds fd (drop_client s)"
  by (simp add: server_holds_def client_socket_def audit_append)

lemma server_holds_same:
  "sv_actions s' = sv_actions s \<Longrightarrow> sv_client_fd s' = sv_client_fd s \<Longrightarrow> server_holds fd s' = server_holds fd s"
  by (simp add: server_holds_def client_socket_def)

lemma server_receive_holds:
  assumes "server_holds fd s" shows "server_holds fd (server_receive t ev s)"
proof (cases "sv_client_fd s < 0")
  case False
  have drop: "server_holds fd (drop_client s)" using drop_client_holds [OF assms] False by simp
  have fed: "server_holds fd (s\<lparr>sv_store := st, sv_manager := m, sv_buffer := b\<rparr>)" for st m b
    using assms server_holds_same [of "s\<lparr>sv_store := st, sv_manager := m, sv_buffer := b\<rparr>" s] by simp
  have fed_drop: "server_holds fd (drop_client (s\<lparr>sv_store := st, sv_manager := m, sv_buffer := b\<rparr>))" for st m b
    using drop_client_holds [OF fed] False by simp
  show ?thesis
    using False assms drop fed fed_drop
    by (auto simp: server_receive_def Let_def split: read_answer.split prod.split)
qed (use assms in \<open>simp add: server_receive_def\<close>)

lemma server_iteration_holds:
  assumes "server_holds fd s" shows "server_holds fd (snd (server_iteration os t s))"
proof -
  define s1 where "s1 = (if sv_next_registry_print s \<le> st_now t
                then s\<lparr>sv_next_registry_print := st_now t + REGISTRY_PRINT_INTERVAL\<rparr> else s)"
  obtain m log where r: "retry_commands os (st_now t) (sv_client_fd s1) (sv_manager s1, sv_sent s1) = (m, log)" by fastforce
  define s2 where "s2 = s1\<lparr>sv_manager := m, sv_sent := log\<rparr>"
  have s2: "server_holds fd s2" using assms server_holds_same [of s2 s] by (simp add: s2_def s1_def)
  obtain m' log' where h: "handle_stdin_command os (st_now t) (st_stdin t) (sv_client_fd s2) (sv_manager s2, sv_sent s2) = (m', log')"
    by fastforce
  have s3: "server_holds fd (s2\<lparr>sv_manager := m', sv_sent := log'\<rparr>)"
    using s2 server_holds_same [of "s2\<lparr>sv_manager := m', sv_sent := log'\<rparr>" s2] by simp
  have accept: "server_holds fd (x\<lparr>sv_client_fd := c, sv_buffer := [], sv_actions := sv_actions x @ Acquired (Socket c)
      # (if 0 \<le> sv_client_fd x then [Released (Socket (sv_client_fd x))] else [])\<rparr>)" if "server_holds fd x" "0 \<le> c" for x c
    using that by (auto simp: server_holds_def client_socket_def audit_append add_mset_commute)
  show ?thesis
    using s2 server_receive_holds [OF s2] server_receive_holds [OF s3] accept [OF s2] accept [OF s3]
    by (cases "st_poll t"; cases "0 \<le> sv_client_fd s2")
      (simp_all add: server_iteration_def server_events_def Let_def s1_def [symmetric] r s2_def [symmetric] h)
qed

lemma server_loop_holds: "server_holds fd s \<Longrightarrow> server_holds fd (server_loop os ts s)"
proof (induction ts arbitrary: s)
  case (Cons t ts)
  then show ?case using server_iteration_holds [of fd s os t] by (cases "server_iteration os t s") auto
qed simp

lemma server_stop_releases: "server_holds fd s \<Longrightarrow> audit (sv_actions (server_stop fd s)) {#} = Some {#}"
  by (auto simp: server_holds_def client_socket_def server_stop_def audit_append command_manager_destroy_def node_store_destroy_def)

text \<open>C34: The server starts only with a valid port, enough memory, its signal handlers and its socket, and
  exits with 1 otherwise. When it is stopped after any run (any events, messages and operator input),
  its store and table of commands are well formed, the receive buffer never held more than its 4096
  bytes, every message it sent was the complete text of a command of its table, addressed to a
  connected gateway, and there were at most three for each command: at most 192 in its life. On every
  path, all failures of the start, lost and replaced clients included, it has given back every block of
  memory and every descriptor it got, each exactly once and only while it held it.\<close>
theorem server_main_invariant:
  "case server_main os args store_allocated entries_allocated manager_allocated sigint sigterm
          (fd, setsockopt_ok, bind_ok, listen_ok) ts of
     (code, final, actions) \<Rightarrow>
       audit actions {#} = Some {#} \<and>
       (if \<not> (args \<noteq> [] \<and> server_parse_port (Some (hd args)) = None) \<and> store_allocated \<and> entries_allocated \<and> manager_allocated
           \<and> sigint = 0 \<and> sigterm = 0 \<and> 0 \<le> fd \<and> setsockopt_ok \<and> bind_ok \<and> listen_ok
        then code = 0 \<and> final \<noteq> None \<and> server_inv (the final) \<and> length (sv_sent (the final)) \<le> 192
        else code = 1 \<and> final = None)"
proof -
  let ?as = "[Acquired Store_Block, Acquired Entries_Block, Acquired Manager_Block, Acquired (Socket fd)]"
  let ?s = "\<lparr>sv_store = \<lparr>ns_entries = [], ns_capacity = 64\<rparr>, sv_manager = cm_start, sv_client_fd = -1, sv_buffer = [],
             sv_next_registry_print = 0, sv_sent = [], sv_actions = ?as\<rparr>"
  have "server_inv ?s" using manager_inv_start by (simp add: server_inv_def ns_inv_def)
  from server_loop_inv [OF this, of os ts]
  have final: "server_inv (server_stop fd (server_loop os ts ?s))" "length (sv_sent (server_stop fd (server_loop os ts ?s))) \<le> 192"
    using sends_bounded by (auto simp: server_inv_def server_stop_def)
  have "server_holds fd ?s" by (simp add: server_holds_def client_socket_def add_mset_commute)
  from server_stop_releases [OF server_loop_holds [OF this]]
  have released: "audit (sv_actions (server_stop fd (server_loop os ts ?s))) {#} = Some {#}" .
  have start: "command_manager_create True = Some cm_start" by (simp add: cm_start_def command_manager_create_def)
  have no_manager: "command_manager_create False = None" by (simp add: command_manager_create_def)
  note defs = server_main_def server_install_signal_handlers_def node_store_create_def NODE_STORE_MAX_NODES_def store_actions_def
    manager_actions_def socket_actions_def node_store_destroy_def command_manager_destroy_def tcp_server_create_def not_opened_def
    given_up_def opened_def Let_def
  show ?thesis
  proof (cases "\<not> (args \<noteq> [] \<and> server_parse_port (Some (hd args)) = None) \<and> store_allocated \<and> entries_allocated \<and> manager_allocated
       \<and> sigint = 0 \<and> sigterm = 0 \<and> 0 \<le> fd \<and> setsockopt_ok \<and> bind_ok \<and> listen_ok")
    case True
    then show ?thesis using final released start by (auto simp: defs)
  next
    case False
    then show ?thesis using start no_manager by (cases manager_allocated) (auto simp: defs)
  qed
qed

end
