(* ===== verification/Report_Path.thy ===== *)
theory Report_Path
  imports Server_Main Server_Link
begin

text \<open>
  The way of a report, from the frame handler of the gateway (\<^verbatim>\<open>gateway/gateway_app.c\<close>) over the JSON
  texts (\<^verbatim>\<open>common/message_json.c\<close>) to the line handler of the server (\<^verbatim>\<open>server/main.c\<close>). \<open>on_line\<close>
  tells ACK and NACK messages from the others by looking for a piece of text anywhere in the line; the
  lemmas show in which lines that piece can occur. The properties: the server applies every report that
  the gateway writes, in order, however the stream is cut.
\<close>

section \<open>What a line contains\<close>

lemma line_has_iff: "line_has line pattern \<longleftrightarrow> (\<exists>a b. line = a @ pattern @ b)"
proof
  assume h: "line_has line pattern"
  then have "\<not> length line < length pattern" by (auto simp: line_has_def)
  with h obtain i where i: "take (length pattern) (drop i line) = pattern"
    by (auto simp: line_has_def list_ex_iff simp del: upt_Suc)
  have "line = take i line @ take (length pattern) (drop i line) @ drop (length pattern) (drop i line)"
    by (simp only: append_take_drop_id)
  then show "\<exists>a b. line = a @ pattern @ b" using i by metis
next
  assume "\<exists>a b. line = a @ pattern @ b"
  then obtain a b where l: "line = a @ pattern @ b" by blast
  have "length a \<in> set [0..<length line - length pattern + 1]" "take (length pattern) (drop (length a) line) = pattern"
    by (simp_all add: l)
  then show "line_has line pattern"
    using l by (auto simp: line_has_def list_ex_iff intro!: bexI [of _ "length a"])
qed

lemma split_on_separated: "split_on d (a @ d # b) = split_on d a @ split_on d b"
proof (induction a)
  case (Cons c a)
  then show ?case by (cases "split_on d a") auto
qed simp

text \<open>A member of that name and value shows in the pieces between the quotes.\<close>

lemma member_pieces:
  assumes "line_has line (''\"type\":\"'' @ v @ ''\"'')" "json_clean v"
  shows "sublist [''type'', '':'', v] (split_on (QUOTE) line)"
proof -
  from assms(1) obtain a b where "line = a @ (''\"type\":\"'' @ v @ ''\"'') @ b" unfolding line_has_iff by blast
  then have "line = a @ QUOTE # ''type'' @ QUOTE # '':'' @ QUOTE # v @ QUOTE # b" by simp
  moreover have "QUOTE \<notin> set v" "QUOTE \<notin> set ''type''" "QUOTE \<notin> set '':''" using assms(2) by (auto simp: json_clean_def list_all_iff)
  ultimately have "split_on (QUOTE) line = split_on (QUOTE) a @ [''type'', '':'', v] @ split_on (QUOTE) b"
    by (simp add: split_on_separated split_on_append split_on_none)
  then show ?thesis by (metis sublist_appendI)
qed

section \<open>Reports\<close>

datatype report = Data_Report frame_data | Ack_Report frame_ack | Nack_Report frame_nack

fun report_text :: "report \<Rightarrow> string" where
  "report_text (Data_Report d) = json_data_text d"
| "report_text (Ack_Report a) = json_ack_text a"
| "report_text (Nack_Report n) = json_nack_text n"

definition line_safe :: "string \<Rightarrow> bool" where
  "line_safe s = (json_clean s \<and> LF \<notin> set s)"

definition fields_safe :: "frame_kv list \<Rightarrow> bool" where
  "fields_safe fs = (length fs \<le> 16 \<and> list_all (\<lambda>f. json_field_ok f \<and> line_safe (kv_key f) \<and> line_safe (kv_value f)
     \<and> (kv_key f = ''type'' \<longrightarrow> kv_value f \<notin> {''ACK'', ''NACK''})) fs)"

fun report_safe :: "report \<Rightarrow> bool" where
  "report_safe (Data_Report d) = (line_safe (data_node_id d) \<and> length (data_node_id d) < 32 \<and> fields_safe (data_fields d))"
| "report_safe (Ack_Report a) = (line_safe (ack_node_id a) \<and> length (ack_node_id a) < 32 \<and> fields_safe (ack_fields a))"
| "report_safe (Nack_Report n) = (line_safe (nack_node_id n) \<and> length (nack_node_id n) < 32
     \<and> line_safe (nack_error n) \<and> length (nack_error n) < 32 \<and> nack_error n \<noteq> [])"

text \<open>What a report does on the server.\<close>

fun apply_report :: "int \<Rightarrow> report \<Rightarrow> node_store \<times> command_manager \<Rightarrow> node_store \<times> command_manager" where
  "apply_report now (Data_Report d) (store, manager) = (snd (node_store_update store (Some d) now), manager)"
| "apply_report now (Ack_Report a) (store, manager) = (store, snd (command_manager_on_ack manager (Some a)))"
| "apply_report now (Nack_Report n) (store, manager) = (store, snd (command_manager_on_nack manager (Some n)))"

lemma line_safeD: "line_safe s \<Longrightarrow> json_clean s" "line_safe s \<Longrightarrow> QUOTE \<notin> set s" "line_safe s \<Longrightarrow> LF \<notin> set s"
  by (auto simp: line_safe_def json_clean_def list_all_iff)

section \<open>Which lines have a marker\<close>

lemma quoted_pieces:
  assumes "QUOTE \<notin> set s" "QUOTE \<notin> set k"
  shows "split_on QUOTE (s @ json_quoted k @ r) = s # k # split_on QUOTE r"
  using assms by (simp add: json_quoted_def split_on_append)

lemma quoted_pieces_0: "QUOTE \<notin> set k \<Longrightarrow> split_on QUOTE (json_quoted k @ r) = [] # k # split_on QUOTE r"
  using quoted_pieces [of "[]" k r] by simp

lemma fields_pieces:
  assumes "fields_safe fs" "v \<in> {''ACK'', ''NACK''}" "QUOTE \<notin> set s" "s \<noteq> ''type''" "QUOTE \<notin> set r"
  shows "\<not> sublist [''type'', '':'', v] (split_on QUOTE (s @ json_fields_text fs @ r))"
  using assms
proof (induction fs arbitrary: s rule: json_fields_text.induct)
  case 1
  then show ?case by (auto simp: split_on_none sublist_Cons_right)
next
  case (2 f)
  then have f: "QUOTE \<notin> set (kv_key f)" "QUOTE \<notin> set (kv_value f)" "kv_key f = ''type'' \<longrightarrow> kv_value f \<noteq> v"
    by (auto simp: fields_safe_def dest: line_safeD)
  have "split_on QUOTE (s @ json_fields_text [f] @ r) = [s, kv_key f, '':'', kv_value f, r]"
    using f 2 by (simp add: json_field_text_def json_string_text_def quoted_pieces quoted_pieces_0 split_on_none)
  then show ?case using f(3) 2(4) by (auto simp: sublist_Cons_right)
next
  case (3 f g fs)
  then have f: "QUOTE \<notin> set (kv_key f)" "QUOTE \<notin> set (kv_value f)" "kv_key f = ''type'' \<longrightarrow> kv_value f \<noteq> v"
    by (auto simp: fields_safe_def dest: line_safeD)
  have p: "split_on QUOTE (s @ json_fields_text (f # g # fs) @ r) =
      s # kv_key f # '':'' # kv_value f # split_on QUOTE ('','' @ json_fields_text (g # fs) @ r)"
    using f 3(4) by (simp add: json_field_text_def json_string_text_def quoted_pieces quoted_pieces_0)
  have n: "\<not> sublist [''type'', '':'', v] (split_on QUOTE ('','' @ json_fields_text (g # fs) @ r))"
    by (rule "3.IH") (use 3 in \<open>auto simp: fields_safe_def\<close>)
  obtain k ks where k: "split_on QUOTE ('','' @ json_fields_text (g # fs) @ r) = '','' # k # ks"
    using quoted_pieces [of "'',''" "kv_key g"] 3(2)
    by (cases fs) (auto simp: fields_safe_def json_field_text_def json_string_text_def dest: line_safeD)
  show ?case using n 3(5) f(3) unfolding p k by (auto simp: sublist_Cons_right)
qed

lemma seq_pieces: "QUOTE \<notin> set (print_u n)"
  by (auto dest!: print_u_digits simp: is_digit_def)

lemma no_marker:
  assumes v: "v \<in> {''ACK'', ''NACK''}"
  shows "report_safe (Data_Report d) \<Longrightarrow> \<not> line_has (butlast (json_data_text d)) (''\"type\":\"'' @ v @ ''\"'')"
    and "report_safe (Nack_Report n) \<Longrightarrow> v = ''ACK'' \<Longrightarrow> \<not> line_has (butlast (json_nack_text n)) (''\"type\":\"'' @ v @ ''\"'')"
proof -
  have clean: "json_clean v" using v by (auto simp: json_clean_def)
  show "\<not> line_has (butlast (json_data_text d)) (''\"type\":\"'' @ v @ ''\"'')" if ok: "report_safe (Data_Report d)"
  proof -
    have id: "QUOTE \<notin> set (data_node_id d)" "fields_safe (data_fields d)" using ok by (auto dest: line_safeD)
    have p: "split_on QUOTE (butlast (json_data_text d)) =
        [''{'', ''node'', '':'', data_node_id d, '','', ''seq'', '':'' @ print_u (unat (data_sequence d)) @ '','',
         ''type'', '':'', ''DATA'', '','', ''fields''] @ split_on QUOTE ('':{'' @ json_fields_text (data_fields d) @ ''}}'')"
      using id(1) seq_pieces [of "unat (data_sequence d)"]
      by (simp add: json_data_text_def json_device_text_def json_string_text_def json_seq_text_def json_fields_member_def
          butlast_append quoted_pieces quoted_pieces_0 split_on_append split_on_none
          quoted_pieces [of "'':'' @ print_u (unat (data_sequence d)) @ '',''", simplified])
    have n: "\<not> sublist [''type'', '':'', v] (split_on QUOTE ('':{'' @ json_fields_text (data_fields d) @ ''}}''))"
      by (rule fields_pieces [OF id(2) v]) simp_all
    have "\<not> sublist [''type'', '':'', v] (split_on QUOTE (butlast (json_data_text d)))"
      unfolding p using n v by (auto simp: sublist_Cons_right)
    then show ?thesis using member_pieces [OF _ clean] by blast
  qed
  show "\<not> line_has (butlast (json_nack_text n)) (''\"type\":\"'' @ v @ ''\"'')"
    if ok: "report_safe (Nack_Report n)" and ack: "v = ''ACK''"
  proof -
    have id: "QUOTE \<notin> set (nack_node_id n)" "QUOTE \<notin> set (nack_error n)" using ok by (auto dest: line_safeD)
    have p: "split_on QUOTE (butlast (json_nack_text n)) =
        [''{'', ''node'', '':'', nack_node_id n, '','', ''seq'', '':'' @ print_u (unat (nack_sequence n)) @ '','',
         ''type'', '':'', ''NACK'', '','', ''error'', '':'', nack_error n, ''}'']"
      using id seq_pieces [of "unat (nack_sequence n)"]
      by (simp add: json_nack_text_def json_string_text_def json_seq_text_def
          butlast_append quoted_pieces quoted_pieces_0 split_on_append split_on_none
          quoted_pieces [of "'':'' @ print_u (unat (nack_sequence n)) @ '',''", simplified])
    have "\<not> sublist [''type'', '':'', v] (split_on QUOTE (butlast (json_nack_text n)))"
      unfolding p ack by (auto simp: sublist_Cons_right)
    then show ?thesis using member_pieces [OF _ clean] by blast
  qed
qed

lemma marker:
  "line_has (butlast (json_ack_text a)) ''\"type\":\"ACK\"''"
  "line_has (butlast (json_nack_text n)) ''\"type\":\"NACK\"''"
proof -
  have "butlast (json_ack_text a) = (''{'' @ json_string_text ''node'' (ack_node_id a) @ '','' @ json_seq_text (ack_sequence a) @ '','')
      @ ''\"type\":\"ACK\"'' @ ('','' @ json_fields_member (ack_fields a) @ ''}'')"
    by (simp add: json_ack_text_def json_device_text_def json_string_text_def json_quoted_def butlast_append)
  then show "line_has (butlast (json_ack_text a)) ''\"type\":\"ACK\"''" unfolding line_has_iff by blast
  have "butlast (json_nack_text n) = (''{'' @ json_string_text ''node'' (nack_node_id n) @ '','' @ json_seq_text (nack_sequence n) @ '','')
      @ ''\"type\":\"NACK\"'' @ ('','' @ json_string_text ''error'' (nack_error n) @ ''}'')"
    by (simp add: json_nack_text_def json_string_text_def json_quoted_def butlast_append)
  then show "line_has (butlast (json_nack_text n)) ''\"type\":\"NACK\"''" unfolding line_has_iff by blast
qed

lemma on_line_report:
  assumes "report_safe r"
  shows "on_line now (butlast (report_text r)) ctx = apply_report now r ctx"
proof -
  obtain store manager where ctx: "ctx = (store, manager)" by fastforce
  have id_ok: "line_safe s \<Longrightarrow> length s < 32 \<Longrightarrow> json_id_ok s" for s by (simp add: json_id_ok_def line_safe_def)
  have fields: "fields_safe fs \<Longrightarrow> list_all json_field_ok fs \<and> length fs \<le> 16" for fs
    by (auto simp: fields_safe_def list_all_iff)
  show ?thesis
  proof (cases r)
    case (Data_Report d)
    have "message_json_decode_data (Some (butlast (json_data_text d))) (Some zero_frame_data) = (Some (length (json_data_text d) - 1), Some d)"
      using decode_data_tail [of d "[]" zero_frame_data] assms Data_Report id_ok fields by simp
    with no_marker(1) [of "''ACK''" d] no_marker(1) [of "''NACK''" d] assms show ?thesis
      by (simp add: Data_Report ctx on_line_def)
  next
    case (Ack_Report a)
    have "message_json_decode_ack (Some (butlast (json_ack_text a))) (Some zero_frame_ack) = (Some (length (json_ack_text a) - 1), Some a)"
      using parse_device_tail [of "ack_node_id a" "''ACK''" "ack_fields a" "ack_sequence a" "[]"] assms Ack_Report id_ok fields
      by (simp add: message_json_decode_ack_def json_ack_text_def read_object_def object_fields_def csimps)
    with marker(1) show ?thesis by (simp add: Ack_Report ctx on_line_def)
  next
    case (Nack_Report n)
    have "message_json_decode_nack (Some (butlast (json_nack_text n))) (Some zero_frame_nack) = (Some (length (json_nack_text n) - 1), Some n)"
      using parse_nack_tail [of n "[]"] assms Nack_Report id_ok
      by (simp add: message_json_decode_nack_def read_object_def)
    with marker(2) no_marker(2) [of "''ACK''" n] assms show ?thesis by (simp add: Nack_Report ctx on_line_def)
  qed
qed


section \<open>A stream of reports\<close>

lemma print_u_safe: "LF \<notin> set (print_u n)"
  by (auto dest!: print_u_digits simp: is_digit_def)

lemma fields_text_safe: "fields_safe fs \<Longrightarrow> LF \<notin> set (json_fields_text fs)"
  by (induction fs rule: json_fields_text.induct)
    (auto simp: fields_safe_def json_field_text_def json_string_text_def json_quoted_def dest: line_safeD(3))

lemma report_line_safe:
  assumes "report_safe r"
  shows "LF \<notin> set (butlast (report_text r))" "report_text r = butlast (report_text r) @ [LF]"
    "strip_cr (butlast (report_text r)) = butlast (report_text r)"
proof -
  have "\<exists>s. report_text r = s @ ''}'' @ [LF] \<and> LF \<notin> set s"
  proof (cases r)
    case (Data_Report d)
    then show ?thesis using assms print_u_safe fields_text_safe [of "data_fields d"]
      by (auto simp: json_data_text_def json_device_text_def json_string_text_def json_quoted_def json_seq_text_def
          json_fields_member_def dest: line_safeD(3))
  next
    case (Ack_Report a)
    then show ?thesis using assms print_u_safe fields_text_safe [of "ack_fields a"]
      by (auto simp: json_ack_text_def json_device_text_def json_string_text_def json_quoted_def json_seq_text_def
          json_fields_member_def dest: line_safeD(3))
  next
    case (Nack_Report n)
    then show ?thesis using assms print_u_safe
      by (auto simp: json_nack_text_def json_string_text_def json_quoted_def json_seq_text_def dest: line_safeD(3))
  qed
  then obtain s where "report_text r = s @ ''}'' @ [LF]" "LF \<notin> set s" by blast
  then show "LF \<notin> set (butlast (report_text r))" "report_text r = butlast (report_text r) @ [LF]"
    "strip_cr (butlast (report_text r)) = butlast (report_text r)"
    by (simp_all add: butlast_append strip_cr_def)
qed

lemma split_lines: "list_all (\<lambda>l. LF \<notin> set l) ls \<Longrightarrow> split_on LF (concat (map (\<lambda>l. l @ [LF]) ls) @ r) = ls @ split_on LF r"
  by (induction ls) (simp_all add: split_on_append del: split_on.simps)

lemma report_stream:
  assumes "list_all report_safe rs"
  shows "line_parser_loop (Some (on_line now)) (concat (map report_text rs)) ctx n = ([], fold (apply_report now) rs ctx, n + length rs)"
proof -
  have t: "concat (map report_text rs) = concat (map (\<lambda>l. l @ [LF]) (map (butlast \<circ> report_text) rs))"
    using assms report_line_safe(2) by (induction rs) auto
  have "list_all (\<lambda>l. LF \<notin> set l) (map (butlast \<circ> report_text) rs)"
    using assms report_line_safe(1) by (auto simp: list_all_iff)
  from split_lines [OF this, of "[]"] have p: "split_on LF (concat (map report_text rs)) = map (butlast \<circ> report_text) rs @ [[]]"
    unfolding t by simp
  have "fold (line_call (Some (on_line now))) (map (butlast \<circ> report_text) rs) ctx = fold (apply_report now) rs ctx"
    using assms
  proof (induction rs arbitrary: ctx)
    case (Cons r rs)
    then have "line_call (Some (on_line now)) (butlast (report_text r)) ctx = apply_report now r ctx"
      using on_line_report [of r now ctx] report_line_safe(3) [of r] by (simp add: line_call_def)
    with Cons show ?case by simp
  qed simp
  then show ?thesis by (simp add: line_parser_loop_pieces p)
qed

text \<open>C35: The server understands the gateway, however TCP cuts the stream: any sequence of DATA, ACK
  and NACK messages (with ids and fields of the sizes of their arrays, without quotes, backslashes,
  NULs and line feeds, and no field \<open>type=ACK\<close> or \<open>type=NACK\<close>) that arrives in any sequence of reads
  is applied in order, every message exactly once: a DATA message updates the store, an ACK or NACK
  the state of its command; nothing is left over.\<close>
theorem server_applies_stream:
  assumes "list_all report_safe rs" "concat reads = concat (map report_text rs)"
  shows "foldl (line_receive (Some (on_line now))) ([], ctx, 0) reads = ([], fold (apply_report now) rs ctx, length rs)"
proof -
  have "line_ready ([], ctx, 0)" by (simp add: line_ready_def)
  from line_stream.feed_chunks [OF this, of "Some (on_line now)" reads] assms(2) report_stream [OF assms(1), of now ctx 0]
  show ?thesis by simp
qed

theorem server_applies_stream_witness:
  "fst (foldl (line_receive (Some (on_line 5))) ([], (\<lparr>ns_entries = [], ns_capacity = 64\<rparr>, cm_start), 0)
      [take 10 (json_nack_text \<lparr>nack_node_id = ''N1'', nack_sequence = 3, nack_error = ''busy''\<rparr>),
       drop 10 (json_nack_text \<lparr>nack_node_id = ''N1'', nack_sequence = 3, nack_error = ''busy''\<rparr>)]) = []"
  using server_applies_stream [of "[Nack_Report \<lparr>nack_node_id = ''N1'', nack_sequence = 3, nack_error = ''busy''\<rparr>]"
     "[take 10 (json_nack_text \<lparr>nack_node_id = ''N1'', nack_sequence = 3, nack_error = ''busy''\<rparr>),
       drop 10 (json_nack_text \<lparr>nack_node_id = ''N1'', nack_sequence = 3, nack_error = ''busy''\<rparr>)]" 5 "(\<lparr>ns_entries = [], ns_capacity = 64\<rparr>, cm_start)"]
  by (simp add: line_safe_def json_clean_def)

section \<open>From the frame to the server\<close>

definition frame_report_value :: "parsed_frame \<Rightarrow> report option" where
  "frame_report_value frame =
     (case frame_get_message_type (Some frame) of
        FRAME_MESSAGE_DATA \<Rightarrow>
          (case frame_decode_data (Some frame) (Some zero_frame_data) of (ok, d) \<Rightarrow> if ok then Some (Data_Report (the d)) else None)
      | FRAME_MESSAGE_ACK \<Rightarrow>
          (case frame_decode_ack (Some frame) (Some zero_frame_ack) of (ok, a) \<Rightarrow> if ok then Some (Ack_Report (the a)) else None)
      | FRAME_MESSAGE_NACK \<Rightarrow>
          (case frame_decode_nack (Some frame) (Some zero_frame_nack) of (ok, n) \<Rightarrow> if ok then Some (Nack_Report (the n)) else None)
      | _ \<Rightarrow> None)"

fun report_node :: "report \<Rightarrow> string" where
  "report_node (Data_Report d) = data_node_id d"
| "report_node (Ack_Report a) = ack_node_id a"
| "report_node (Nack_Report n) = nack_node_id n"

lemma frame_report_value: "frame_report f = map_option (\<lambda>r. (report_node r, report_text r)) (frame_report_value f)"
  by (auto simp: frame_report_def frame_report_value_def split: frame_message_type.split prod.split)

lemma reports_for_values:
  assumes "map frame_report_value frames = map Some rs" "list_all (\<lambda>r. report_node r = node \<and> length (report_text r) < 256) rs"
  shows "reports_for node (map frame_report frames) = map (\<lambda>r. to_message (report_text r)) rs"
  using assms
proof (induction frames arbitrary: rs)
  case Nil
  then show ?case by (simp add: reports_for_def)
next
  case (Cons f fs)
  then obtain r rs' where r: "rs = r # rs'" "frame_report_value f = Some r" "map frame_report_value fs = map Some rs'"
    by (cases rs) auto
  with Cons.prems(2) Cons.IH [OF r(3)] show ?case by (simp add: reports_for_def frame_report_value)
qed

text \<open>C36: The reports of a node reach the server: let a connection that is bound to a node receive any
  sequence of frames that decode to reports of that node (with safe texts that fit 255 bytes). The
  messages that the gateway pushes, sent one after the other and received by the server in any reads,
  have exactly the effect of these reports, in their order: DATA on the store, ACK and NACK on the
  commands they answer.\<close>
theorem node_reports_reach_server:
  assumes "dm_inv (gw_devices g)" "up_bound_node_id up = node" "node \<noteq> []" "node \<in> dom (dm_abs (gw_devices g))" "now \<noteq> -1"
    and "map frame_report_value frames = map Some rs"
    and "list_all (\<lambda>r. report_node r = node \<and> length (report_text r) < 256 \<and> report_safe r) rs"
    and "fold (gateway_app_on_frame now) frames (g, up) = (g', up')"
    and "gw_pushed g' = gw_pushed g @ messages" "concat reads = concat (map message_bytes messages)"
  shows "foldl (line_receive (Some (on_line now'))) ([], ctx, 0) reads = ([], fold (apply_report now') rs ctx, length rs)"
proof -
  have safe: "list_all report_safe rs" "list_all (\<lambda>r. report_node r = node \<and> length (report_text r) < 256) rs"
    using assms(7) by (auto simp: list_all_iff)
  have "gw_pushed g' = gw_pushed g @ reports_for node (map frame_report frames)"
    using handle_reports_bound [OF assms(1-5), of "map frame_report frames"] assms(8) unfolding fold_reports by auto
  then have "messages = map (\<lambda>r. to_message (report_text r)) rs"
    using assms(9) reports_for_values [OF assms(6) safe(2)] by simp
  then have "concat (map message_bytes messages) = concat (map report_text rs)"
    by (induction rs arbitrary: messages) (simp_all add: to_message_def)
  moreover have "line_ready ([], ctx, 0)" by (simp add: line_ready_def)
  ultimately show ?thesis
    using line_stream.feed_chunks [of "([], ctx, 0)" "Some (on_line now')" reads] assms(10) report_stream [OF safe(1), of now' ctx 0]
    by simp
qed

theorem node_reports_reach_server_witness:
  "\<exists>g' up' messages. fold (gateway_app_on_frame 20)
       [\<lparr>raw = [], payload = ''1,N1,000003,NACK,ERR=busy'', received_crc = 0, calculated_crc = 0\<rparr>]
       (example_gateway, example_upstream ''N1'' 1) = (g', up')
     \<and> gw_pushed g' = gw_pushed example_gateway @ messages
     \<and> foldl (line_receive (Some (on_line 21))) ([], (\<lparr>ns_entries = [], ns_capacity = 64\<rparr>, cm_start), 0) (map message_bytes messages)
       = ([], (\<lparr>ns_entries = [], ns_capacity = 64\<rparr>, snd (command_manager_on_nack cm_start
             (Some \<lparr>nack_node_id = ''N1'', nack_sequence = 3, nack_error = ''busy''\<rparr>))), 1)"
proof -
  let ?f = "\<lparr>raw = [], payload = ''1,N1,000003,NACK,ERR=busy'', received_crc = 0, calculated_crc = 0\<rparr>"
  let ?r = "Nack_Report \<lparr>nack_node_id = ''N1'', nack_sequence = 3, nack_error = ''busy''\<rparr>"
  obtain g' up' where g': "fold (gateway_app_on_frame 20) [?f] (example_gateway, example_upstream ''N1'' 1) = (g', up')"
    by fastforce
  have pushed: "gw_pushed example_gateway = []" by (simp add: example_gateway_def)
  have t: "strtok_all (CHR '','') ''1,N1,000003,NACK,ERR=busy'' = [''1'', ''N1'', ''000003'', ''NACK'', ''ERR=busy'']"
    by (simp add: strtok_all_def)
  have n: "parse_uint32_decimal ''000003'' = Some 3"
    by (simp add: parse_uint32_decimal_def strtoul10_def is_space_def strip_sign_def is_digit_def dec_value_def digit_val_def)
  have v: "map frame_report_value [?f] = map Some [?r]"
    by (simp add: frame_report_value_def frame_get_message_type_def frame_decode_nack_def t n frame_consts)
  have "length (json_nack_text \<lparr>nack_node_id = ''N1'', nack_sequence = 3, nack_error = ''busy''\<rparr>) < 256"
    by (rule json_nack_text_fits) simp_all
  then have s: "list_all (\<lambda>r. report_node r = ''N1'' \<and> length (report_text r) < 256 \<and> report_safe r) [?r]"
    by (simp add: line_safe_def json_clean_def)
  show ?thesis
    using node_reports_reach_server [OF example_gateway_inv(1) _ _ _ _ v s g', of "gw_pushed g'" "map message_bytes (gw_pushed g')" 21
        "(\<lparr>ns_entries = [], ns_capacity = 64\<rparr>, cm_start)"] g' pushed
    by (auto simp: example_upstream_def example_gateway_inv(2))
qed

text \<open>A field \<open>type=ACK\<close> of a report is taken for the type of the message: the report is lost.\<close>

lemma field_taken_for_type:
  "on_line now (butlast (json_data_text \<lparr>data_node_id = ''N1'', data_sequence = 1,
     data_fields = [\<lparr>kv_key = ''type'', kv_value = ''ACK''\<rparr>]\<rparr>)) ctx = ctx"
proof -
  let ?fs = "[\<lparr>kv_key = ''type'', kv_value = ''ACK''\<rparr>]"
  have "line_has (butlast (json_device_text ''DATA'' ''N1'' 1 ?fs)) ''\"type\":\"ACK\"''"
    unfolding line_has_iff json_device_text_def
    by (rule exI [of _ "''{'' @ json_string_text ''node'' ''N1'' @ '','' @ json_seq_text 1 @ '','' @ json_string_text ''type'' ''DATA''
        @ '','' @ json_quoted ''fields'' @ '':{''"], rule exI [of _ "''}}''"])
      (simp add: json_fields_member_def json_field_text_def json_string_text_def json_quoted_def butlast_append)
  moreover have "message_json_decode_ack (Some (butlast (json_device_text ''DATA'' ''N1'' 1 ?fs))) (Some zero_frame_ack) = (None, Some zero_frame_ack)"
    using parse_device_tail [of "''N1''" "''DATA''" ?fs 1 "[]"]
    by (simp add: message_json_decode_ack_def read_object_def json_id_ok_def json_clean_def json_field_ok_def)
  ultimately show ?thesis
    by (cases ctx) (simp add: on_line_def json_data_text_def)
qed

end
