(* ===== verification/Command_Path.thy ===== *)
theory Command_Path
  imports Server_Main Bluetooth_Worker
begin

text \<open>
  The way of a command: what the operator types (\<^verbatim>\<open>server/main.c\<close>) is registered and sent as a JSON line,
  queued by the gateway (\<^verbatim>\<open>gateway/gateway_app.c\<close>), written as a frame by the Bluetooth worker
  (\<^verbatim>\<open>gateway/bluetooth_worker.c\<close>) and decoded by the node with the shared parser
  (\<^verbatim>\<open>common/frame_parser.c\<close>).
\<close>

section \<open>What the operator types\<close>

definition operator_word :: "string \<Rightarrow> bool" where
  "operator_word w = (w \<noteq> [] \<and> length w < 32 \<and> (\<forall>c \<in> set w. \<not> is_space c \<and> c \<noteq> NUL))"

lemma spaces: "is_space (CHR '' '')" "is_space LF" "is_space CR"
  by (simp_all add: is_space_def)

lemma scan_word_word:
  assumes "operator_word w" "r = [] \<or> is_space (hd r)"
  shows "scan_word (CHR '' '' # w @ r) = (w, r)"
proof -
  have t: "takeWhile (\<lambda>c. \<not> is_space c) (w @ r) = w"
    using assms by (cases r) (auto simp: operator_word_def takeWhile_append takeWhile_eq_all_conv)
  have d: "dropWhile is_space (CHR '' '' # w @ r) = w @ r"
    using assms(1) by (cases w) (auto simp: operator_word_def spaces)
  show ?thesis using assms(1) d by (simp add: scan_word_def t operator_word_def spaces)
qed

lemma led_values:
  assumes "v = 0 \<or> v = 1"
  shows "operator_word (print_d v)" "set (print_d v) \<subseteq> {CHR ''0'', CHR ''1''}" "strtol10 (print_d v) = (v, [], False)"
    "length (print_d v) = 1"
proof -
  have p: "print_d 0 = ''0''" "print_d 1 = ''1''" by (simp_all add: print_compute)
  show "operator_word (print_d v)" "set (print_d v) \<subseteq> {CHR ''0'', CHR ''1''}" "length (print_d v) = 1"
    using assms p by (auto simp: operator_word_def is_space_def)
  have "strtol10 ''0'' = (0, [], False)" "strtol10 ''1'' = (1, [], False)"
    by (simp_all add: strtol10_def is_space_def strip_sign_def is_digit_def dec_value_def digit_val_def)
  then show "strtol10 (print_d v) = (v, [], False)" using assms p by auto
qed

lemma operator_request_led:
  assumes "operator_word node" "v = 0 \<or> v = 1"
  shows "operator_request (Some (''led '' @ node @ '' '' @ print_d v @ [LF])) = Some (node, v)"
proof -
  note v = led_values [OF assms(2)]
  let ?s = "''led '' @ node @ '' '' @ print_d v"
  have chars: "\<forall>c \<in> set ?s. c \<noteq> NUL \<and> c \<noteq> CR \<and> c \<noteq> LF"
    using assms(1) v(2) spaces unfolding operator_word_def by (auto simp del: is_space_def)
  have c: "cstr (?s @ [LF]) = ?s @ [LF]" by (rule cstr_id) (use chars in auto)
  have l: "takeWhile (\<lambda>c. c \<noteq> CR \<and> c \<noteq> LF) (?s @ [LF]) = ?s"
    using takeWhile_append2 [of ?s "\<lambda>c. c \<noteq> CR \<and> c \<noteq> LF" "[LF]"] chars by auto
  have w1: "scan_word (CHR '' '' # node @ '' '' @ print_d v) = (node, '' '' @ print_d v)"
    using scan_word_word [OF assms(1), of "'' '' @ print_d v"] spaces by simp
  have w2: "scan_word ('' '' @ print_d v) = (print_d v, [])"
    using scan_word_word [OF v(1), of "[]"] by simp
  have "scan_led ?s = (2, node, print_d v)"
    using w1 w2 assms(1) v(1,4) by (auto simp: scan_led_def operator_word_def)
  moreover have "\<not> v < 0" "\<not> 1 < v" using assms(2) by auto
  ultimately show ?thesis
    using c l v(3) by (simp add: operator_request_def)
qed

section \<open>From the server to the node\<close>

lemma led_sequence: "k < 64 \<Longrightarrow> (of_nat (k + 1) :: u32) mod 1000000 = of_nat (k + 1)"
proof -
  assume k: "k < 64"
  have "unat (of_nat (k + 1) :: u32) = k + 1" using k by (simp only: unat_of_nat) simp
  then show ?thesis using k by (intro mod_word_less) (simp add: word_less_nat_alt)
qed

text \<open>Node ids that the whole path carries: frames allow letters, digits and a few signs.\<close>

definition node_word :: "string \<Rightarrow> bool" where
  "node_word w = (node_id_is_valid (Some w) \<and> operator_word w \<and> json_clean w)"

lemma node_word_id: "node_word node \<Longrightarrow> json_id_ok node"
  by (simp add: node_word_def json_id_ok_def operator_word_def)

lemma led_command_safe:
  assumes "node_word node" "v = 0 \<or> v = 1"
  shows "list_all json_field_ok (cmd_fields (led_command node v n))" "LF \<notin> set (butlast (json_command_text (led_command node v n)))"
    "json_command_text (led_command node v n) = butlast (json_command_text (led_command node v n)) @ [LF]"
    "strip_cr (butlast (json_command_text (led_command node v n))) = butlast (json_command_text (led_command node v n))"
proof -
  have w: "operator_word node" "json_clean node" "LF \<notin> set node"
    using assms(1) spaces by (auto simp: node_word_def operator_word_def)
  have p: "print_d 0 = ''0''" "print_d 1 = ''1''" by (simp_all add: print_compute)
  then show "list_all json_field_ok (cmd_fields (led_command node v n))"
    using assms(2) by (auto simp: led_command_def json_field_ok_def json_clean_def)
  have digits: "LF \<notin> set (print_u (unat n))" by (auto dest!: print_u_digits simp: is_digit_def)
  have "\<exists>s. json_command_text (led_command node v n) = s @ ''}'' @ [LF] \<and> LF \<notin> set s"
    using w digits assms(2) p
    by (auto simp: led_command_def json_command_text_def json_string_text_def json_quoted_def json_seq_text_def
        json_fields_member_def json_field_text_def)
  then obtain s where "json_command_text (led_command node v n) = s @ ''}'' @ [LF]" "LF \<notin> set s" by blast
  then show "LF \<notin> set (butlast (json_command_text (led_command node v n)))"
    "json_command_text (led_command node v n) = butlast (json_command_text (led_command node v n)) @ [LF]"
    "strip_cr (butlast (json_command_text (led_command node v n))) = butlast (json_command_text (led_command node v n))"
    by (simp_all add: butlast_append strip_cr_def)
qed

text \<open>The gateway queues the command.\<close>

lemma led_line_queued:
  assumes "node_word node" "v = 0 \<or> v = 1" "dm_inv (gw_devices g)" "dm_abs (gw_devices g) node = Some w" "nv_online w"
    "nv_pending w = []" and reads: "concat reads = json_command_text (led_command node v n)"
  obtains devs where "foldl (line_receive (Some (gateway_app_on_tcp_line os))) ([], g, 0) reads =
      ([], log_event (Queued (led_command node v n)) (g\<lparr>gw_devices := devs\<rparr>), 1)"
    "dm_inv devs" "dm_abs devs = (dm_abs (gw_devices g))(node \<mapsto> w\<lparr>nv_pending := [led_command node v n]\<rparr>)"
proof -
  let ?c = "led_command node v n"
  note safe = led_command_safe [OF assms(1,2), of n]
  have target: "cmd_target_node ?c = node" "cmd_sender ?c = ''GATEWAY''" "length (cmd_fields ?c) \<le> 16" by (simp_all add: led_command_def)
  have d: "message_json_decode_command (Some (butlast (json_command_text ?c))) (Some zero_frame_command) = (Some (length (json_command_text ?c) - 1), Some ?c)"
    using parse_command_tail [of ?c "[]"] safe(1) node_word_id [OF assms(1)] target
    by (simp add: message_json_decode_command_def read_object_def object_fields_def json_id_ok_def json_clean_def)
  obtain r devs where e: "device_manager_enqueue_command (gw_devices g) (Some node) (Some ?c) = (r, devs)" by fastforce
  have x: "dm_exec (Enqueue (Some node) (Some ?c)) (gw_devices g) = (r, devs, [])" using e by simp
  have ne: "node \<noteq> []" using assms(1) by (simp add: node_word_def operator_word_def)
  have s: "r = DEVICE_MANAGER_OK" "dm_inv devs" "dm_abs devs = (dm_abs (gw_devices g))(node \<mapsto> w\<lparr>nv_pending := [?c]\<rparr>)"
    using dm_exec_step [OF assms(3) x] assms(4-6) ne target by (auto simp: no_node_id_def)
  have line: "gateway_app_on_tcp_line os (butlast (json_command_text ?c)) g = log_event (Queued ?c) (g\<lparr>gw_devices := devs\<rparr>)"
    using d e s(1) target by (simp add: gateway_app_on_tcp_line_def)
  have sp: "split_on LF (json_command_text ?c) = [butlast (json_command_text ?c), []]"
    using split_on_append [OF safe(2), of "[]"] safe(3) by simp
  have "line_parser_loop (Some (gateway_app_on_tcp_line os)) (json_command_text ?c) g 0 =
      ([], log_event (Queued ?c) (g\<lparr>gw_devices := devs\<rparr>), 1)"
    by (simp add: line_parser_loop_pieces sp line_call_def safe(4) line)
  moreover have "line_ready ([], g, 0)" by (simp add: line_ready_def)
  ultimately show ?thesis
    using line_stream.feed_chunks [of "([], g, 0)" "Some (gateway_app_on_tcp_line os)" reads] reads
    by (intro that [OF _ s(2,3)]) simp
qed

text \<open>The worker writes it as a frame.\<close>

lemma frame_of_length: "length (frame_of q) = length q + 8"
  by (simp add: frame_of_def)

lemma command_frame_built:
  assumes "length fs \<le> 16" "node_id_is_valid (Some i)" "list_all field_ok fs"
    "length (kv_payload i (unat (n mod 1000000)) ''CMD'' fs) < 248"
  shows "frame_build_command_kv (Some []) FRAME_MAX_LEN (Some i) n (Some fs) (length fs) =
    (Inr (length (frame_of (kv_payload i (unat (n mod 1000000)) ''CMD'' fs))),
     Some (frame_of (kv_payload i (unat (n mod 1000000)) ''CMD'' fs)))"
  unfolding frame_build_command_kv_def build_kv_frame_Inr Let_def frame_of_length using assms
  by (simp add: frame_consts)

lemma led_frame:
  assumes "v = 0 \<or> v = 1"
  shows "frame_build_command_kv (Some []) FRAME_MAX_LEN (Some ''GATEWAY'') n (Some (cmd_fields (led_command node v n)))
      (length (cmd_fields (led_command node v n))) =
    (Inr (length (frame_of (kv_payload ''GATEWAY'' (unat (n mod 1000000)) ''CMD'' (cmd_fields (led_command node v n))))),
     Some (frame_of (kv_payload ''GATEWAY'' (unat (n mod 1000000)) ''CMD'' (cmd_fields (led_command node v n)))))"
proof -
  have d: "length (print_d v) = 1" "list_all field_ok (cmd_fields (led_command node v n))" "length (cmd_fields (led_command node v n)) = 1"
  proof -
    have p: "print_d 0 = ''0''" "print_d 1 = ''1''" by (simp_all add: print_compute)
    show "length (print_d v) = 1" using assms p by auto
    show "list_all field_ok (cmd_fields (led_command node v n))" "length (cmd_fields (led_command node v n)) = 1"
      using assms p by (auto simp: led_command_def field_ok_def field_text_is_valid_def field_char_ok_def frame_consts)
  qed
  have "unat (n mod 1000000) < 1000000" by (simp add: unat_mod)
  then have "length (kv_payload ''GATEWAY'' (unat (n mod 1000000)) ''CMD'' (cmd_fields (led_command node v n))) = 26"
    using d(1) by (simp add: kv_payload_def led_command_def kv_text_def)
  moreover have "node_id_is_valid (Some ''GATEWAY'')" by (simp add: node_id_is_valid_def id_char_ok_def frame_consts)
  ultimately show ?thesis
    by (intro command_frame_built) (use d in linarith, assumption, rule d(2), linarith)
qed

text \<open>The two halves of the way: the line that the server sends, and the frame that the worker writes.\<close>

lemma led_line_sent:
  assumes server: "cm_filled k m" "k < 64" "0 \<le> client_fd" "256 \<le> os (length log)"
    and typed: "node_word node" "v = 0 \<or> v = 1"
  defines "line \<equiv> json_command_text (led_command node v (of_nat (k + 1)))"
  obtains m' where "handle_stdin_command os now (Some (''led '' @ node @ '' '' @ print_d v @ [LF])) client_fd (m, log)
      = (m', log @ [\<lparr>sent_fd = client_fd, sent_data = line, sent_count = length line\<rparr>])"
    "command_manager_find m' (of_nat (k + 1)) = Some k"
proof -
  define m' where "m' = \<lparr>entries = (entries m)[k := led_entry k node v now], next_sequence = of_nat (k + 2)\<rparr>"
  have w: "operator_word node" using typed(1) by (simp add: node_word_def)
  have bounds: "length node < 32" "0 \<le> v" "v \<le> 1" "node \<noteq> []"
    using w typed(2) unfolding operator_word_def by (blast, linarith, linarith, blast)
  have fits: "length line < 256" unfolding line_def by (rule led_json_fits [OF bounds(1-3)])
  have typed_eq: "handle_stdin_command os now (Some (''led '' @ node @ '' '' @ print_d v @ [LF])) client_fd (m, log)
      = (m', log @ [\<lparr>sent_fd = client_fd, sent_data = line, sent_count = length line\<rparr>])"
    unfolding handle_stdin_eq [OF server(1)] operator_request_led [OF w typed(2)]
    using server fits by (simp add: m'_def line_def send_logged_def send_call_def Let_def)
  have "cm_filled (k + 1) m'"
    using send_filled [OF server(1), of "Some node" "Some ''GATEWAY''" "Some [\<lparr>kv_key = ''LED'', kv_value = print_d v\<rparr>]" 1 now] bounds server(2)
    by (simp add: m'_def led_entry_def send_args_ok_def)
  then have "command_manager_find m' (of_nat (k + 1)) = Some k"
    using server(2) by (simp only: find_sequence unat_of_nat) simp
  with typed_eq show ?thesis by (rule that)
qed

lemma led_command_written:
  assumes "node \<noteq> []" "v = 0 \<or> v = 1" "n mod 1000000 = n"
    and "dm_inv (gw_devices g)" "dm_abs (gw_devices g) node = Some w" "nv_online w" "nv_pending w = [led_command node v n]"
    and worker: "up_bound_node_id up = node" "nv_thread_id w = up_thread up" "0 \<le> fd" "256 \<le> os (length (gw_sent g))"
  obtains g2 frame f where "bluetooth_worker_try_send_command os fd (g, up) = (Command_Sent, g2, up)"
    "gw_sent g2 = gw_sent g @ [\<lparr>sent_fd = fd, sent_data = frame, sent_count = length frame\<rparr>]"
    "snd (frame_parser_feed (Some (\<lambda>f log. log @ [f])) p (Some frame) []) = ([f], 1)"
    "frame_decode_command (Some f) (Some zero_frame_command) =
       (True, Some \<lparr>cmd_target_node = [], cmd_sender = ''GATEWAY'', cmd_sequence = n, cmd_fields = [\<lparr>kv_key = ''LED'', kv_value = print_d v\<rparr>]\<rparr>)"
proof -
  define c where "c = led_command node v n"
  define fr where "fr = frame_of (kv_payload ''GATEWAY'' (unat (n mod 1000000)) ''CMD'' (cmd_fields c))"
  have b: "frame_build_command_kv (Some []) FRAME_MAX_LEN (Some ''GATEWAY'') n (Some (cmd_fields c)) (length (cmd_fields c))
      = (Inr (length fr), Some fr)" using led_frame [OF assms(2), of n node] by (simp add: c_def fr_def)
  have len: "length fr < 256"
    using b [unfolded frame_build_command_kv_def build_kv_frame_Inr] by (simp add: Let_def frame_consts fr_def frame_of_def)
  have enc: "frame_encoding c = Some fr" using b by (simp add: frame_encoding_def c_def led_command_def)
  obtain r out devs where x: "dm_exec (Try_Dequeue (Some node) fd (up_thread up)) (gw_devices g) = (r, devs, out)"
    by (cases "dm_exec (Try_Dequeue (Some node) fd (up_thread up)) (gw_devices g)")
  have o: "r = DEVICE_MANAGER_OK" "out = [c]"
    using dm_exec_step(1) [OF assms(4) x] worker(2,3) assms(1,5-7) by (auto simp: no_node_id_def c_def)
  have send: "bluetooth_worker_try_send_command os fd (g, up) =
      (Command_Sent, log_event (Written DEVICE_TRANSPORT_BLUETOOTH c \<lparr>sent_fd = fd, sent_data = fr, sent_count = length fr\<rparr>)
         (g\<lparr>gw_devices := devs, gw_sent := gw_sent g @ [\<lparr>sent_fd = fd, sent_data = fr, sent_count = length fr\<rparr>]\<rparr>), up)"
    using x o enc worker(1,3,4) assms(1) len
    by (simp add: bluetooth_try_send_link link_try_send_def link_send_def send_logged_def send_call_def Let_def del: dm_exec.simps)
  have fields: "list_all field_fits (cmd_fields c)"
    using led_values [OF assms(2)] by (auto simp: c_def led_command_def field_fits_def frame_consts operator_word_def)
  obtain f where f: "snd (frame_parser_feed (Some (\<lambda>f log. log @ [f])) p (Some fr) []) = ([f], 1)"
    "parse_kv_payload f ''CMD'' [] 32 = (True, ''GATEWAY'', n mod 1000000, cmd_fields c)"
    using built_frame_received [OF b [unfolded frame_build_command_kv_def], of p] fields
    by (auto simp: id_fits_def type_text_def)
  show ?thesis
    by (rule that [OF send _ f(1)]) (use f(2) assms(3) in \<open>simp_all add: frame_decode_command_def c_def led_command_def\<close>)
qed

text \<open>C37: A command arrives at its node: when the operator types \<open>led <node> <value>\<close> for a node that is
  online on Bluetooth with an empty queue, and the calls that send succeed, then the server registers
  the command under the next number and sends one line; the gateway, which receives this line in any
  reads, queues the command and its worker writes one frame at the next turn; and the node's parser,
  in any state, delivers exactly one frame from these bytes, which decodes to sender \<open>GATEWAY\<close>, the
  same number, by which the answer will be paired, and the field \<open>LED=<value>\<close>.\<close>
theorem operator_command_reaches_node:
  assumes server: "cm_filled k m" "k < 64" "0 \<le> client_fd" "256 \<le> os (length log)"
    and typed: "node_word node" "v = 0 \<or> v = 1"
    and gateway: "dm_inv (gw_devices g)" "dm_abs (gw_devices g) node = Some w" "nv_online w" "nv_pending w = []"
    and worker: "up_bound_node_id up = node" "nv_thread_id w = up_thread up" "0 \<le> fd" "256 \<le> os' (length (gw_sent g))"
  shows "\<exists>m' line. handle_stdin_command os now (Some (''led '' @ node @ '' '' @ print_d v @ [LF])) client_fd (m, log)
        = (m', log @ [\<lparr>sent_fd = client_fd, sent_data = line, sent_count = length line\<rparr>])
     \<and> command_manager_find m' (of_nat (k + 1)) = Some k
     \<and> (\<forall>reads. concat reads = line \<longrightarrow>
          (\<exists>g1 g2 frame f. foldl (line_receive (Some (gateway_app_on_tcp_line os'))) ([], g, 0) reads = ([], g1, 1)
             \<and> bluetooth_worker_try_send_command os' fd (g1, up) = (Command_Sent, g2, up)
             \<and> gw_sent g2 = gw_sent g @ [\<lparr>sent_fd = fd, sent_data = frame, sent_count = length frame\<rparr>]
             \<and> snd (frame_parser_feed (Some (\<lambda>f log. log @ [f])) p (Some frame) []) = ([f], 1)
             \<and> frame_decode_command (Some f) (Some zero_frame_command) =
                 (True, Some \<lparr>cmd_target_node = [], cmd_sender = ''GATEWAY'', cmd_sequence = of_nat (k + 1),
                              cmd_fields = [\<lparr>kv_key = ''LED'', kv_value = print_d v\<rparr>]\<rparr>)))"
proof -
  define n :: u32 where "n = of_nat (k + 1)"
  have node: "node \<noteq> []" "n mod 1000000 = n"
    using typed(1) led_sequence [OF server(2)] by (auto simp: node_word_def operator_word_def n_def)
  obtain m' where m': "handle_stdin_command os now (Some (''led '' @ node @ '' '' @ print_d v @ [LF])) client_fd (m, log)
      = (m', log @ [\<lparr>sent_fd = client_fd, sent_data = json_command_text (led_command node v n),
                     sent_count = length (json_command_text (led_command node v n))\<rparr>])"
    "command_manager_find m' (of_nat (k + 1)) = Some k"
    unfolding n_def by (rule led_line_sent [of k m client_fd os log, OF server typed])
  have "\<exists>g1 g2 frame f. foldl (line_receive (Some (gateway_app_on_tcp_line os'))) ([], g, 0) reads = ([], g1, 1)
             \<and> bluetooth_worker_try_send_command os' fd (g1, up) = (Command_Sent, g2, up)
             \<and> gw_sent g2 = gw_sent g @ [\<lparr>sent_fd = fd, sent_data = frame, sent_count = length frame\<rparr>]
             \<and> snd (frame_parser_feed (Some (\<lambda>f log. log @ [f])) p (Some frame) []) = ([f], 1)
             \<and> frame_decode_command (Some f) (Some zero_frame_command) =
                 (True, Some \<lparr>cmd_target_node = [], cmd_sender = ''GATEWAY'', cmd_sequence = n,
                              cmd_fields = [\<lparr>kv_key = ''LED'', kv_value = print_d v\<rparr>]\<rparr>)"
    if reads: "concat reads = json_command_text (led_command node v n)" for reads
  proof -
    obtain devs where q: "foldl (line_receive (Some (gateway_app_on_tcp_line os'))) ([], g, 0) reads =
        ([], log_event (Queued (led_command node v n)) (g\<lparr>gw_devices := devs\<rparr>), 1)"
      "dm_inv devs" "dm_abs devs = (dm_abs (gw_devices g))(node \<mapsto> w\<lparr>nv_pending := [led_command node v n]\<rparr>)"
      by (rule led_line_queued [OF typed gateway reads])
    define g1 where "g1 = log_event (Queued (led_command node v n)) (g\<lparr>gw_devices := devs\<rparr>)"
    obtain g2 frame f where "bluetooth_worker_try_send_command os' fd (g1, up) = (Command_Sent, g2, up)"
      "gw_sent g2 = gw_sent g1 @ [\<lparr>sent_fd = fd, sent_data = frame, sent_count = length frame\<rparr>]"
      "snd (frame_parser_feed (Some (\<lambda>f log. log @ [f])) p (Some frame) []) = ([f], 1)"
      "frame_decode_command (Some f) (Some zero_frame_command) =
         (True, Some \<lparr>cmd_target_node = [], cmd_sender = ''GATEWAY'', cmd_sequence = n, cmd_fields = [\<lparr>kv_key = ''LED'', kv_value = print_d v\<rparr>]\<rparr>)"
      by (rule led_command_written [OF node(1) typed(2) node(2), of g1 "w\<lparr>nv_pending := [led_command node v n]\<rparr>" up fd os' p])
        (use q gateway worker in \<open>auto simp: g1_def\<close>)
    with q(1) show ?thesis unfolding g1_def [symmetric] by (intro exI conjI) (assumption | simp add: g1_def)+
  qed
  with m' show ?thesis unfolding n_def by blast
qed

text \<open>An example: node N1 is online and idle.\<close>

definition idle_device :: device where
  "idle_device = zero_device\<lparr>dev_node_id := ''N1'', dev_fd := 5, dev_online := True, dev_thread_id := 1\<rparr>"

lemma idle_gateway:
  "dm_inv (gw_devices (example_gateway\<lparr>gw_devices := \<lparr>devices = [idle_device]\<rparr>\<rparr>))"
  "dm_abs (gw_devices (example_gateway\<lparr>gw_devices := \<lparr>devices = [idle_device]\<rparr>\<rparr>)) ''N1'' = Some (view idle_device)"
  "nv_online (view idle_device)" "nv_pending (view idle_device) = []" "nv_thread_id (view idle_device) = 1"
proof -
  have "dev_queue_inv idle_device" "dev_pending idle_device = []"
    by (simp_all add: dev_queue_inv_def idle_device_def zero_device_def dm_consts dev_pending_def ring_contents_def)
  then show "dm_inv (gw_devices (example_gateway\<lparr>gw_devices := \<lparr>devices = [idle_device]\<rparr>\<rparr>))"
    "dm_abs (gw_devices (example_gateway\<lparr>gw_devices := \<lparr>devices = [idle_device]\<rparr>\<rparr>)) ''N1'' = Some (view idle_device)"
    "nv_pending (view idle_device) = []"
    by (simp_all add: dm_inv_def dev_ok_def dm_consts dm_abs_def table_map_def) (simp_all add: idle_device_def)
  show "nv_online (view idle_device)" "nv_thread_id (view idle_device) = 1" by (simp_all add: idle_device_def)
qed

theorem operator_command_reaches_node_witness:
  "\<exists>m' line g1 f. handle_stdin_command (\<lambda>i. 300) 9 (Some (''led N1 1'' @ [LF])) 4 (cm_start, [])
        = (m', [\<lparr>sent_fd = 4, sent_data = line, sent_count = length line\<rparr>])
     \<and> command_manager_find m' 1 = Some 0
     \<and> foldl (line_receive (Some (gateway_app_on_tcp_line (\<lambda>i. 300)))) ([], example_gateway\<lparr>gw_devices := \<lparr>devices = [idle_device]\<rparr>\<rparr>, 0)
         [take 7 line, drop 7 line] = ([], g1, 1)
     \<and> frame_decode_command (Some f) (Some zero_frame_command) =
         (True, Some \<lparr>cmd_target_node = [], cmd_sender = ''GATEWAY'', cmd_sequence = 1,
                      cmd_fields = [\<lparr>kv_key = ''LED'', kv_value = ''1''\<rparr>]\<rparr>)"
proof -
  let ?up = "\<lparr>up_transport = DEVICE_TRANSPORT_BLUETOOTH, up_device_fd = 5, up_bound_node_id = ''N1'', up_thread = 1\<rparr>"
  have n: "node_word ''N1''"
    by (simp add: node_word_def node_id_is_valid_def id_char_ok_def operator_word_def is_space_def json_clean_def)
  have p: "print_d 1 = ''1''" by (simp add: print_compute)
  obtain m' line where h: "handle_stdin_command (\<lambda>i. 300) 9 (Some (''led '' @ ''N1'' @ '' '' @ print_d 1 @ [LF])) 4 (cm_start, [])
        = (m', [] @ [\<lparr>sent_fd = 4, sent_data = line, sent_count = length line\<rparr>])"
      "command_manager_find m' (of_nat (0 + 1)) = Some 0"
    and rest: "\<forall>reads. concat reads = line \<longrightarrow>
          (\<exists>g1 g2 frame f. foldl (line_receive (Some (gateway_app_on_tcp_line (\<lambda>i. 300))))
                 ([], example_gateway\<lparr>gw_devices := \<lparr>devices = [idle_device]\<rparr>\<rparr>, 0) reads = ([], g1, 1)
             \<and> bluetooth_worker_try_send_command (\<lambda>i. 300) 5 (g1, ?up) = (Command_Sent, g2, ?up)
             \<and> gw_sent g2 = gw_sent (example_gateway\<lparr>gw_devices := \<lparr>devices = [idle_device]\<rparr>\<rparr>) @ [\<lparr>sent_fd = 5, sent_data = frame, sent_count = length frame\<rparr>]
             \<and> snd (frame_parser_feed (Some (\<lambda>f log. log @ [f])) frame_parser_init (Some frame) []) = ([f], 1)
             \<and> frame_decode_command (Some f) (Some zero_frame_command) =
                 (True, Some \<lparr>cmd_target_node = [], cmd_sender = ''GATEWAY'', cmd_sequence = of_nat (0 + 1),
                              cmd_fields = [\<lparr>kv_key = ''LED'', kv_value = print_d 1\<rparr>]\<rparr>))"
    using operator_command_reaches_node [OF cm_start_filled _ _ _ n _ idle_gateway(1,2,3,4), where v = 1 and client_fd = 4
        and os = "\<lambda>i. 300" and os' = "\<lambda>i. 300" and log = "[]" and now = 9 and fd = 5 and up = ?up and p = frame_parser_init]
      idle_gateway(5) by auto
  from rest have "\<exists>g1 f. foldl (line_receive (Some (gateway_app_on_tcp_line (\<lambda>i. 300))))
                 ([], example_gateway\<lparr>gw_devices := \<lparr>devices = [idle_device]\<rparr>\<rparr>, 0) [take 7 line, drop 7 line] = ([], g1, 1)
     \<and> frame_decode_command (Some f) (Some zero_frame_command) =
                 (True, Some \<lparr>cmd_target_node = [], cmd_sender = ''GATEWAY'', cmd_sequence = of_nat (0 + 1),
                              cmd_fields = [\<lparr>kv_key = ''LED'', kv_value = print_d 1\<rparr>]\<rparr>)"
    by (elim allE [of _ "[take 7 line, drop 7 line]"]) auto
  with h p show ?thesis by auto
qed

end
