(* ===== verification/Mock_Node.thy ===== *)
theory Mock_Node
  imports Io_Loops Frame_Parser Message_Json
begin

text \<open>
  \<^verbatim>\<open>tools/mock_node_app.c\<close>, \<^verbatim>\<open>tools/mock_node.c\<close> and \<^verbatim>\<open>tools/mock_wifi_node.c\<close>: the nodes at the other end of
  the links. The serial node answers commands and reports its (invented) measurements; the Wi-Fi node
  only reports. They share the frame, parser and JSON functions of the gateway. The system is a script
  of answers; \<open>*running\<close> is true until it is exhausted. The lemmas: which frames the node answers, with
  what, and that its reports are frames the gateway accepts.
\<close>

section \<open>Writing\<close>

text \<open>\<open>write_all\<close> has the loop of the server's \<open>send_all\<close>, with \<open>write\<close> in place of \<open>send\<close>.\<close>

definition write_all :: "io_answer list \<Rightarrow> string \<Rightarrow> nat \<Rightarrow> (bool \<times> string) option" where
  "write_all ws data len = send_all_loop ws (take len data) []"

text \<open>
  The Wi-Fi node gives up on an interruption when it was told to stop; the flag of a turn is
  \<open>g_running\<close> after the call.
\<close>

fun wifi_node_send_all_loop :: "(io_answer \<times> bool) list \<Rightarrow> string \<Rightarrow> string \<Rightarrow> (bool \<times> string) option" where
  "wifi_node_send_all_loop ws [] sent = Some (True, sent)"
| "wifi_node_send_all_loop [] (b # bs) sent = None"
| "wifi_node_send_all_loop ((w, running) # ws) (b # bs) sent =
     (case w of
        Count k \<Rightarrow>
          if k = 0 then Some (False, sent)
          else wifi_node_send_all_loop ws (drop k (b # bs)) (sent @ take k (b # bs))
      | Interrupted \<Rightarrow> if \<not> running then Some (False, sent) else wifi_node_send_all_loop ws (b # bs) sent
      | Would_Block \<Rightarrow> Some (False, sent)
      | Failed \<Rightarrow> Some (False, sent))"

definition wifi_node_send_all :: "(io_answer \<times> bool) list \<Rightarrow> string \<Rightarrow> nat \<Rightarrow> (bool \<times> string) option" where
  "wifi_node_send_all ws data len = wifi_node_send_all_loop ws (take len data) []"

section \<open>Answering commands\<close>

record node_context =
  nc_fd :: int
  nc_led_state :: int
  nc_fail_every :: int
  nc_fail_counter :: int

text \<open>\<open>atoi\<close> as in the GNU library: \<open>strtol\<close>, cut to 32 bits.\<close>

definition atoi :: "string \<Rightarrow> int" where
  "atoi s = (case strtol10 s of (v, rest, range_error) \<Rightarrow> sint (word_of_int v :: 32 word))"

text \<open>
  The answer to a command that decodes, with the context after it. The buffer of the reply starts with
  arbitrary contents.
\<close>

definition node_nack :: "u32 \<Rightarrow> string \<Rightarrow> (frame_error + nat) \<times> string option" where
  "node_nack sequence reason = frame_build_nack (Some []) FRAME_MAX_LEN (Some ''NODE01'') sequence (Some reason)"

definition node_execute :: "frame_command \<Rightarrow> int \<Rightarrow> node_context \<Rightarrow> ((frame_error + nat) \<times> string option) \<times> node_context" where
  "node_execute cmd led_value context =
     (let context1 = context\<lparr>nc_fail_counter := nc_fail_counter context + 1\<rparr> in
      if 0 < nc_fail_every context1 \<and> nc_fail_counter context1 mod nc_fail_every context1 = 0 then
        (node_nack (cmd_sequence cmd) ''sim_fault'', context1)
      else
        let context2 = context1\<lparr>nc_led_state := led_value\<rparr> in
        (frame_build_ack_kv (Some []) FRAME_MAX_LEN (Some ''NODE01'') (cmd_sequence cmd)
            (Some [\<lparr>kv_key = ''LED'', kv_value = print_d (nc_led_state context2)\<rparr>]) 1,
         context2))"

definition node_answer_command :: "frame_command \<Rightarrow> node_context \<Rightarrow> ((frame_error + nat) \<times> string option) \<times> node_context" where
  "node_answer_command cmd context =
     (case frame_fields_find (Some (cmd_fields cmd)) (Some ''LED'') of
        None \<Rightarrow> (node_nack (cmd_sequence cmd) ''unsupported_cmd'', context)
      | Some led_text \<Rightarrow>
          let led_value = atoi led_text in
          if led_value \<noteq> 0 \<and> led_value \<noteq> 1 then (node_nack (cmd_sequence cmd) ''invalid_led'', context)
          else node_execute cmd led_value context)"

text \<open>The reply to a frame and the context after it; \<open>None\<close> for the frames the node ignores.\<close>

definition node_reply :: "parsed_frame \<Rightarrow> node_context \<Rightarrow> ((frame_error + nat) \<times> string option) option \<times> node_context" where
  "node_reply frame context =
     (case frame_get_message_type (Some frame) of
        FRAME_MESSAGE_CMD \<Rightarrow>
          (case frame_decode_command (Some frame) (Some zero_frame_command) of (ok, out) \<Rightarrow>
             if ok then (case node_answer_command (the out) context of (reply, context1) \<Rightarrow> (Some reply, context1))
             else (Some (node_nack 0 ''bad_cmd''), context))
      | _ \<Rightarrow> (None, context))"

lemmas node_reply_defs = node_reply_def node_answer_command_def node_execute_def node_nack_def

definition node_send_reply :: "(nat \<Rightarrow> nat) \<Rightarrow> node_context \<Rightarrow> (frame_error + nat) \<times> string option \<Rightarrow> sent list \<Rightarrow> sent list" where
  "node_send_reply os context built log =
     (case built of
        (Inl e, reply) \<Rightarrow> log
      | (Inr reply_length, reply) \<Rightarrow> snd (send_logged os (nc_fd context) (take reply_length (the reply)) log))"

definition on_node_frame :: "(nat \<Rightarrow> nat) \<Rightarrow> parsed_frame \<Rightarrow> node_context \<times> sent list \<Rightarrow> node_context \<times> sent list" where
  "on_node_frame os frame s =
     (case s of (context, log) \<Rightarrow>
       (case node_reply frame context of
          (None, context1) \<Rightarrow> (context1, log)
        | (Some built, context1) \<Rightarrow> (context1, node_send_reply os context1 built log)))"

lemmas on_node_frame_defs = on_node_frame_def node_send_reply_def

section \<open>The serial node\<close>

record mock_node_app =
  app_fd :: int
  app_fail_every :: int

definition mock_node_app_init :: "int \<Rightarrow> mock_node_app" where
  "mock_node_app_init fd = \<lparr>app_fd = fd, app_fail_every = 0\<rparr>"

record node_turn =
  mt_wait :: poll_answer
  mt_read :: read_answer
  mt_now :: int

definition node_fields :: "u32 \<Rightarrow> frame_kv list" where
  "node_fields sequence =
     (let temperature_x10 = 250 + int (unat (sequence mod 10)); humidity_x10 = 500 + int (unat (sequence mod 20)) in
      [\<lparr>kv_key = ''DEV'', kv_value = print_d 1\<rparr>,
       \<lparr>kv_key = ''T'', kv_value = print_d temperature_x10\<rparr>,
       \<lparr>kv_key = ''H'', kv_value = print_d humidity_x10\<rparr>,
       \<lparr>kv_key = ''P'', kv_value = print_d (1013 + int (unat (sequence mod 10)))\<rparr>])"

text \<open>The first component is the return value; the state: context, log, parser, sequence, time of the next report.\<close>

type_synonym node_state = "(node_context \<times> sent list) \<times> frame_parser \<times> u32 \<times> int"

fun mock_node_loop :: "(nat \<Rightarrow> nat) \<Rightarrow> int \<Rightarrow> node_turn list \<Rightarrow> node_state \<Rightarrow> int \<times> node_state" where
  "mock_node_loop os fd [] s = (0, s)"
| "mock_node_loop os fd (t # ts) (u, parser, sequence, next_report) =
     (case (if serial_port_wait_readable (mt_wait t) fd 100 = SERIAL_WAIT_READABLE
            then (case mt_read t of
                    Bytes bytes \<Rightarrow>
                      if bytes = [] then (parser, u)
                      else (case frame_parser_feed (Some (on_node_frame os)) parser (Some bytes) u of (p, u', n) \<Rightarrow> (p, u'))
                  | _ \<Rightarrow> (parser, u))
            else (parser, u)) of
        (parser1, context1, log1) \<Rightarrow>
          if mt_now t < next_report then mock_node_loop os fd ts ((context1, log1), parser1, sequence, next_report)
          else
            (case frame_build_data_kv (Some []) FRAME_MAX_LEN (Some ''NODE01'') sequence (Some (node_fields sequence)) 4 of
               (Inl e, frame) \<Rightarrow> (1, (context1, log1), parser1, sequence, next_report)
             | (Inr frame_length, frame) \<Rightarrow>
                 (case send_logged os fd (take frame_length (the frame)) log1 of (ok, log2) \<Rightarrow>
                    if \<not> ok then (1, (context1, log2), parser1, sequence, next_report)
                    else mock_node_loop os fd ts ((context1, log2), parser1, (sequence + 1) mod 1000000, mt_now t + 5))))"

definition mock_node_app_run :: "(nat \<Rightarrow> nat) \<Rightarrow> mock_node_app \<Rightarrow> int \<Rightarrow> node_turn list \<Rightarrow> int \<times> node_state" where
  "mock_node_app_run os app start ts =
     mock_node_loop os (app_fd app) ts
       ((\<lparr>nc_fd = app_fd app, nc_led_state = 0, nc_fail_every = app_fail_every app, nc_fail_counter = 0\<rparr>, []),
        frame_parser_init, 0, start)"

text \<open>\<^verbatim>\<open>mock_node.c\<close>: the exit code and the state after the run; \<open>fd\<close> is the answer of \<open>open\<close>.\<close>

definition mock_node_main :: "(nat \<Rightarrow> nat) \<Rightarrow> string list \<Rightarrow> int \<Rightarrow> int \<Rightarrow> node_turn list \<Rightarrow> int \<times> node_state option" where
  "mock_node_main os args fd start ts =
     (let fail_every = (if 2 \<le> length args then (if atoi (args ! 1) < 0 then 0 else atoi (args ! 1)) else 0) in
      if fd < 0 then (1, None)
      else (0, Some (snd (mock_node_app_run os ((mock_node_app_init fd)\<lparr>app_fail_every := fail_every\<rparr>) start ts))))"

section \<open>The Wi-Fi node\<close>

definition wifi_node_parse_port :: "string option \<Rightarrow> u16 option" where
  "wifi_node_parse_port s =
     (case s of
        None \<Rightarrow> None
      | Some t \<Rightarrow>
          if t = [] then None
          else (case strtol10 t of (v, rest, range_error) \<Rightarrow>
            if range_error \<or> rest = t \<or> rest \<noteq> [] \<or> v < 1 \<or> 65535 < v then None else Some (word_of_int v)))"

definition wifi_node_data :: "string \<Rightarrow> u32 \<Rightarrow> frame_data" where
  "wifi_node_data node_id sequence =
     \<lparr>data_node_id = fst (snprintf 32 node_id), data_sequence = sequence,
      data_fields = [\<lparr>kv_key = ''LIGHT_RAW'', kv_value = print_d (2000 + int (unat (sequence mod 1000)))\<rparr>]\<rparr>"

text \<open>\<open>n\<close> turns of the loop: the return code, unless the loop ended, the next sequence number and what was sent.\<close>

fun wifi_node_loop :: "(nat \<Rightarrow> nat) \<Rightarrow> int \<Rightarrow> string \<Rightarrow> nat \<Rightarrow> u32 \<times> sent list \<Rightarrow> int option \<times> u32 \<times> sent list" where
  "wifi_node_loop os sockfd node_id 0 s = (None, s)"
| "wifi_node_loop os sockfd node_id (Suc n) (sequence, log) =
     (case message_json_build_data (Some []) 256 (Some (wifi_node_data node_id sequence)) of
        (None, json) \<Rightarrow> (Some (-1), sequence, log)
      | (Some json_length, json) \<Rightarrow>
          (case send_logged os sockfd (take json_length (the json)) log of (ok, log1) \<Rightarrow>
             if \<not> ok then (None, sequence, log1)
             else wifi_node_loop os sockfd node_id n (sequence + 1, log1)))"

definition wifi_node_install_signal_handlers :: "int \<Rightarrow> int \<Rightarrow> int \<Rightarrow> int" where
  "wifi_node_install_signal_handlers sigint sigterm sigpipe =
     (if sigint < 0 then -1 else if sigterm < 0 then -1 else if sigpipe < 0 then -1 else 0)"

text \<open>The answers are those of \<open>socket\<close>, \<open>inet_pton\<close>, \<open>connect\<close> and the three calls of \<open>sigaction\<close>.\<close>

definition wifi_node_main :: "(nat \<Rightarrow> nat) \<Rightarrow> string list \<Rightarrow> int \<Rightarrow> bool \<Rightarrow> bool \<Rightarrow> int \<Rightarrow> int \<Rightarrow> int \<Rightarrow> nat
    \<Rightarrow> int \<times> sent list" where
  "wifi_node_main os args sockfd pton_ok connect_ok sigint sigterm sigpipe n =
     (if length args \<noteq> 3 then (1, [])
      else if wifi_node_parse_port (Some (args ! 1)) = None then (1, [])
      else if sockfd < 0 then (1, [])
      else if \<not> pton_ok then (1, [])
      else if \<not> connect_ok then (1, [])
      else if wifi_node_install_signal_handlers sigint sigterm sigpipe \<noteq> 0 then (1, [])
      else
        (case wifi_node_loop os sockfd (args ! 2) n (1, []) of
           (Some code, sequence, log) \<Rightarrow> (code, log)
         | (None, sequence, log) \<Rightarrow> (0, log)))"

end
