(* ===== verification/Round_Trip.thy ===== *)
theory Round_Trip
  imports Mock_Node Report_Path Command_Path
begin

text \<open>
  The way back of a command: the node of \<^verbatim>\<open>tools/mock_node_app.c\<close> answers it with a frame, the gateway turns
  the frame into a JSON message, and the server settles the command. With \<open>Command_Path\<close>, which ends
  with the frame that the node receives, this closes the circle.
\<close>

section \<open>Feeding a parser with any callback\<close>

lemma frame_parser_byte_logged:
  "frame_parser_byte (Some cb) b (p, fold cb fs u, n) =
     (case frame_parser_byte log_frame b (p, fs, n) of (p', fs', n') \<Rightarrow> (p', fold cb fs' u, n'))"
  by (auto simp: frame_parser_byte_def finish_line_def Let_def split: validate_result.split)

lemma frame_parser_bytes_logged:
  "fold (frame_parser_byte (Some cb)) bs (p, fold cb fs u, n) =
     (case fold (frame_parser_byte log_frame) bs (p, fs, n) of (p', fs', n') \<Rightarrow> (p', fold cb fs' u, n'))"
proof (induction bs arbitrary: p fs n)
  case (Cons b bs)
  obtain p1 fs1 n1 where 1: "frame_parser_byte log_frame b (p, fs, n) = (p1, fs1, n1)" by (metis prod_cases3)
  then have "frame_parser_byte (Some cb) b (p, fold cb fs u, n) = (p1, fold cb fs1 u, n1)"
    by (simp add: frame_parser_byte_logged)
  with 1 Cons.IH show ?case by simp
qed simp

lemma frame_parser_feed_logged:
  assumes "snd (frame_parser_feed log_frame p (Some bytes) []) = (fs, n)"
  shows "snd (frame_parser_feed (Some cb) p (Some bytes) u) = (fold cb fs u, n)"
  using frame_parser_bytes_logged [of cb bytes p "[]" u 0] assms
  by (auto simp: frame_parser_feed_def split: prod.splits)

section \<open>What the node answers\<close>

text \<open>The answer a command deserves.\<close>

definition node_answer :: "parsed_frame \<Rightarrow> node_context \<Rightarrow> report" where
  "node_answer f ctx =
     (case frame_decode_command (Some f) (Some zero_frame_command) of (ok, out) \<Rightarrow>
        let n = cmd_sequence (the out) mod 1000000;
            refuse = (\<lambda>n e. Nack_Report \<lparr>nack_node_id = ''NODE01'', nack_sequence = n, nack_error = e\<rparr>) in
        if \<not> ok then refuse 0 ''bad_cmd''
        else
          (case frame_fields_find (Some (cmd_fields (the out))) (Some ''LED'') of
             None \<Rightarrow> refuse n ''unsupported_cmd''
           | Some t \<Rightarrow>
               if atoi t \<notin> {0, 1} then refuse n ''invalid_led''
               else if 0 < nc_fail_every ctx \<and> nc_fail_every ctx dvd (nc_fail_counter ctx + 1)
               then refuse n ''sim_fault''
               else Ack_Report \<lparr>ack_node_id = ''NODE01'', ack_sequence = n,
                                 ack_fields = [\<lparr>kv_key = ''LED'', kv_value = print_d (atoi t)\<rparr>]\<rparr>))"

text \<open>A reply is a frame that every parser delivers once and that decodes to the answer.\<close>

definition carries :: "(frame_error + nat) \<times> string option \<Rightarrow> report \<Rightarrow> bool" where
  "carries b r = (\<exists>frame. b = (Inr (length frame), Some frame) \<and> length frame < 256 \<and>
     (\<forall>p. \<exists>f. snd (frame_parser_feed log_frame p (Some frame) []) = ([f], 1) \<and> frame_report_value f = Some r))"

lemma node_id_facts: "node_id_is_valid (Some ''NODE01'')" "id_fits ''NODE01''"
  by (simp_all add: node_id_is_valid_def id_char_ok_def frame_consts id_fits_def)

lemma nack_carried:
  assumes "node_id_is_valid (Some e)" "id_fits e" "length e < 32"
  shows "carries (frame_build_nack (Some []) FRAME_MAX_LEN (Some ''NODE01'') n (Some e))
     (Nack_Report \<lparr>nack_node_id = ''NODE01'', nack_sequence = n mod 1000000, nack_error = e\<rparr>)"
proof -
  let ?q = "nack_payload ''NODE01'' (unat (n mod 1000000)) e"
  have "unat (n mod 1000000) < 1000000" by (simp add: unat_mod)
  then have l: "length ?q < 64" using assms(3) by (simp add: nack_payload_def)
  have b: "frame_build_nack (Some []) FRAME_MAX_LEN (Some ''NODE01'') n (Some e) = (Inr (length (frame_of ?q)), Some (frame_of ?q))"
    unfolding frame_build_nack_Inr Let_def frame_of_length using l assms(1) node_id_facts(1) by (simp add: frame_consts)
  have "\<exists>f. snd (frame_parser_feed log_frame p (Some (frame_of ?q)) []) = ([f], 1) \<and> frame_report_value f =
      Some (Nack_Report \<lparr>nack_node_id = ''NODE01'', nack_sequence = n mod 1000000, nack_error = e\<rparr>)" for p
    using frame_nack_roundtrip [OF b _ node_id_facts(2) assms(2), of p zero_frame_nack]
    by (auto simp: frame_consts frame_report_value_def)
  then show ?thesis using l by (auto simp: carries_def b frame_of_length)
qed

lemma ack_carried:
  assumes "v = 0 \<or> v = 1"
  shows "carries (frame_build_ack_kv (Some []) FRAME_MAX_LEN (Some ''NODE01'') n (Some [\<lparr>kv_key = ''LED'', kv_value = print_d v\<rparr>]) 1)
     (Ack_Report \<lparr>ack_node_id = ''NODE01'', ack_sequence = n mod 1000000, ack_fields = [\<lparr>kv_key = ''LED'', kv_value = print_d v\<rparr>]\<rparr>)"
proof -
  let ?fs = "[\<lparr>kv_key = ''LED'', kv_value = print_d v\<rparr>]"
  let ?q = "kv_payload ''NODE01'' (unat (n mod 1000000)) ''ACK'' ?fs"
  have p: "print_d 0 = ''0''" "print_d 1 = ''1''" by (simp_all add: print_compute)
  have "unat (n mod 1000000) < 1000000" by (simp add: unat_mod)
  then have l: "length ?q < 64" using assms p by (auto simp: kv_payload_def kv_text_def)
  have fs: "list_all field_ok ?fs" "list_all field_fits ?fs"
    using assms p by (auto simp: field_ok_def field_text_is_valid_def field_char_ok_def field_fits_def frame_consts)
  have b: "frame_build_ack_kv (Some []) FRAME_MAX_LEN (Some ''NODE01'') n (Some ?fs) (length ?fs) = (Inr (length (frame_of ?q)), Some (frame_of ?q))"
    unfolding frame_build_ack_kv_def build_kv_frame_Inr Let_def frame_of_length using l fs(1) node_id_facts(1) by (simp add: frame_consts)
  have "\<exists>f. snd (frame_parser_feed log_frame p (Some (frame_of ?q)) []) = ([f], 1) \<and> frame_report_value f =
      Some (Ack_Report \<lparr>ack_node_id = ''NODE01'', ack_sequence = n mod 1000000, ack_fields = ?fs\<rparr>)" for p
    using frame_ack_roundtrip [OF b _ node_id_facts(2) fs(2), of p zero_frame_ack]
    by (auto simp: frame_consts frame_report_value_def)
  then show ?thesis using l b by (auto simp: carries_def frame_of_length)
qed

lemma decoded_command_type:
  "frame_decode_command (Some f) (Some zero_frame_command) = (True, out) \<Longrightarrow> frame_get_message_type (Some f) = FRAME_MESSAGE_CMD"
  by (auto simp: frame_decode_command_def parse_kv_payload_def frame_get_message_type_def Let_def split: if_splits option.splits prod.splits)

lemma node_reply_carries:
  assumes "frame_get_message_type (Some f) = FRAME_MESSAGE_CMD"
  shows "\<exists>b ctx'. node_reply f ctx = (Some b, ctx') \<and> nc_fd ctx' = nc_fd ctx \<and> carries b (node_answer f ctx)"
proof -
  have e: "node_id_is_valid (Some ''bad_cmd'')" "node_id_is_valid (Some ''unsupported_cmd'')"
    "node_id_is_valid (Some ''invalid_led'')" "node_id_is_valid (Some ''sim_fault'')"
    by (simp_all add: node_id_is_valid_def id_char_ok_def frame_consts)
  note nacks = e [THEN nack_carried]
  obtain ok out where d: "frame_decode_command (Some f) (Some zero_frame_command) = (ok, out)" by fastforce
  show ?thesis
  proof (cases "ok \<and> frame_fields_find (Some (cmd_fields (the out))) (Some ''LED'') \<noteq> None")
    case False
    then show ?thesis using nacks(1) [of 0] nacks(2) [of "cmd_sequence (the out)"]
      by (auto simp: node_reply_defs assms d node_answer_def id_fits_def Let_def simp del: split_paired_Ex)
  next
    case True
    then obtain t where t: "ok" "frame_fields_find (Some (cmd_fields (the out))) (Some ''LED'') = Some t" by auto
    show ?thesis using nacks(3,4) [of "cmd_sequence (the out)"] ack_carried [of "atoi t" "cmd_sequence (the out)"]
      by (auto simp: node_reply_defs assms d t node_answer_def id_fits_def Let_def dvd_eq_mod_eq_0 simp del: split_paired_Ex)
  qed
qed

text \<open>C38: The node answers: whatever frame it receives, it sends nothing unless the frame is a CMD frame, and
  then exactly one frame, which every parser, in any state, delivers once and which decodes to the
  answer that the command deserves, under its number: an ACK that repeats the LED value for a valid
  command, and a NACK that names the reason for an unreadable one, one without LED, one with another
  value than 0 and 1, and every \<open>fail_every\<close>-th valid one.\<close>
theorem node_answers_commands:
  assumes "0 \<le> nc_fd ctx"
  shows "case on_node_frame os f (ctx, log) of (ctx', log') \<Rightarrow>
     if frame_get_message_type (Some f) \<noteq> FRAME_MESSAGE_CMD then ctx' = ctx \<and> log' = log
     else (\<exists>frame n. log' = log @ [\<lparr>sent_fd = nc_fd ctx, sent_data = frame, sent_count = n\<rparr>]
       \<and> (\<forall>p. \<exists>f'. snd (frame_parser_feed (Some (\<lambda>f log. log @ [f])) p (Some frame) []) = ([f'], 1)
            \<and> frame_report_value f' = Some (node_answer f ctx)))"
proof (cases "frame_get_message_type (Some f) = FRAME_MESSAGE_CMD")
  case True
  from node_reply_carries [OF this, of ctx] obtain b ctx' where
    r: "node_reply f ctx = (Some b, ctx')" "nc_fd ctx' = nc_fd ctx" "carries b (node_answer f ctx)" by blast
  from r(3) obtain frame where b: "b = (Inr (length frame), Some frame)"
    "\<forall>p. \<exists>f'. snd (frame_parser_feed log_frame p (Some frame) []) = ([f'], 1) \<and> frame_report_value f' = Some (node_answer f ctx)"
    by (auto simp: carries_def)
  show ?thesis using True assms b(2) by (simp add: on_node_frame_defs r(1,2) b(1) send_logged_def Let_def)
next
  case False
  then show ?thesis by (simp add: on_node_frame_defs node_reply_defs split: frame_message_type.split)
qed

text \<open>An example: command 1, \<open>LED=1\<close>.\<close>

definition example_frame :: parsed_frame where
  "example_frame = \<lparr>raw = [], payload = ''1,GATEWAY,000001,CMD,LED=1'', received_crc = 0, calculated_crc = 0\<rparr>"

definition example_node :: node_context where
  "example_node = \<lparr>nc_fd = 6, nc_led_state = 0, nc_fail_every = 0, nc_fail_counter = 0\<rparr>"

lemma example_frame_command:
  "frame_decode_command (Some example_frame) (Some zero_frame_command) =
     (True, Some \<lparr>cmd_target_node = [], cmd_sender = ''GATEWAY'', cmd_sequence = 1, cmd_fields = [\<lparr>kv_key = ''LED'', kv_value = print_d 1\<rparr>]\<rparr>)"
proof -
  have t: "strtok_all (CHR '','') ''1,GATEWAY,000001,CMD,LED=1'' = [''1'', ''GATEWAY'', ''000001'', ''CMD'', ''LED=1'']"
    by (simp add: strtok_all_def)
  have n: "parse_uint32_decimal ''000001'' = Some 1"
    by (simp add: parse_uint32_decimal_def strtoul10_def is_space_def strip_sign_def is_digit_def dec_value_def digit_val_def)
  have k: "parse_kv_token ''LED=1'' = Some \<lparr>kv_key = ''LED'', kv_value = ''1''\<rparr>"
    by (simp add: parse_kv_token_def frame_consts Let_def)
  have p: "print_d 1 = ''1''" by (simp add: print_compute)
  show ?thesis by (simp add: example_frame_def frame_decode_command_def parse_kv_payload_def t n k p frame_consts)
qed

theorem node_answers_commands_witness:
  "\<exists>frame n f'. snd (on_node_frame (\<lambda>i. 3) example_frame (example_node, [])) = [\<lparr>sent_fd = 6, sent_data = frame, sent_count = n\<rparr>]
     \<and> snd (frame_parser_feed log_frame frame_parser_init (Some frame) []) = ([f'], 1)
     \<and> frame_report_value f' = Some (node_answer example_frame example_node)"
proof -
  have "0 \<le> nc_fd example_node" "nc_fd example_node = 6" by (simp_all add: example_node_def)
  with node_answers_commands [where ctx = example_node and os = "\<lambda>i. 3" and f = example_frame and log = "[]"] decoded_command_type [OF example_frame_command]
  show ?thesis by (auto split: prod.splits)
qed

section \<open>The answer settles the command\<close>

abbreviation led_ack :: "u32 \<Rightarrow> int \<Rightarrow> frame_ack" where
  "led_ack n v \<equiv> \<lparr>ack_node_id = ''NODE01'', ack_sequence = n, ack_fields = [\<lparr>kv_key = ''LED'', kv_value = print_d v\<rparr>]\<rparr>"

lemma node_acknowledges:
  assumes command: "frame_decode_command (Some f) (Some zero_frame_command) =
      (True, Some \<lparr>cmd_target_node = [], cmd_sender = sender, cmd_sequence = n, cmd_fields = [\<lparr>kv_key = ''LED'', kv_value = print_d v\<rparr>]\<rparr>)"
      "v = 0 \<or> v = 1" "n mod 1000000 = n"
    and node: "0 \<le> nc_fd ctx" "\<not> (0 < nc_fail_every ctx \<and> nc_fail_every ctx dvd (nc_fail_counter ctx + 1))"
  obtains ctx' x f' where "on_node_frame os f (ctx, log) = (ctx', log @ [x])" "nc_led_state ctx' = v"
    "snd (frame_parser_feed log_frame p (Some (sent_data x)) []) = ([f'], 1)" "frame_report_value f' = Some (Ack_Report (led_ack n v))"
proof -
  note cmd = decoded_command_type [OF command(1)]
  have atoi: "atoi (print_d v) = v" using command(2) led_values(3) [OF command(2)] by (auto simp: atoi_def)
  have found: "frame_fields_find (Some [\<lparr>kv_key = ''LED'', kv_value = print_d v\<rparr>]) (Some ''LED'') = Some (print_d v)"
    by (simp add: frame_fields_find_def)
  have answer: "node_answer f ctx = Ack_Report (led_ack n v)"
    using command(2,3) node(2) by (auto simp: node_answer_def command(1) found atoi Let_def)
  obtain b ctx' where r: "node_reply f ctx = (Some b, ctx')" "nc_fd ctx' = nc_fd ctx" "carries b (Ack_Report (led_ack n v))"
    using node_reply_carries [OF cmd, of ctx] answer by auto
  have led: "nc_led_state ctx' = v"
    using r(1) cmd command node(2) by (auto simp: node_reply_defs found atoi Let_def dvd_eq_mod_eq_0)
  from r(3) obtain frame where b: "b = (Inr (length frame), Some frame)" and
    all: "\<forall>p. \<exists>f'. snd (frame_parser_feed log_frame p (Some frame) []) = ([f'], 1) \<and> frame_report_value f' = Some (Ack_Report (led_ack n v))"
    by (auto simp: carries_def)
  obtain x where "on_node_frame os f (ctx, log) = (ctx', log @ [x])" "sent_data x = frame"
    using node(1) by (auto simp: on_node_frame_defs r(1,2) b send_logged_def Let_def)
  with all led show ?thesis using that by blast
qed

lemma led_ack_text:
  assumes "v = 0 \<or> v = 1"
  shows "length (json_ack_text (led_ack n v)) < 256" "report_safe (Ack_Report (led_ack n v))"
proof -
  have p: "print_d 0 = ''0''" "print_d 1 = ''1''" by (simp_all add: print_compute)
  have "length (print_u (unat n)) \<le> 10"
    using print_u_length [of "unat n" 10] unsigned_less [of n, where 'a = nat] by simp
  then show "length (json_ack_text (led_ack n v)) < 256"
    using assms p by (auto simp: json_ack_text_def json_device_text_def json_string_text_def json_quoted_def json_seq_text_def
        json_fields_member_def json_field_text_def)
  show "report_safe (Ack_Report (led_ack n v))"
    using assms p by (auto simp: line_safe_def json_clean_def fields_safe_def json_field_ok_def)
qed

text \<open>C39: The circle closes: let a node receive the frame of a command that sets its LED to 0 or 1 and not
  simulate a fault. Then it switches its LED and sends one frame; the gateway, to whose connection the
  node is bound, reads this frame in any state of its parser and pushes exactly one message; and when
  the server, for which the command is the \<open>i\<close>-th of its table and still waiting, receives the line of
  this message, the command becomes ACKED and nothing else changes.\<close>
theorem answer_settles_command:
  assumes command: "frame_decode_command (Some f) (Some zero_frame_command) =
      (True, Some \<lparr>cmd_target_node = [], cmd_sender = sender, cmd_sequence = n, cmd_fields = [\<lparr>kv_key = ''LED'', kv_value = print_d v\<rparr>]\<rparr>)"
      "v = 0 \<or> v = 1"
    and node: "0 \<le> nc_fd ctx" "\<not> (0 < nc_fail_every ctx \<and> nc_fail_every ctx dvd (nc_fail_counter ctx + 1))"
    and gateway: "dm_inv (gw_devices g)" "up_bound_node_id up = ''NODE01''" "''NODE01'' \<in> dom (dm_abs (gw_devices g))" "now \<noteq> -1"
    and server: "cm_filled k m" "unat n = i + 1" "i < k" "ce_target_node (entries m ! i) = ''NODE01''"
      "ce_state (entries m ! i) = COMMAND_STATE_WAITING"
  shows "\<exists>ctx' x g' message. on_node_frame os f (ctx, log) = (ctx', log @ [x])
     \<and> nc_led_state ctx' = v
     \<and> snd (frame_parser_feed (Some (gateway_app_on_frame now)) p (Some (sent_data x)) (g, up)) = ((g', up), 1)
     \<and> gw_pushed g' = gw_pushed g @ [message]
     \<and> on_line now' (butlast (message_bytes message)) (store, m) =
         (store, m\<lparr>entries := (entries m)[i := (entries m ! i)\<lparr>ce_state := COMMAND_STATE_ACKED\<rparr>]\<rparr>)"
proof -
  let ?t = "json_ack_text (led_ack n v)"
  have "k \<le> 64" using server(1) by (simp add: cm_filled_def)
  then have "unat n < 1000000" using server(2,3) by simp
  then have n: "n mod 1000000 = n" by (simp add: word_arith_nat_mod)
  obtain ctx' x f' where x: "on_node_frame os f (ctx, log) = (ctx', log @ [x])" "nc_led_state ctx' = v"
    and f': "snd (frame_parser_feed log_frame p (Some (sent_data x)) []) = ([f'], 1)" "frame_report_value f' = Some (Ack_Report (led_ack n v))"
    by (rule node_acknowledges [OF command n node])
  have report: "frame_report f' = Some (''NODE01'', ?t)" by (simp add: frame_report_value f'(2))
  obtain g' where g': "gateway_app_on_frame now f' (g, up) = (g', up)" "gw_pushed g' = gw_pushed g @ [to_message ?t]"
    using handle_reports_bound [OF gateway(1,2) _ gateway(3,4), of "[frame_report f']"] led_ack_text(1) [OF command(2), of n]
    by (auto simp: on_frame_report report reports_for_def split: prod.splits)
  have fed: "snd (frame_parser_feed (Some (gateway_app_on_frame now)) p (Some (sent_data x)) (g, up)) = ((g', up), 1)"
    using frame_parser_feed_logged [OF f'(1), of "gateway_app_on_frame now" "(g, up)"] g'(1) by simp
  have "snd (command_manager_on_ack m (Some (led_ack n v))) =
      m\<lparr>entries := (entries m)[i := (entries m ! i)\<lparr>ce_state := COMMAND_STATE_ACKED\<rparr>]\<rparr>"
    using server by (simp add: command_manager_on_ack_def answer_eq [OF server(1)] Let_def)
  then have "on_line now' (butlast (message_bytes (to_message ?t))) (store, m) =
      (store, m\<lparr>entries := (entries m)[i := (entries m ! i)\<lparr>ce_state := COMMAND_STATE_ACKED\<rparr>]\<rparr>)"
    using on_line_report [OF led_ack_text(2) [OF command(2)], of now' n "(store, m)"] by (simp add: to_message_def)
  with x fed g'(2) show ?thesis by blast
qed

definition node01_device :: device where
  "node01_device = zero_device\<lparr>dev_node_id := ''NODE01'', dev_fd := 5, dev_online := True, dev_thread_id := 1\<rparr>"

lemma node01_gateway:
  "dm_inv (gw_devices (example_gateway\<lparr>gw_devices := \<lparr>devices = [node01_device]\<rparr>\<rparr>))"
  "''NODE01'' \<in> dom (dm_abs (gw_devices (example_gateway\<lparr>gw_devices := \<lparr>devices = [node01_device]\<rparr>\<rparr>)))"
proof -
  have "dev_queue_inv node01_device" "dev_pending node01_device = []"
    by (simp_all add: dev_queue_inv_def node01_device_def zero_device_def dm_consts dev_pending_def ring_contents_def)
  then show "dm_inv (gw_devices (example_gateway\<lparr>gw_devices := \<lparr>devices = [node01_device]\<rparr>\<rparr>))"
    "''NODE01'' \<in> dom (dm_abs (gw_devices (example_gateway\<lparr>gw_devices := \<lparr>devices = [node01_device]\<rparr>\<rparr>)))"
    by (simp_all add: dm_inv_def dev_ok_def dm_consts dm_abs_def table_map_def dom_def) (simp_all add: node01_device_def)
qed

theorem answer_settles_command_witness:
  "\<exists>x g' message m'. snd (on_node_frame (\<lambda>i. 99) example_frame (example_node, [])) = [x]
     \<and> snd (frame_parser_feed (Some (gateway_app_on_frame 20)) frame_parser_init (Some (sent_data x))
          (example_gateway\<lparr>gw_devices := \<lparr>devices = [node01_device]\<rparr>\<rparr>, example_upstream ''NODE01'' 1))
        = ((g', example_upstream ''NODE01'' 1), 1)
     \<and> on_line 21 (butlast (message_bytes message))
          (\<lparr>ns_entries = [], ns_capacity = 64\<rparr>,
           \<lparr>entries = (entries cm_start)[0 := led_entry 0 ''NODE01'' 1 9], next_sequence = 2\<rparr>)
        = (\<lparr>ns_entries = [], ns_capacity = 64\<rparr>, m')
     \<and> ce_state (entries m' ! 0) = COMMAND_STATE_ACKED"
proof -
  let ?m = "\<lparr>entries = (entries cm_start)[0 := led_entry 0 ''NODE01'' 1 9], next_sequence = 2\<rparr>"
  have "send_args_ok (Some ''NODE01'') (Some ''GATEWAY'') (Some [\<lparr>kv_key = ''LED'', kv_value = print_d 1\<rparr>]) 1"
    by (simp add: send_args_ok_def)
  from send_filled [OF cm_start_filled this, of 9] have m: "cm_filled 1 ?m" by (simp add: led_entry_def)
  then have l: "length (entries ?m) = 64" by (simp add: cm_filled_def)
  have e: "ce_target_node (entries ?m ! 0) = ''NODE01''" "ce_state (entries ?m ! 0) = COMMAND_STATE_WAITING"
    using l by (simp_all add: led_entry_def sent_entry_def)
  have node: "0 \<le> nc_fd example_node" "\<not> (0 < nc_fail_every example_node \<and> nc_fail_every example_node dvd (nc_fail_counter example_node + 1))"
    by (simp_all add: example_node_def)
  have up: "up_bound_node_id (example_upstream ''NODE01'' 1) = ''NODE01''" by (simp add: example_upstream_def)
  from answer_settles_command [OF example_frame_command _ node node01_gateway(1) up node01_gateway(2) _ m _ _ e, where now = 20 and now' = 21
      and os = "\<lambda>i. 99" and log = "[]" and p = frame_parser_init and store = "\<lparr>ns_entries = [], ns_capacity = 64\<rparr>"] l
  show ?thesis by fastforce
qed

end
