(* ===== verification/Gateway_System.thy ===== *)
theory Gateway_System
  imports Worker_Settlement Server_Link
begin

text \<open>
  The whole gateway as one system: any number of workers, each with the connection to a node, the
  upstream queue between them and the thread of the server connection, and the device manager they
  share. The other theories look at one thread and let the others do what their laws allow; here
  nobody is outside. A step of the system is what a thread does between two points where it may have
  to wait for another: one call of a handler up to its call of the device manager and its sending, one
  \<open>message_queue_push\<close>, one part of a turn of the server thread. A worker pushes its messages one by
  one, each as soon as there is room, so they wait in its outbox, and it does nothing else
  before the outbox is empty. The network, the nodes, the server and the scheduler are free:
  the steps take any bytes, any answer of the system, in any order. Of a frame or a line from a node only
  this is assumed, that it has no line feed: the parsers deliver no others (\<open>Line_Safety\<close>, \<open>Line_Parser\<close>).

  A worker that takes a command out of a queue and writes it does both in one step here: the write
  is on its own descriptor, and no other thread can see that it comes later. The lemmas: the steps of
  the server thread, taken without interruption, are the turns of \<open>server_link_worker\<close>.
\<close>

section \<open>States\<close>

datatype worker_phase = Serving | Lost | Leaving

record worker =
  wk_up :: upstream_context
  wk_phase :: worker_phase
  wk_outbox :: "gateway_message list"

text \<open>Where the server thread is in its turn; a turn has the four parts of \<open>server_link_turn\<close>.\<close>

datatype link_phase = At_Top | At_Connect | At_Send | At_Receive | At_Lines | Link_Ended

text \<open>
  \<open>sy_link\<close> has the gateway, the queue and the variables of the server thread, \<open>sy_lines\<close> the lines
  it has found in its buffer and has yet to handle. \<open>sy_workers\<close> gives for a thread the connection it has. The last three fields are histories: the messages the workers
  wanted to push, those the queue took, and those it refused, each with its thread.
\<close>

record system =
  sy_link :: server_link
  sy_phase :: link_phase
  sy_lines :: "string list"
  sy_workers :: "nat \<Rightarrow> worker option"
  sy_produced :: "(nat \<times> gateway_message) list"
  sy_accepted :: "(nat \<times> gateway_message) list"
  sy_refused :: "(nat \<times> gateway_message) list"

abbreviation sy_gateway :: "system \<Rightarrow> gateway" where "sy_gateway s \<equiv> ln_gateway (sy_link s)"
abbreviation sy_queue :: "system \<Rightarrow> message_queue" where "sy_queue s \<equiv> ln_queue (sy_link s)"

text \<open>The start, after the initialisations in \<open>gateway_loop_run\<close>; \<open>items\<close> is what the memory holds.\<close>

definition system_start :: "string \<Rightarrow> u16 \<Rightarrow> gateway_message list \<Rightarrow> system" where
  "system_start server_ip server_port items =
     \<lparr>sy_link =
        \<lparr>ln_gateway = \<lparr>gw_context = gateway_app_init (Some server_ip) server_port,
                       gw_devices = snd (device_manager_init 0), gw_pushed = [], gw_sent = [], gw_history = []\<rparr>,
         ln_queue = snd (message_queue_init
           \<lparr>mq_items = items, mq_head = 0, mq_tail = 0, mq_count = 0, mq_shutting_down = False\<rparr> 0 0 0),
         ln_pending = None, ln_buffer = [], ln_done = []\<rparr>,
      sy_phase = At_Top, sy_lines = [], sy_workers = Map.empty, sy_produced = [], sy_accepted = [], sy_refused = []\<rparr>"

section \<open>Steps\<close>

text \<open>The two kinds of worker, by their transport.\<close>

definition worker_try_send :: "(nat \<Rightarrow> nat) \<Rightarrow> gateway \<times> upstream_context \<Rightarrow> send_result \<times> gateway \<times> upstream_context" where
  "worker_try_send os s =
     (case up_transport (snd s) of
        DEVICE_TRANSPORT_BLUETOOTH \<Rightarrow> bluetooth_worker_try_send_command os (up_device_fd (snd s)) s
      | _ \<Rightarrow> wifi_client_try_send_command os (up_device_fd (snd s)) s)"

definition worker_disconnect :: "gateway \<times> upstream_context \<Rightarrow> gateway" where
  "worker_disconnect s =
     (case up_transport (snd s) of
        DEVICE_TRANSPORT_BLUETOOTH \<Rightarrow> bluetooth_worker_disconnect (up_device_fd (snd s)) s
      | _ \<Rightarrow> wifi_client_disconnect (up_device_fd (snd s)) s)"

text \<open>What a worker gets from its node: a frame on the serial line, a line on Wi-Fi.\<close>

definition worker_report :: "int \<Rightarrow> parsed_frame \<Rightarrow> string \<Rightarrow> gateway \<times> upstream_context \<Rightarrow> gateway \<times> upstream_context" where
  "worker_report now frame line s =
     (case up_transport (snd s) of
        DEVICE_TRANSPORT_BLUETOOTH \<Rightarrow> gateway_app_on_frame now frame s
      | _ \<Rightarrow> gateway_app_on_wifi_line now line s)"

definition open_fds :: "system \<Rightarrow> int set" where
  "open_fds s = {up_device_fd (wk_up w) | t w. sy_workers s t = Some w}"

definition connect_worker :: "nat \<Rightarrow> device_transport \<Rightarrow> int \<Rightarrow> system \<Rightarrow> system" where
  "connect_worker t tr fd s =
     s\<lparr>sy_link := (sy_link s)\<lparr>ln_gateway :=
         (if tr = DEVICE_TRANSPORT_BLUETOOTH
          then (sy_gateway s)\<lparr>gw_context := (gw_context (sy_gateway s))\<lparr>gc_serial_connections :=
                  gc_serial_connections (gw_context (sy_gateway s)) + 1, gc_serial_fd := fd\<rparr>\<rparr>
          else sy_gateway s)\<rparr>,
       sy_workers := (sy_workers s)(t \<mapsto>
         \<lparr>wk_up = \<lparr>up_transport = tr, up_device_fd = fd, up_bound_node_id = [], up_thread = t\<rparr>,
          wk_phase = Serving, wk_outbox = []\<rparr>)\<rparr>"

text \<open>A worker has run: what it has to push is in its outbox.\<close>

definition worker_ran :: "nat \<Rightarrow> worker_phase \<Rightarrow> gateway \<times> upstream_context \<Rightarrow> system \<Rightarrow> system" where
  "worker_ran t phase r s =
     (case r of (g, up) \<Rightarrow>
       let out = drop (length (gw_pushed (sy_gateway s))) (gw_pushed g) in
       s\<lparr>sy_link := (sy_link s)\<lparr>ln_gateway := g\<rparr>,
         sy_workers := (sy_workers s)(t \<mapsto> \<lparr>wk_up = up, wk_phase = phase, wk_outbox = out\<rparr>),
         sy_produced := sy_produced s @ map (Pair t) out\<rparr>)"

definition remove_worker :: "nat \<Rightarrow> device_transport \<Rightarrow> system \<Rightarrow> system" where
  "remove_worker t tr s =
     s\<lparr>sy_link := (sy_link s)\<lparr>ln_gateway :=
         (if tr = DEVICE_TRANSPORT_BLUETOOTH then set_serial_fd (-1) (sy_gateway s) else sy_gateway s)\<rparr>,
       sy_workers := (sy_workers s)(t := None)\<rparr>"

text \<open>
  The server thread receives: on overflow it drops what it has, otherwise it looks for lines. When it
  ends, it closes its connection.
\<close>

definition link_received :: "string \<Rightarrow> server_link \<Rightarrow> string list \<times> server_link" where
  "link_received bytes l =
     (if SERVER_LINK_BUFFER_SIZE < length (ln_buffer l) + length bytes then ([], l\<lparr>ln_buffer := []\<rparr>)
      else
        (case line_parser_feed (Some (ln_buffer l @ bytes)) SERVER_LINK_BUFFER_SIZE (Some (\<lambda>line ls. ls @ [line])) [] of
           (rest, ls, n) \<Rightarrow> (ls, l\<lparr>ln_buffer := the rest\<rparr>)))"

definition link_ended :: "server_link \<Rightarrow> server_link" where
  "link_ended l =
     (if 0 \<le> gc_tcp_fd (gw_context (ln_gateway l))
      then l\<lparr>ln_gateway := (ln_gateway l)\<lparr>gw_context := (gw_context (ln_gateway l))\<lparr>gc_tcp_fd := -1\<rparr>\<rparr>\<rparr> else l)"

inductive system_step :: "system \<Rightarrow> system \<Rightarrow> bool" where
  connect: "sy_workers s t = None \<Longrightarrow> 0 \<le> fd \<Longrightarrow> fd \<notin> open_fds s \<Longrightarrow> system_step s (connect_worker t tr fd s)"
| report: "sy_workers s t = Some w \<Longrightarrow> wk_phase w = Serving \<Longrightarrow> wk_outbox w = []
     \<Longrightarrow> LF \<notin> set (payload frame) \<Longrightarrow> LF \<notin> set line
     \<Longrightarrow> system_step s (worker_ran t Serving (worker_report now frame line (sy_gateway s, wk_up w)) s)"
| try_send: "sy_workers s t = Some w \<Longrightarrow> wk_phase w = Serving \<Longrightarrow> wk_outbox w = []
     \<Longrightarrow> worker_try_send os (sy_gateway s, wk_up w) = (r, g, up)
     \<Longrightarrow> system_step s (worker_ran t (if r = Worker_Error then Lost else Serving) (g, up) s)"
| hang_up: "sy_workers s t = Some w \<Longrightarrow> wk_phase w \<noteq> Leaving \<Longrightarrow> wk_outbox w = []
     \<Longrightarrow> system_step s (worker_ran t Leaving (worker_disconnect (sy_gateway s, wk_up w), wk_up w) s)"
| close_fd: "sy_workers s t = Some w \<Longrightarrow> wk_phase w = Leaving \<Longrightarrow> wk_outbox w = []
     \<Longrightarrow> system_step s (remove_worker t (up_transport (wk_up w)) s)"
| push: "sy_workers s t = Some w \<Longrightarrow> wk_outbox w = m # ms
     \<Longrightarrow> message_queue_push (sy_queue s) (Some m) = (Some r, q)
     \<Longrightarrow> system_step s (s\<lparr>sy_link := (sy_link s)\<lparr>ln_queue := q\<rparr>,
           sy_workers := (sy_workers s)(t \<mapsto> w\<lparr>wk_outbox := ms\<rparr>),
           sy_accepted := sy_accepted s @ (if r = MESSAGE_QUEUE_OK then [(t, m)] else []),
           sy_refused := sy_refused s @ (if r = MESSAGE_QUEUE_OK then [] else [(t, m)])\<rparr>)"
| shutdown: "system_step s (s\<lparr>sy_link := (sy_link s)\<lparr>ln_queue := message_queue_shutdown (sy_queue s)\<rparr>\<rparr>)"
| link_pop: "sy_phase s = At_Top \<Longrightarrow> server_link_pop (sy_link s) = (go, l)
     \<Longrightarrow> system_step s (if go then s\<lparr>sy_link := l, sy_phase := At_Connect\<rparr>
           else s\<lparr>sy_link := link_ended l, sy_phase := Link_Ended\<rparr>)"
| link_connect: "sy_phase s = At_Connect \<Longrightarrow> server_link_connect turn (sy_link s) = (go, l)
     \<Longrightarrow> system_step s (s\<lparr>sy_link := l, sy_phase := (if go then At_Send else At_Top)\<rparr>)"
| link_send: "sy_phase s = At_Send \<Longrightarrow> server_link_send os now (sy_link s) = (go, l)
     \<Longrightarrow> system_step s (s\<lparr>sy_link := l, sy_phase := (if go then At_Receive else At_Top)\<rparr>)"
| link_receive: "sy_phase s = At_Receive \<Longrightarrow> bytes \<noteq> [] \<Longrightarrow> link_received bytes (sy_link s) = (ls, l)
     \<Longrightarrow> system_step s (s\<lparr>sy_link := l, sy_phase := At_Lines, sy_lines := ls\<rparr>)"
| link_line: "sy_phase s = At_Lines \<Longrightarrow> sy_lines s = line # ls
     \<Longrightarrow> system_step s (s\<lparr>sy_link := (sy_link s)\<lparr>ln_gateway := gateway_app_on_tcp_line os line (sy_gateway s)\<rparr>,
           sy_lines := ls\<rparr>)"
| link_next: "sy_phase s \<in> {At_Receive, At_Lines} \<Longrightarrow> sy_lines s = [] \<Longrightarrow> system_step s (s\<lparr>sy_phase := At_Top\<rparr>)"
| link_lost: "sy_phase s \<in> {At_Receive, At_Lines} \<Longrightarrow> sy_lines s = []
     \<Longrightarrow> system_step s (s\<lparr>sy_link := server_link_disconnect now (sy_link s), sy_phase := At_Top\<rparr>)"
| link_stop: "sy_phase s = At_Top
     \<Longrightarrow> system_step s (s\<lparr>sy_link := link_ended (sy_link s), sy_phase := Link_Ended\<rparr>)"

abbreviation system_steps :: "system \<Rightarrow> system \<Rightarrow> bool" where "system_steps \<equiv> system_step\<^sup>*\<^sup>*"

text \<open>What the two kinds of worker do is the same up to the decoder and the encoding.\<close>

lemma worker_disconnect_link: "worker_disconnect (g, up) = link_hang_up (up_device_fd up) (g, up)"
  by (simp add: worker_disconnect_def bluetooth_disconnect_link wifi_disconnect_link split: device_transport.split)

lemma worker_report_handle:
  "worker_report now frame line (g, up) =
     handle_report now (if up_transport up = DEVICE_TRANSPORT_BLUETOOTH then frame_report frame else line_report line) (g, up)"
  by (simp add: worker_report_def on_frame_report on_wifi_line_report split: device_transport.split)

lemma worker_report_cases:
  obtains r where "worker_report now frame line (g, up) = handle_report now r (g, up)"
    "\<And>node text. r = Some (node, text) \<Longrightarrow> reported_by (up_transport up) node text"
  by (rule that [OF worker_report_handle]) (auto simp: reported_by_def split: if_splits)

section \<open>The steps of the server thread are its turns\<close>

lemma feed_collected:
  assumes "line_parser_feed (Some b) cap (Some (\<lambda>line ls. ls @ [line])) [] = (rest, ls, n)"
  shows "line_parser_feed (Some b) cap (Some f) u = (rest, fold f ls u, n)"
proof -
  have collect: "fold (line_call (Some (\<lambda>line ls. ls @ [line]))) xs ls = ls @ map strip_cr xs" for xs ls
    by (induction xs arbitrary: ls) (simp_all add: line_call_def)
  have run: "fold (line_call (Some f)) xs u = fold f (map strip_cr xs) u" for xs u
    by (induction xs arbitrary: u) (simp_all add: line_call_def)
  show ?thesis
    using assms by (auto simp: line_parser_feed_def line_parser_loop_pieces collect run)
qed

lemma link_lines_steps:
  "sy_phase s = At_Lines \<Longrightarrow> sy_lines s = ls \<Longrightarrow>
   system_steps s (s\<lparr>sy_link := (sy_link s)\<lparr>ln_gateway := fold (gateway_app_on_tcp_line os) ls (sy_gateway s)\<rparr>, sy_lines := []\<rparr>)"
proof (induction ls arbitrary: s)
  case (Cons line ls)
  let ?s = "s\<lparr>sy_link := (sy_link s)\<lparr>ln_gateway := gateway_app_on_tcp_line os line (sy_gateway s)\<rparr>, sy_lines := ls\<rparr>"
  have "system_step s ?s" by (rule system_step.link_line) (use Cons.prems in simp_all)
  moreover have "system_steps ?s (s\<lparr>sy_link := (sy_link s)\<lparr>ln_gateway := fold (gateway_app_on_tcp_line os) (line # ls) (sy_gateway s)\<rparr>, sy_lines := []\<rparr>)"
    using Cons.IH [of ?s] Cons.prems by simp
  ultimately show ?case by (rule converse_rtranclp_into_rtranclp)
next
  case Nil
  then show ?case by (cases s) simp
qed

lemma link_next_steps:
  assumes "sy_phase s \<in> {At_Receive, At_Lines}" "sy_lines s = []"
  shows "system_steps s (s\<lparr>sy_link := if lost then server_link_disconnect now (sy_link s) else sy_link s, sy_phase := At_Top\<rparr>)"
  using link_next [OF assms] link_lost [OF assms, of now] by (cases lost) auto

lemma link_receive_steps:
  assumes p: "sy_phase s = At_Receive" "sy_lines s = []"
  shows "system_steps s (s\<lparr>sy_link := server_link_receive os t (sy_link s), sy_phase := At_Top\<rparr>)"
proof -
  let ?final = "\<lambda>l. s\<lparr>sy_link := l, sy_phase := At_Top\<rparr>"
  have stay: "system_steps s (?final (sy_link s))" "system_steps s (?final (server_link_disconnect (lt_later t) (sy_link s)))"
    using link_next_steps [of s False] link_next_steps [of s True "lt_later t"] p by simp_all
  have bytes: "system_steps s (?final l1)"
    if b: "bytes \<noteq> []" and r: "link_received bytes (sy_link s) = (ls, l)"
      and l1: "l1 = (let l0 = l\<lparr>ln_gateway := fold (gateway_app_on_tcp_line os) ls (ln_gateway l)\<rparr>
        in if lost then server_link_disconnect (lt_later t) l0 else l0)" for bytes ls l l1 lost
  proof -
    let ?s1 = "s\<lparr>sy_link := l, sy_phase := At_Lines, sy_lines := ls\<rparr>"
    let ?s2 = "s\<lparr>sy_link := l\<lparr>ln_gateway := fold (gateway_app_on_tcp_line os) ls (ln_gateway l)\<rparr>, sy_phase := At_Lines, sy_lines := []\<rparr>"
    have "system_step s ?s1" by (rule link_receive [OF p(1) b r])
    also have "system_steps ?s1 ?s2" using link_lines_steps [of ?s1 ls os] by (cases s) simp
    also have "system_steps ?s2 (?final l1)"
      using link_next_steps [of ?s2 lost "lt_later t"] p(2) by (cases lost; cases s) (simp_all add: l1 Let_def)
    finally show ?thesis .
  qed
  show ?thesis
  proof (cases "lt_poll t")
    case (Poll_Ready ev)
    define lost where "lost = (pollhup ev \<or> pollerr ev \<or> pollnval ev)"
    define check where "check = (\<lambda>l. if 0 \<le> gc_tcp_fd (gw_context (ln_gateway l)) \<and> lost then server_link_disconnect (lt_later t) l else l)"
    have same: "system_steps s (?final (check (sy_link s)))" using stay by (simp add: check_def)
    note unfold = server_link_receive_def Poll_Ready Let_def lost_def [symmetric]
    show ?thesis
    proof (cases "lt_recv t")
      case (Bytes bs)
      obtain ls l where r: "link_received bs (sy_link s) = (ls, l)" by fastforce
      let ?l0 = "l\<lparr>ln_gateway := fold (gateway_app_on_tcp_line os) ls (ln_gateway l)\<rparr>"
      have "system_steps s (?final (check ?l0))" if "bs \<noteq> []"
        by (rule bytes [OF that r]) (simp add: check_def Let_def)
      moreover have "check ?l0 = server_link_receive os t (sy_link s)" if "bs \<noteq> []" "pollin ev"
      proof (cases "SERVER_LINK_BUFFER_SIZE < length (ln_buffer (sy_link s)) + length bs")
        case True
        then show ?thesis using that r by (auto simp: unfold Bytes link_received_def check_def)
      next
        case False
        obtain rest ls' n where f: "line_parser_feed (Some (ln_buffer (sy_link s) @ bs)) SERVER_LINK_BUFFER_SIZE
            (Some (\<lambda>line ls. ls @ [line])) [] = (rest, ls', n)" by (metis prod_cases3)
        have order: "l\<lparr>ln_buffer := b, ln_gateway := g\<rparr> = l\<lparr>ln_gateway := g, ln_buffer := b\<rparr>" for l b g
          by (cases l) simp
        show ?thesis
          using that r False by (auto simp: unfold Bytes link_received_def f feed_collected [OF f, of "gateway_app_on_tcp_line os"] check_def order)
      qed
      ultimately show ?thesis using stay same by (auto simp: unfold Bytes check_def)
    qed (use stay same in \<open>simp_all add: unfold check_def\<close>)
  qed (use stay in \<open>simp_all add: server_link_receive_def\<close>)
qed

lemma link_turn_is_steps:
  assumes p: "sy_phase s = At_Top" "sy_lines s = []"
    and t: "server_link_turn os t (sy_link s) = (go, l)"
  shows "system_steps s (if go then s\<lparr>sy_link := l\<rparr> else s\<lparr>sy_link := link_ended l, sy_phase := Link_Ended\<rparr>)"
proof -
  obtain go1 l1 where 1: "server_link_pop (sy_link s) = (go1, l1)" by fastforce
  obtain go2 l2 where 2: "server_link_connect t l1 = (go2, l2)" by fastforce
  obtain go3 l3 where 3: "server_link_send os (lt_later t) l2 = (go3, l3)" by fastforce
  let ?s = "\<lambda>l phase. s\<lparr>sy_link := l, sy_phase := phase\<rparr>"
  have top: "?s l At_Top = s\<lparr>sy_link := l\<rparr>" for l using p(1) by (cases s) simp
  have s1: "system_step s (if go1 then ?s l1 At_Connect else ?s (link_ended l1) Link_Ended)"
    by (rule system_step.link_pop [OF p(1) 1])
  have s2: "system_step (?s l1 At_Connect) (?s l2 (if go2 then At_Send else At_Top))"
    using system_step.link_connect [of "?s l1 At_Connect" t go2 l2] 2 by simp
  have s3: "system_step (?s l2 At_Send) (?s l3 (if go3 then At_Receive else At_Top))"
    using system_step.link_send [of "?s l2 At_Send" os "lt_later t" go3 l3] 3 by simp
  have s4: "system_steps (?s l3 At_Receive) (?s (server_link_receive os t l3) At_Top)"
    using link_receive_steps [of "?s l3 At_Receive" os t] p(2) by simp
  show ?thesis
  proof (cases go1)
    case False
    then show ?thesis using s1 t 1 by (auto simp: server_link_turn_def)
  next
    case go1: True
    then have r1: "system_steps s (?s l1 At_Connect)" using s1 by auto
    show ?thesis
    proof (cases go2)
      case False
      then show ?thesis using rtranclp.rtrancl_into_rtrancl [OF r1 s2] t go1 1 2 by (simp add: server_link_turn_def top)
    next
      case go2: True
      then have r2: "system_steps s (?s l2 At_Send)" using rtranclp.rtrancl_into_rtrancl [OF r1 s2] by simp
      note r3 = rtranclp.rtrancl_into_rtrancl [OF r2 s3]
      show ?thesis
      proof (cases go3)
        case False
        then show ?thesis using r3 t go1 go2 1 2 3 by (simp add: server_link_turn_def top)
      next
        case True
        then have "system_steps s (?s (server_link_receive os t l3) At_Top)" using rtranclp_trans [OF _ s4] r3 by simp
        then show ?thesis using True t go1 go2 1 2 3 by (auto simp: server_link_turn_def top)
      qed
    qed
  qed
qed

text \<open>A turn in which the server is there and takes the message.\<close>

definition good_turn :: "server_link \<Rightarrow> link_turn" where
  "good_turn l = \<lparr>lt_others = (\<lambda>s. s), lt_now = max 0 (gc_next_tcp_retry (gw_context (ln_gateway l))), lt_connect = (0, True, True),
     lt_poll = Poll_Timeout, lt_recv = Read_Failed, lt_later = 0\<rparr>"

end
