(* ===== verification/System_Run.thy ===== *)
theory System_Run
  imports Gateway_System
begin

text \<open>
  A run of the system, step by step, for the witnesses of the theorems about its reachable states.
\<close>

section \<open>A run\<close>

text \<open>
  The server thread connects and waits for the server; a Bluetooth node comes and reports; its report
  goes to the queue; the server sends a command for the node.
\<close>

abbreviation example_start :: system where
  "example_start \<equiv> system_start ''127.0.0.1'' 9000 (replicate 32 \<lparr>msg_data = [], msg_length = 0\<rparr>)"

lemma example_connected:
  obtains s where "system_steps example_start s" "sy_phase s = At_Receive" "sy_lines s = []" "sy_workers s = Map.empty"
    "gw_devices (sy_gateway s) = \<lparr>devices = []\<rparr>" "gw_pushed (sy_gateway s) = []" "ln_buffer (sy_link s) = []"
    "\<not> mq_shutting_down (sy_queue s)" "mq_count (sy_queue s) = 0" "gc_serial_fd (gw_context (sy_gateway s)) = -1"
proof -
  let ?l = "sy_link example_start"
  let ?s = "\<lambda>l phase. example_start\<lparr>sy_link := l, sy_phase := phase\<rparr>"
  define l2 where "l2 = snd (server_link_connect (good_turn ?l) ?l)"
  have start: "ln_pending ?l = None" "mq_count (ln_queue ?l) = 0" "\<not> mq_shutting_down (ln_queue ?l)" "sy_phase example_start = At_Top"
    by (simp_all add: system_start_def message_queue_init_def)
  have l2: "server_link_connect (good_turn ?l) ?l = (True, l2)" "ln_pending l2 = None" "ln_buffer l2 = []"
    "gw_devices (ln_gateway l2) = \<lparr>devices = []\<rparr>" "gw_pushed (ln_gateway l2) = []" "ln_queue l2 = ln_queue ?l"
    "gc_serial_fd (gw_context (ln_gateway l2)) = -1"
    by (simp_all add: l2_def server_link_connect_def good_turn_def gateway_app_try_tcp_connect_def tcp_client_connect_def
        opened_def system_start_def gateway_app_init_def device_manager_init_def Let_def)
  have "server_link_pop ?l = (True, ?l)"
    using start by (simp add: server_link_pop_def message_queue_try_pop_def)
  with system_step.link_pop [OF start(4)] have "system_steps example_start (?s ?l At_Connect)" by force
  moreover have "system_step (?s ?l At_Connect) (?s l2 At_Send)"
    using system_step.link_connect [of "?s ?l At_Connect" "good_turn ?l" True l2] l2(1) by simp
  moreover have "system_step (?s l2 At_Send) (?s l2 At_Receive)"
    using system_step.link_send [of "?s l2 At_Send" "\<lambda>i. 0" 0 True l2] l2(2) by (simp add: server_link_send_def)
  ultimately have "system_steps example_start (?s l2 At_Receive)" by (meson rtranclp.rtrancl_into_rtrancl)
  then show ?thesis
    using l2 start by (intro that [of "?s l2 At_Receive"]) (simp_all add: system_start_def)
qed

text \<open>A worker without identity reports for a node that is not in the registry.\<close>

lemma touch_new:
  assumes inv: "dm_inv (gw_devices g)" and n: "node \<noteq> []" "length node < 32" "dm_abs (gw_devices g) node = None"
    and room: "card (dom (dm_abs (gw_devices g))) < 16" and up: "up_bound_node_id up = []" "0 \<le> up_device_fd up"
  obtains devs where "gateway_app_touch_device now node (g, up) = (True, g\<lparr>gw_devices := devs\<rparr>, up\<lparr>up_bound_node_id := node\<rparr>)"
    "dm_inv devs" "dm_abs devs = (dm_abs (gw_devices g))
        (node \<mapsto> fresh_view (up_transport up) (up_device_fd up) True (up_thread up) now)"
proof -
  let ?op = "Bind (Some node) (up_transport up) (up_device_fd up) (up_thread up) (Some 8) now"
  obtain r devs out where e: "dm_exec ?op (gw_devices g) = (r, devs, out)" by (cases "dm_exec ?op (gw_devices g)")
  have s: "dm_inv devs" "r = DEVICE_MANAGER_OK" "out = []"
    "dm_abs devs = (dm_abs (gw_devices g))(node \<mapsto> fresh_view (up_transport up) (up_device_fd up) True (up_thread up) now)"
    using dm_exec_step [OF inv e] n room up by (auto simp: no_node_id_def)
  have "collected (device_manager_bind_connection_collect_commands (gw_devices g) (Some node)
      (up_transport up) (up_device_fd up) (up_thread up) (Some (replicate 8 zero_frame_command)) 8 (Some 0) now)
      = (r, devs, out)" using e by simp
  then show ?thesis
    using s n up by (intro that [of devs]) (simp_all add: gateway_app_touch_device_def dm_consts)
qed

lemma received_line:
  assumes "LF \<notin> set line" "strip_cr line = line" "length line < 1024" "ln_buffer l = []"
  shows "link_received (line @ [LF]) l = ([line], l\<lparr>ln_buffer := []\<rparr>)"
proof -
  have "split_on LF (line @ [LF]) = [line, []]"
    using assms(1) by (induction line) auto
  then show ?thesis
    using assms
    by (simp add: link_received_def line_parser_feed_def line_parser_loop_pieces line_call_def SERVER_LINK_BUFFER_SIZE_def)
qed

definition example_json :: string where "example_json = butlast (json_command_text (example_command 1))"

lemma example_json:
  "message_json_decode_command (Some example_json) (Some zero_frame_command) = (Some (length example_json), Some (example_command 1))"
  "LF \<notin> set example_json" "strip_cr example_json = example_json" "length example_json < 1024"
proof -
  show "message_json_decode_command (Some example_json) (Some zero_frame_command) = (Some (length example_json), Some (example_command 1))"
    using parse_command_tail [of "example_command 1" "[]"]
    by (simp add: example_json_def message_json_decode_command_def read_object_def object_fields_def
        json_id_ok_def json_clean_def json_field_ok_def example_command_def)
  have "print_u 1 = ''1''" by (simp add: print_compute)
  then have t: "example_json = ''{\"node\":\"N1\",\"sender\":\"GATEWAY\",\"seq\":1,\"type\":\"CMD\",\"fields\":{\"LED\":\"1\"}}''"
    by (simp add: example_json_def json_command_text_def example_command_def json_string_text_def json_quoted_def json_seq_text_def
        json_fields_member_def json_field_text_def)
  show "LF \<notin> set example_json" "strip_cr example_json = example_json" "length example_json < 1024"
    unfolding t by (simp_all add: strip_cr_def)
qed

lemma system_example_run:
  obtains s w where "system_steps example_start s" "sy_workers s 1 = Some w" "wk_outbox w = []" "wk_phase w = Serving"
    "wk_up w = \<lparr>up_transport = DEVICE_TRANSPORT_BLUETOOTH, up_device_fd = 5, up_bound_node_id = ''N1'', up_thread = 1\<rparr>"
    "dm_abs (gw_devices (sy_gateway s)) = [''N1'' \<mapsto> (fresh_view DEVICE_TRANSPORT_BLUETOOTH 5 True 1 20)\<lparr>nv_pending := [example_command 1]\<rparr>]"
    "\<not> mq_shutting_down (sy_queue s)" "sy_phase s = At_Lines" "length (gw_pushed (sy_gateway s)) = 1"
proof -
  let ?f = "\<lparr>raw = [], payload = ''1,N1,000003,NACK,ERR=busy'', received_crc = 0, calculated_crc = 0\<rparr>"
  let ?up = "\<lparr>up_transport = DEVICE_TRANSPORT_BLUETOOTH, up_device_fd = 5, up_bound_node_id = [], up_thread = 1\<rparr>"
  let ?m = "to_message (json_nack_text \<lparr>nack_node_id = ''N1'', nack_sequence = 3, nack_error = ''busy''\<rparr>)"
  obtain s1 where s1: "system_steps example_start s1" "sy_phase s1 = At_Receive" "sy_lines s1 = []" "sy_workers s1 = Map.empty"
    "gw_devices (sy_gateway s1) = \<lparr>devices = []\<rparr>" "gw_pushed (sy_gateway s1) = []" "ln_buffer (sy_link s1) = []"
    "\<not> mq_shutting_down (sy_queue s1)" "mq_count (sy_queue s1) = 0" by (rule example_connected)
  define s2 where "s2 = connect_worker 1 DEVICE_TRANSPORT_BLUETOOTH 5 s1"
  have st2: "system_step s1 s2"
    unfolding s2_def by (rule system_step.connect) (use s1(4) in \<open>simp_all add: open_fds_def\<close>)
  have s2: "sy_workers s2 1 = Some \<lparr>wk_up = ?up, wk_phase = Serving, wk_outbox = []\<rparr>" "gw_devices (sy_gateway s2) = \<lparr>devices = []\<rparr>"
    "gw_pushed (sy_gateway s2) = []" by (simp_all add: s2_def connect_worker_def s1)
  have none: "dm_inv \<lparr>devices = []\<rparr>" "dm_abs \<lparr>devices = []\<rparr> = Map.empty"
    by (auto simp: dm_inv_def dm_consts dm_abs_def table_map_def)
  obtain devs where t: "gateway_app_touch_device 20 ''N1'' (sy_gateway s2, ?up) =
      (True, (sy_gateway s2)\<lparr>gw_devices := devs\<rparr>, ?up\<lparr>up_bound_node_id := ''N1''\<rparr>)"
    "dm_inv devs" "dm_abs devs = [''N1'' \<mapsto> fresh_view DEVICE_TRANSPORT_BLUETOOTH 5 True 1 20]"
    using touch_new [of "sy_gateway s2" "''N1''" ?up 20] none s2(2) by auto
  have fits: "length (json_nack_text \<lparr>nack_node_id = ''N1'', nack_sequence = 3, nack_error = ''busy''\<rparr>) < 256"
    by (rule json_nack_text_fits) simp_all
  define g where "g = (sy_gateway s2)\<lparr>gw_devices := devs, gw_pushed := [?m],
      gw_history := gw_history (sy_gateway s2) @ [Reported ''N1'' (msg_data ?m)]\<rparr>"
  have r: "worker_report 20 ?f [] (sy_gateway s2, ?up) = (g, ?up\<lparr>up_bound_node_id := ''N1''\<rparr>)"
    using t(1) fits s2(3) by (simp add: worker_report_handle example_frame_report handle_report_def touch_and_enqueue_def csimps g_def
        to_message_def)
  define s3 where "s3 = worker_ran 1 Serving (g, ?up\<lparr>up_bound_node_id := ''N1''\<rparr>) s2"
  have st3: "system_step s2 s3"
    using system_step.report [OF s2(1), of ?f "[]" 20] r by (simp add: s3_def)
  let ?w = "\<lambda>ms. \<lparr>wk_up = ?up\<lparr>up_bound_node_id := ''N1''\<rparr>, wk_phase = Serving, wk_outbox = ms\<rparr>"
  have s3: "sy_workers s3 1 = Some (?w [?m])" "sy_gateway s3 = g" "sy_queue s3 = sy_queue s1" "sy_phase s3 = At_Receive"
    "ln_buffer (sy_link s3) = []"
    by (simp_all add: s3_def worker_ran_def Let_def s2(3) g_def) (simp_all add: s2_def connect_worker_def s1)
  have p: "message_queue_push (sy_queue s3) (Some ?m) = (Some MESSAGE_QUEUE_OK, mq_put ?m (sy_queue s3))"
    using s1(8,9) fits by (simp add: message_queue_push_def s3(3) mq_consts to_message_def)
  obtain s4 where st4: "system_step s3 s4" and s4: "sy_workers s4 1 = Some (?w [])" "sy_gateway s4 = g" "\<not> mq_shutting_down (sy_queue s4)"
    "sy_phase s4 = At_Receive" "ln_buffer (sy_link s4) = []"
    using system_step.push [OF s3(1) _ p, of "[]"] s3 s1(8) by (fastforce simp: mq_put_def)
  define l where "l = (sy_link s4)\<lparr>ln_buffer := []\<rparr>"
  have "system_step s4 (s4\<lparr>sy_link := l, sy_phase := At_Lines, sy_lines := [example_json]\<rparr>)" (is "system_step s4 ?s5")
    unfolding l_def by (rule system_step.link_receive [OF s4(4), of "example_json @ [LF]"])
      (simp_all add: received_line example_json(2-4) s4(5))
  obtain q devs2 where e: "device_manager_enqueue_command devs (Some ''N1'') (Some (example_command 1)) = (q, devs2)" by fastforce
  have n: "cmd_target_node (example_command 1) = ''N1''" by (simp add: example_command_def)
  have q: "q = DEVICE_MANAGER_OK"
    "dm_abs devs2 = [''N1'' \<mapsto> (fresh_view DEVICE_TRANSPORT_BLUETOOTH 5 True 1 20)\<lparr>nv_pending := [example_command 1]\<rparr>]"
    using dm_exec_step(1) [OF t(2), of "Enqueue (Some ''N1'') (Some (example_command 1))"] e t(3) n
    by (auto simp: no_node_id_def fresh_view_def)
  have g: "gateway_app_on_tcp_line (\<lambda>i. 0) example_json g = log_event (Queued (example_command 1)) (g\<lparr>gw_devices := devs2\<rparr>)"
    using e q(1) n by (simp add: gateway_app_on_tcp_line_def example_json(1) g_def)
  let ?s6 = "?s5\<lparr>sy_link := l\<lparr>ln_gateway := log_event (Queued (example_command 1)) (g\<lparr>gw_devices := devs2\<rparr>)\<rparr>, sy_lines := []\<rparr>"
  have "system_step ?s5 ?s6"
    using system_step.link_line [of ?s5 example_json "[]" "\<lambda>i. 0"] g s4(2) by (simp add: l_def)
  with st2 st3 st4 \<open>system_step s4 ?s5\<close> s1(1) have "system_steps example_start ?s6"
    by (meson rtranclp.rtrancl_into_rtrancl)
  then show ?thesis
    by (rule that [of ?s6 "?w []"]) (use s4 q(2) in \<open>simp_all add: l_def g_def\<close>)
qed

lemma example_items: "length (replicate 32 \<lparr>msg_data = [], msg_length = 0\<rparr>) = 32" by simp

lemma example_frame: "\<exists>b. frame_encoding (example_command 1) = Some b \<and> length b \<le> 1000"
proof -
  let ?fs = "[\<lparr>kv_key = ''LED'', kv_value = ''1''\<rparr>]"
  have n: "print_06u 1 = ''000001''" by (simp add: print_compute)
  have "length (kv_payload ''GATEWAY'' 1 ''CMD'' ?fs) = 26"
    by (simp add: kv_payload_append [of _ _ _ ?fs]) (simp add: kv_payload_def kv_text_def n)
  then have "build_kv_frame (Some []) FRAME_MAX_LEN (Some ''GATEWAY'') 1 ''CMD'' (Some ?fs) (length ?fs)
      = (Inr 34, Some (frame_of (kv_payload ''GATEWAY'' 1 ''CMD'' ?fs)))"
    unfolding build_kv_frame_Inr
    by (simp add: frame_consts node_id_is_valid_def id_char_ok_def field_ok_def field_text_is_valid_def field_char_ok_def)
  then show ?thesis by (simp add: frame_encoding_def frame_build_command_kv_def example_command_def)
qed

end
