(* ===== verification/System_Invariant.thy ===== *)
theory System_Invariant
  imports System_Run
begin

text \<open>
  What holds in every reachable state of the gateway, by one lemma for each step and an induction over the
  steps: an entry of the registry that is online belongs to a worker that serves this very connection;
  every message a worker produces is accepted or refused, in order, and what the queue has accepted is
  with the server, under way, or in the queue; every command queued since the start is written, refused
  or pending, and what is written goes to the node it is for.
\<close>

section \<open>What the threads do to the shared state\<close>

text \<open>Every connection in the registry was there before, or belongs to the worker with the context \<open>up\<close>.\<close>

definition same_connection :: "node_view \<Rightarrow> node_view \<Rightarrow> bool" where
  "same_connection v v' = (nv_online v \<and> nv_transport v = nv_transport v' \<and> nv_fd v = nv_fd v' \<and> nv_thread_id v = nv_thread_id v')"

definition connection_of :: "upstream_context \<Rightarrow> string \<Rightarrow> node_view \<Rightarrow> bool" where
  "connection_of up i v =
     (up_bound_node_id up = i \<and> nv_transport v = up_transport up \<and> nv_fd v = up_device_fd up \<and> nv_thread_id v = up_thread up)"

text \<open>Nothing is pending for a node that is offline.\<close>

definition offline_empty :: "device_manager \<Rightarrow> bool" where
  "offline_empty m = (\<forall>i v. dm_abs m i = Some v \<longrightarrow> nv_online v \<or> nv_pending v = [])"

definition connections :: "gateway \<Rightarrow> upstream_context option \<Rightarrow> gateway \<Rightarrow> bool" where
  "connections g up g' =
     ((\<forall>i v'. dm_abs (gw_devices g') i = Some v' \<longrightarrow> nv_online v' \<longrightarrow>
        (\<exists>v. dm_abs (gw_devices g) i = Some v \<and> same_connection v v') \<or> (\<exists>u. up = Some u \<and> connection_of u i v'))
      \<and> (offline_empty (gw_devices g) \<longrightarrow> offline_empty (gw_devices g')))"

text \<open>What the threads share about the server: its address and the connection.\<close>

definition server_side :: "gateway \<Rightarrow> string option \<times> int" where
  "server_side g = (gc_server_ip (gw_context g), gc_tcp_fd (gw_context g))"

definition fits :: "gateway_message \<Rightarrow> bool" where "fits m = (msg_length m \<le> GATEWAY_MESSAGE_MAX_SIZE)"

text \<open>What only pushes messages that fit.\<close>

definition only_pushes :: "gateway \<Rightarrow> gateway \<Rightarrow> bool" where
  "only_pushes g g' = (server_side g' = server_side g \<and> (\<exists>ms. gw_pushed g' = gw_pushed g @ ms \<and> list_all fits ms))"

text \<open>A worker has run.\<close>

definition ran :: "gateway \<times> upstream_context \<Rightarrow> gateway \<times> upstream_context \<Rightarrow> bool" where
  "ran s s' =
     (case s of (g, up) \<Rightarrow> case s' of (g', up') \<Rightarrow>
       (\<exists>es. effect g es g') \<and> only_pushes g g' \<and> connections g (Some up') g'
       \<and> up' = up\<lparr>up_bound_node_id := up_bound_node_id up'\<rparr>
       \<and> up_bound_node_id up \<in> {[], up_bound_node_id up'})"

lemma only_pushes_refl [simp]: "only_pushes g g" by (simp add: only_pushes_def)

lemma only_pushes_trans: "only_pushes g g' \<Longrightarrow> only_pushes g' g'' \<Longrightarrow> only_pushes g g''"
  by (auto simp: only_pushes_def)

lemma only_pushes_same: "server_side g' = server_side g \<Longrightarrow> gw_pushed g' = gw_pushed g \<Longrightarrow> only_pushes g g'"
  by (simp add: only_pushes_def)

lemma enqueue_json_pushes: "only_pushes g (gateway_app_enqueue_json json n g)"
  by (simp add: only_pushes_def gateway_app_enqueue_json_def fits_def server_side_def)

lemma enqueue_built_pushes: "only_pushes g (enqueue_built built g)"
  using enqueue_json_pushes by (auto simp: enqueue_built_def split: option.split prod.split)

lemma enqueue_nack_pushes: "only_pushes g (gateway_app_enqueue_nack i n e g)"
  using enqueue_built_pushes by (auto simp: gateway_app_enqueue_nack_def)

lemma set_devices_pushes: "only_pushes g (g\<lparr>gw_devices := m\<rparr>)" "only_pushes g (g\<lparr>gw_sent := l\<rparr>)" "only_pushes g (decode_error g)"
  "only_pushes g (g\<lparr>gw_history := es\<rparr>)"
  by (rule only_pushes_same; simp add: server_side_def decode_error_def)+

lemma log_event_pushes: "only_pushes g g' \<Longrightarrow> only_pushes g (log_event e g')"
  using only_pushes_trans set_devices_pushes(4) by blast

lemma nack_commands_pushes: "only_pushes g (nack_commands e cs g)"
  by (induction cs arbitrary: g) (auto intro: only_pushes_trans [OF log_event_pushes [OF enqueue_nack_pushes]])

lemma note_report_pushes: "only_pushes g (note_report node built (enqueue_built built g))"
  by (auto simp: note_report_def intro: log_event_pushes enqueue_built_pushes split: option.split prod.split)

lemmas pushes_intros = only_pushes_trans [OF set_devices_pushes(1)] set_devices_pushes enqueue_built_pushes enqueue_nack_pushes
  nack_commands_pushes log_event_pushes note_report_pushes

lemma touch_pushes: "gateway_app_touch_device now node (g, up) = (ok, g', up') \<Longrightarrow> only_pushes g g'"
  by (auto simp: gateway_app_touch_device_def intro: pushes_intros split: if_splits prod.splits)

lemma report_pushes: "only_pushes g (fst (handle_report now r (g, up)))"
  by (auto simp: handle_report_def touch_and_enqueue_def split: option.split prod.split
      intro: only_pushes_trans [OF touch_pushes] touch_pushes pushes_intros)

lemma link_send_pushes: "link_send tr os fd node c bytes g = (r, g') \<Longrightarrow> only_pushes g g'"
  by (auto simp: link_send_def intro: pushes_intros only_pushes_trans [OF set_devices_pushes(2)] split: option.splits prod.splits if_splits)

lemma try_send_pushes: "link_try_send tr encode os fd (g, up) = (r, g', up') \<Longrightarrow> only_pushes g g'"
  by (auto simp: link_try_send_def simp del: dm_exec.simps intro: pushes_intros only_pushes_trans [OF set_devices_pushes(1) link_send_pushes]
      split: if_splits prod.splits)

lemma hang_up_pushes: "only_pushes g (link_hang_up fd (g, up))"
  by (auto simp: link_hang_up_def simp del: dm_exec.simps intro: pushes_intros split: prod.splits)

lemma same_connection_refl: "nv_online v \<Longrightarrow> same_connection v v" by (simp add: same_connection_def)

lemma connections_same: "dm_abs (gw_devices g') = dm_abs (gw_devices g) \<Longrightarrow> connections g up g'"
  by (auto simp: connections_def offline_empty_def intro: same_connection_refl)

lemma connections_same_right: "connections g up g' \<Longrightarrow> dm_abs (gw_devices g'') = dm_abs (gw_devices g') \<Longrightarrow> connections g up g''"
  by (simp add: connections_def offline_empty_def)

lemma connections_update:
  assumes "dm_abs (gw_devices g') = (dm_abs (gw_devices g))(i \<mapsto> v')"
    and "nv_online v' \<Longrightarrow> (\<exists>v. dm_abs (gw_devices g) i = Some v \<and> same_connection v v') \<or> (\<exists>u. up = Some u \<and> connection_of u i v')"
    and "\<not> nv_online v' \<Longrightarrow> nv_pending v' = [] \<or> (\<exists>v. dm_abs (gw_devices g) i = Some v \<and> \<not> nv_online v \<and> nv_pending v = nv_pending v')"
  shows "connections g up g'"
proof -
  have "offline_empty (gw_devices g) \<Longrightarrow> offline_empty (gw_devices g')"
    unfolding offline_empty_def assms(1) using assms(3) by (metis fun_upd_apply option.inject)
  then show ?thesis using assms(1,2) by (auto simp: connections_def same_connection_def)
qed

lemma pushed_devices:
  "gw_devices (enqueue_built built g) = gw_devices g" "gw_devices (gateway_app_enqueue_nack i n e g) = gw_devices g"
  "gw_devices (nack_commands error cs g) = gw_devices g" "gw_devices (note_report node built g) = gw_devices g"
proof -
  show built: "gw_devices (enqueue_built built g) = gw_devices g" for built g
    by (auto simp: enqueue_built_def gateway_app_enqueue_json_def split: option.split prod.split)
  show nack: "gw_devices (gateway_app_enqueue_nack i n e g) = gw_devices g" for i n e g
    by (simp add: gateway_app_enqueue_nack_def built)
  show "gw_devices (nack_commands error cs g) = gw_devices g" by (induction cs arbitrary: g) (simp_all add: nack)
  show "gw_devices (note_report node built g) = gw_devices g" by (auto simp: note_report_def split: option.split prod.split)
qed

lemma touch_connections:
  assumes inv: "dm_inv (gw_devices g)" and t: "gateway_app_touch_device now node (g, up) = (ok, g', up')"
  shows "connections g (Some up') g' \<and> up' = up\<lparr>up_bound_node_id := up_bound_node_id up'\<rparr>
    \<and> up_bound_node_id up \<in> {[], up_bound_node_id up'}"
proof -
  consider (none) "node = []" | (long) "up_bound_node_id up = []" "32 \<le> length node"
    | (bind) "node \<noteq> []" "up_bound_node_id up = []" "length node < 32"
    | (other) "node \<noteq> []" "up_bound_node_id up \<noteq> []" "up_bound_node_id up \<noteq> node"
    | (seen) "node \<noteq> []" "up_bound_node_id up = node" by force
  then show ?thesis
  proof cases
    case bind
    let ?op = "Bind (Some node) (up_transport up) (up_device_fd up) (up_thread up) (Some 8) now"
    obtain r devs out where e: "dm_exec ?op (gw_devices g) = (r, devs, out)" by (cases "dm_exec ?op (gw_devices g)")
    have g': "gw_devices g' = devs" "up' = (if r = DEVICE_MANAGER_OK then up\<lparr>up_bound_node_id := node\<rparr> else up)"
      using t e bind by (auto simp: gateway_app_touch_device_def dm_consts pushed_devices split: if_splits)
    note s = dm_exec_step [OF inv e]
    show ?thesis
    proof (cases "r = DEVICE_MANAGER_OK")
      case False
      then have "dm_abs devs = dm_abs (gw_devices g)" using s(1) by (auto split: if_splits option.splits)
      then show ?thesis using False g' by (simp add: connections_same)
    next
      case True
      have "connections g (Some (up\<lparr>up_bound_node_id := node\<rparr>)) g'"
        using s(1) True
        by (intro connections_update [of g' g node "the (dm_abs devs node)"])
          (auto simp: g' connection_of_def fresh_view_def split: if_splits option.splits)
      then show ?thesis using True g' bind by simp
    qed
  next
    case seen
    obtain r devs where e: "device_manager_update_last_seen (gw_devices g) (Some node) now = (r, devs)" by fastforce
    have g': "gw_devices g' = devs" "up' = up"
      using t e seen by (auto simp: gateway_app_touch_device_def)
    have "dm_exec (Update_Last_Seen (Some node) now) (gw_devices g) = (r, devs, [])" using e by simp
    from dm_exec_step [OF inv this] have s: "(r, dm_abs devs, []) = dm_spec (Update_Last_Seen (Some node) now) (dm_abs (gw_devices g))" by simp
    have "connections g (Some up') g'"
    proof (cases "dm_abs devs = dm_abs (gw_devices g)")
      case False
      then show ?thesis using s
        by (intro connections_update [of g' g node "the (dm_abs devs node)"])
          (auto simp: g' same_connection_def split: if_splits option.splits)
    qed (simp add: connections_same g')
    then show ?thesis using g' by simp
  qed (use t in \<open>auto simp: gateway_app_touch_device_def dm_consts connections_same split: if_splits\<close>)
qed

lemma report_ran:
  assumes inv: "dm_inv (gw_devices g)" and r: "\<And>node t. r = Some (node, t) \<Longrightarrow> reported_by tr node t"
  shows "ran (g, up) (handle_report now r (g, up))"
proof -
  obtain g' up' where h: "handle_report now r (g, up) = (g', up')" by fastforce
  have "connections g (Some up') g' \<and> up' = up\<lparr>up_bound_node_id := up_bound_node_id up'\<rparr> \<and> up_bound_node_id up \<in> {[], up_bound_node_id up'}"
  proof (cases r)
    case None
    then show ?thesis using h by (auto simp: handle_report_def decode_error_def connections_same)
  next
    case (Some nt)
    obtain node json where nt: "nt = (node, json)" by fastforce
    obtain ok g1 up1 where t: "gateway_app_touch_device now node (g, up) = (ok, g1, up1)"
      by (cases "gateway_app_touch_device now node (g, up)")
    have "gw_devices g' = gw_devices g1" "up' = up1"
      using h t by (auto simp: Some nt handle_report_def touch_and_enqueue_def pushed_devices split: if_splits)
    then show ?thesis using touch_connections [OF inv t] connections_same_right [of g _ g1 g'] by simp
  qed
  then show ?thesis
    using explained_effect [OF report_explained [OF inv, of r tr now up, OF r]] report_pushes [of g now r up] h by (simp add: ran_def)
qed

lemma link_send_devices: "link_send tr os fd node c bytes g = (r, g') \<Longrightarrow> gw_devices g' = gw_devices g"
  by (auto simp: link_send_def pushed_devices split: option.splits prod.splits if_splits)

lemma try_send_connections:
  assumes inv: "dm_inv (gw_devices g)" and t: "link_try_send tr encode os fd (g, up) = (r, g', up')"
  shows "connections g None g'"
proof -
  let ?op = "Try_Dequeue (Some (up_bound_node_id up)) fd (up_thread up)"
  obtain q devs out where e: "dm_exec ?op (gw_devices g) = (q, devs, out)" by (cases "dm_exec ?op (gw_devices g)")
  note s = dm_exec_step [OF inv e]
  have "gw_devices g' \<in> {gw_devices g, devs}"
    using t e by (auto simp: link_try_send_def simp del: dm_exec.simps dest: link_send_devices split: if_splits prod.splits)
  moreover have "connections g None (g\<lparr>gw_devices := devs\<rparr>)"
  proof (cases "q = DEVICE_MANAGER_OK")
    case True
    then show ?thesis using s(1)
      by (intro connections_update [of _ g "up_bound_node_id up" "the (dm_abs devs (up_bound_node_id up))"])
        (auto simp: same_connection_def split: if_splits option.splits list.splits)
  next
    case False
    then show ?thesis using s(1) by (intro connections_same) (auto split: if_splits option.splits list.splits)
  qed
  ultimately show ?thesis by (auto simp: connections_same intro: connections_same_right)
qed

lemma hang_up_connections:
  assumes inv: "dm_inv (gw_devices g)"
  shows "connections g None (link_hang_up fd (g, up))"
proof (cases "up_bound_node_id up = []")
  case True
  then show ?thesis by (simp add: link_hang_up_def connections_same)
next
  case b: False
  let ?op = "Disconnect (Some (up_bound_node_id up)) fd (up_thread up) (Some DEVICE_COMMAND_QUEUE_CAPACITY)"
  obtain r devs out where e: "dm_exec ?op (gw_devices g) = (r, devs, out)" by (cases "dm_exec ?op (gw_devices g)")
  note s = dm_exec_step [OF inv e]
  have "gw_devices (link_hang_up fd (g, up)) = devs" using b e by (simp add: link_hang_up_def pushed_devices del: dm_exec.simps)
  moreover have "connections g None (g\<lparr>gw_devices := devs\<rparr>)"
  proof (cases "r = DEVICE_MANAGER_OK")
    case True
    then show ?thesis using s(1)
      by (intro connections_update [of _ g "up_bound_node_id up" "the (dm_abs devs (up_bound_node_id up))"])
        (auto split: if_splits option.splits)
  next
    case False
    then show ?thesis using s(1) by (intro connections_same) (auto split: if_splits option.splits)
  qed
  ultimately show ?thesis by (auto intro: connections_same_right)
qed

lemma dm_abs_key:
  assumes "dm_inv m" "dm_abs m i = Some v" shows "i \<noteq> []"
proof -
  obtain k where "device_manager_find_index_locked m i = Some k" using assms(2) dm_find_None [of m i] by fastforce
  from dm_find_Some(2,3) [OF this assms(1)] show ?thesis by (auto simp: dev_ok_def)
qed

text \<open>After hanging up, the registry knows no connection of the worker any more.\<close>

lemma hang_up_gone:
  assumes inv: "dm_inv (gw_devices g)" and fd: "0 \<le> fd"
    and mine: "\<And>v. dm_abs (gw_devices g) i = Some v \<Longrightarrow> nv_online v \<Longrightarrow> nv_thread_id v = up_thread up
      \<Longrightarrow> up_bound_node_id up = i \<and> nv_fd v = fd"
    and v': "dm_abs (gw_devices (link_hang_up fd (g, up))) i = Some v'" "nv_online v'"
  shows "nv_thread_id v' \<noteq> up_thread up"
proof
  assume th: "nv_thread_id v' = up_thread up"
  obtain v where v: "dm_abs (gw_devices g) i = Some v" "same_connection v v'"
    using hang_up_connections [OF inv, of fd up] v' by (auto simp: connections_def)
  then have i: "up_bound_node_id up = i" "nv_fd v = fd" using mine [of v] th by (auto simp: same_connection_def)
  have "i \<noteq> []" using dm_abs_key [OF inv v(1)] by simp
  have "nv_thread_id v = up_thread up" using v(2) th by (simp add: same_connection_def)
  with hang_up_owner [OF inv, of up fd v] i v(1) fd \<open>i \<noteq> []\<close>
  have "dm_abs (gw_devices (link_hang_up fd (g, up))) i = Some (v\<lparr>nv_online := False, nv_fd := -1, nv_pending := []\<rparr>)"
    by simp
  with v'(1) have "v' = v\<lparr>nv_online := False, nv_fd := -1, nv_pending := []\<rparr>" by simp
  with v'(2) show False by simp
qed

lemma tcp_line_shared:
  assumes inv: "dm_inv (gw_devices g)"
  shows "connections g None (gateway_app_on_tcp_line os line g)" "gw_pushed (gateway_app_on_tcp_line os line g) = gw_pushed g"
    "server_side (gateway_app_on_tcp_line os line g) = server_side g"
proof -
  have nack: "gw_devices (snd (gateway_app_send_route_nack os command error g)) = gw_devices g"
    "gw_pushed (snd (gateway_app_send_route_nack os command error g)) = gw_pushed g"
    "server_side (snd (gateway_app_send_route_nack os command error g)) = server_side g" for command error g
    by (auto simp: gateway_app_send_route_nack_def send_logged_def Let_def server_side_def split: option.splits prod.splits)
  obtain n c where d: "message_json_decode_command (Some line) (Some zero_frame_command) = (n, c)" by fastforce
  obtain r devs where e: "device_manager_enqueue_command (gw_devices g) (Some (cmd_target_node (the c))) c = (r, devs)" by fastforce
  have s: "(r, dm_abs devs, []) = dm_spec (Enqueue (Some (cmd_target_node (the c))) c) (dm_abs (gw_devices g))"
    using dm_exec_step(1) [OF inv, of "Enqueue (Some (cmd_target_node (the c))) c"] e by simp
  have "connections g None (g\<lparr>gw_devices := devs\<rparr>)"
  proof (cases "r = DEVICE_MANAGER_OK")
    case True
    then show ?thesis using s
      by (intro connections_update [of _ g "cmd_target_node (the c)" "the (dm_abs devs (cmd_target_node (the c)))"])
        (auto simp: same_connection_def split: if_splits option.splits)
  next
    case False
    then show ?thesis using s by (intro connections_same) (auto split: if_splits option.splits)
  qed
  moreover have "gw_devices (gateway_app_on_tcp_line os line g) = (case n of None \<Rightarrow> gw_devices g | Some _ \<Rightarrow> devs)"
    by (auto simp: gateway_app_on_tcp_line_def d e nack decode_error_def split: option.splits)
  ultimately show "connections g None (gateway_app_on_tcp_line os line g)"
    by (auto simp: connections_same intro: connections_same_right split: option.splits)
  have same: "server_side (decode_error g) = server_side g" "gw_pushed (decode_error g) = gw_pushed g"
    "server_side (g\<lparr>gw_devices := devs\<rparr>) = server_side g"
    "server_side (g\<lparr>gw_devices := devs, gw_history := es\<rparr>) = server_side g" for es
    by (simp_all add: server_side_def decode_error_def)
  then show "gw_pushed (gateway_app_on_tcp_line os line g) = gw_pushed g"
    "server_side (gateway_app_on_tcp_line os line g) = server_side g"
    by (simp_all add: gateway_app_on_tcp_line_def d e nack split: option.splits)
qed

lemma hang_up_ran:
  assumes "dm_inv (gw_devices g)" shows "ran (g, up) (link_hang_up fd (g, up), up)"
proof -
  have "connections g (Some up) (link_hang_up fd (g, up))"
    using hang_up_connections [OF assms, of fd up] unfolding connections_def by blast
  then show ?thesis using explained_effect [OF hang_up_explained [OF assms]] hang_up_pushes [of g fd up] by (simp add: ran_def)
qed

lemma worker_try_send_ran:
  assumes inv: "dm_inv (gw_devices g)" and t: "worker_try_send os (g, up) = (r, g', up')"
  shows "up' = up" "ran (g, up) (g', up')"
proof -
  have all: "up' = up \<and> (\<exists>es. effect g es g') \<and> connections g None g' \<and> only_pushes g g'"
  proof (cases "up_transport up = DEVICE_TRANSPORT_BLUETOOTH")
    case True
    then have l: "link_try_send DEVICE_TRANSPORT_BLUETOOTH frame_encoding os (up_device_fd up) (g, up) = (r, g', up')"
      using t by (simp add: worker_try_send_def bluetooth_try_send_link)
    show ?thesis using bluetooth.try_send_explained [OF inv l] explained_effect try_send_connections [OF inv l] try_send_pushes [OF l] by blast
  next
    case False
    then have l: "link_try_send DEVICE_TRANSPORT_WIFI json_encoding os (up_device_fd up) (g, up) = (r, g', up')"
      using t by (cases "up_transport up") (simp_all add: worker_try_send_def wifi_try_send_link)
    show ?thesis using wifi.try_send_explained [OF inv l] explained_effect try_send_connections [OF inv l] try_send_pushes [OF l] by blast
  qed
  then have "connections g (Some up) g'" unfolding connections_def by blast
  with all show "up' = up" "ran (g, up) (g', up')" by (simp_all add: ran_def)
qed

section \<open>The invariant\<close>

definition worker_ok :: "system \<Rightarrow> nat \<Rightarrow> worker \<Rightarrow> bool" where
  "worker_ok s t w = (up_thread (wk_up w) = t \<and> 0 \<le> up_device_fd (wk_up w) \<and> list_all fits (wk_outbox w))"

definition workers_ok :: "system \<Rightarrow> bool" where
  "workers_ok s = (finite (dom (sy_workers s)) \<and> (\<forall>t w. sy_workers s t = Some w \<longrightarrow> worker_ok s t w))"

text \<open>Every connection of the registry belongs to a worker that serves it.\<close>

definition served :: "system \<Rightarrow> string \<Rightarrow> node_view \<Rightarrow> bool" where
  "served s i v = (case sy_workers s (nv_thread_id v) of
     None \<Rightarrow> False
   | Some w \<Rightarrow> wk_phase w \<noteq> Leaving \<and> up_bound_node_id (wk_up w) = i \<and> up_device_fd (wk_up w) = nv_fd v
       \<and> up_transport (wk_up w) = nv_transport v)"

definition all_served :: "system \<Rightarrow> bool" where
  "all_served s = (\<forall>i v. dm_abs (gw_devices (sy_gateway s)) i = Some v \<longrightarrow> nv_online v \<longrightarrow> served s i v)"

definition of_thread :: "nat \<Rightarrow> (nat \<times> gateway_message) list \<Rightarrow> gateway_message list" where
  "of_thread t xs = map snd (filter (\<lambda>x. fst x = t) xs)"

definition outbox :: "system \<Rightarrow> nat \<Rightarrow> gateway_message list" where
  "outbox s t = (case sy_workers s t of None \<Rightarrow> [] | Some w \<Rightarrow> wk_outbox w)"

definition upstream_ok :: "system \<Rightarrow> bool" where
  "upstream_ok s =
     ((\<forall>t. of_thread t (sy_produced s) = of_thread t (sy_accepted s) @ of_thread t (sy_refused s) @ outbox s t)
      \<and> map snd (sy_produced s) = gw_pushed (sy_gateway s)
      \<and> map snd (sy_accepted s) = link_messages (sy_link s)
      \<and> (sy_refused s \<noteq> [] \<longrightarrow> mq_shutting_down (sy_queue s)))"

definition phase_ok :: "system \<Rightarrow> bool" where
  "phase_ok s = ((sy_phase s = At_Send \<longrightarrow> 0 \<le> gc_tcp_fd (gw_context (sy_gateway s))) \<and> (sy_phase s \<noteq> At_Lines \<longrightarrow> sy_lines s = []))"

definition system_inv :: "system \<Rightarrow> bool" where
  "system_inv s = (link_ok (sy_link s) \<and> offline_empty (gw_devices (sy_gateway s)) \<and> workers_ok s \<and> all_served s \<and> upstream_ok s \<and> phase_ok s)"

lemmas system_invs = system_inv_def workers_ok_def worker_ok_def all_served_def upstream_ok_def phase_ok_def

lemma of_thread_simps [simp]:
  "of_thread t [] = []" "of_thread t (xs @ ys) = of_thread t xs @ of_thread t ys"
  "of_thread t (x # xs) = (if fst x = t then snd x # of_thread t xs else of_thread t xs)"
  "of_thread t (map (Pair u) ms) = (if u = t then ms else [])"
proof -
  show "of_thread t (map (Pair u) ms) = (if u = t then ms else [])" by (induction ms) (auto simp: of_thread_def)
qed (simp_all add: of_thread_def)

definition sy_ip :: "system \<Rightarrow> string option" where "sy_ip s = gc_server_ip (gw_context (sy_gateway s))"

text \<open>A worker with an empty outbox runs.\<close>

lemma worker_ran_inv:
  assumes inv: "system_inv s" and w: "sy_workers s t = Some w" "wk_outbox w = []" "wk_phase w \<noteq> Leaving"
    and r: "ran (sy_gateway s, wk_up w) (g, up)"
    and gone: "phase = Leaving \<Longrightarrow> \<forall>i v. dm_abs (gw_devices g) i = Some v \<longrightarrow> nv_online v \<longrightarrow> nv_thread_id v \<noteq> t"
  shows "system_inv (worker_ran t phase (g, up) s) \<and> (\<exists>es. effect (sy_gateway s) es (sy_gateway (worker_ran t phase (g, up) s)))
    \<and> sy_ip (worker_ran t phase (g, up) s) = sy_ip s"
proof -
  obtain ms where ms: "gw_pushed g = gw_pushed (sy_gateway s) @ ms" "list_all fits ms"
    using r by (auto simp: ran_def only_pushes_def)
  obtain es where es: "effect (sy_gateway s) es g" using r by (auto simp: ran_def)
  let ?s = "worker_ran t phase (g, up) s"
  have up: "up_thread up = up_thread (wk_up w)" "up_device_fd up = up_device_fd (wk_up w)" "up_transport up = up_transport (wk_up w)"
    using r by (auto simp: ran_def) (metis (no_types) upstream_context.select_convs upstream_context.surjective upstream_context.update_convs(3))+
  have s': "sy_gateway ?s = g" "sy_workers ?s = (sy_workers s)(t \<mapsto> \<lparr>wk_up = up, wk_phase = phase, wk_outbox = ms\<rparr>)"
    "sy_link ?s = (sy_link s)\<lparr>ln_gateway := g\<rparr>" "sy_produced ?s = sy_produced s @ map (Pair t) ms" "sy_accepted ?s = sy_accepted s"
    "sy_refused ?s = sy_refused s" "sy_phase ?s = sy_phase s" "sy_lines ?s = sy_lines s"
    using ms by (simp_all add: worker_ran_def Let_def)
  note i = inv [unfolded system_invs]
  have "link_ok (sy_link ?s)" using i effect_inv [OF es] by (simp add: s' link_ok_def)
  moreover have "offline_empty (gw_devices g)" using i r by (simp add: ran_def connections_def)
  moreover have "workers_ok ?s" using i w ms up by (auto simp: workers_ok_def worker_ok_def s')
  moreover have "all_served ?s"
    unfolding all_served_def s'(1)
  proof (intro allI impI)
    fix n v' assume v': "dm_abs (gw_devices g) n = Some v'" "nv_online v'"
    have not_gone: "phase \<noteq> Leaving" if "nv_thread_id v' = t" using gone v' that by blast
    from r v' consider (old) v where "dm_abs (gw_devices (sy_gateway s)) n = Some v" "same_connection v v'"
      | (new) "connection_of up n v'" by (auto simp: ran_def connections_def)
    then show "served ?s n v'"
    proof cases
      case old
      then have o: "served s n v" using i by (simp add: same_connection_def)
      have "n \<noteq> []" using dm_abs_key i old(1) by (auto simp: link_ok_def)
      moreover have "up_bound_node_id (wk_up w) \<in> {[], up_bound_node_id up}" using r by (simp add: ran_def)
      ultimately show ?thesis using o old(2) not_gone w up
        by (auto simp: served_def same_connection_def s' split: option.splits if_splits)
    next
      case new
      moreover have "up_thread (wk_up w) = t" using i w by simp
      ultimately show ?thesis using not_gone up by (simp add: served_def connection_of_def s')
    qed
  qed
  moreover have "upstream_ok ?s"
  proof -
    have "outbox ?s u = outbox s u @ (if t = u then ms else [])" for u using w by (auto simp: outbox_def s')
    moreover have "sy_refused s \<noteq> [] \<longrightarrow> mq_shutting_down (sy_queue s)" using i by blast
    ultimately show ?thesis using i ms(1) by (simp add: upstream_ok_def s' link_messages_def comp_def)
  qed
  moreover have "phase_ok ?s"
    using i r by (auto simp: phase_ok_def s' ran_def only_pushes_def server_side_def)
  moreover have "sy_ip ?s = sy_ip s" using r by (simp add: s' ran_def only_pushes_def server_side_def sy_ip_def)
  ultimately show ?thesis using es s'(1) by (auto simp: system_inv_def)
qed

text \<open>The server thread runs: it touches no device, and its messages stay together.\<close>

definition link_local :: "server_link \<Rightarrow> server_link \<Rightarrow> bool" where
  "link_local l l' =
     (link_progress l [] l' \<and> gw_devices (ln_gateway l') = gw_devices (ln_gateway l)
      \<and> gw_pushed (ln_gateway l') = gw_pushed (ln_gateway l) \<and> mq_shutting_down (ln_queue l') = mq_shutting_down (ln_queue l)
      \<and> gc_server_ip (gw_context (ln_gateway l')) = gc_server_ip (gw_context (ln_gateway l)))"

lemma link_local_inv:
  assumes inv: "system_inv s" and l: "link_local (sy_link s) l"
    and ph: "phase = At_Send \<longrightarrow> 0 \<le> gc_tcp_fd (gw_context (ln_gateway l))" "phase \<noteq> At_Lines \<longrightarrow> ls = []"
  shows "system_inv (s\<lparr>sy_link := l, sy_phase := phase, sy_lines := ls\<rparr>) \<and> (\<exists>es. effect (sy_gateway s) es (ln_gateway l))
    \<and> gc_server_ip (gw_context (ln_gateway l)) = sy_ip s"
proof -
  have "upstream_ok (s\<lparr>sy_link := l, sy_phase := phase, sy_lines := ls\<rparr>)"
    using inv l by (simp add: system_invs link_local_def link_progress_def outbox_def)
  then show ?thesis
    using inv l ph by (auto simp: system_invs link_local_def link_progress_def served_def sy_ip_def)
qed

lemma link_local_trans: "link_local l l' \<Longrightarrow> link_local l' l'' \<Longrightarrow> link_local l l''"
  using link_progress_trans [of l "[]" l' "[]" l''] by (simp add: link_local_def)

lemma link_local_ok: "link_local l l' \<Longrightarrow> link_ok l'" by (simp add: link_local_def link_progress_def)

lemma pop_local: "link_ok l \<Longrightarrow> link_local l (snd (server_link_pop l))"
  using pop_progress [of l]
  by (auto simp: link_local_def server_link_pop_def message_queue_try_pop_def mq_take_def split: option.splits prod.splits)

lemma connect_local: "link_ok l \<Longrightarrow> link_local l (snd (server_link_connect t l))"
  using connect_progress [of l t]
  by (auto simp: link_local_def server_link_connect_def gateway_app_try_tcp_connect_def Let_def split: prod.splits)

lemma disconnect_local: "link_ok l \<Longrightarrow> link_local l (server_link_disconnect now l)"
  using disconnect_progress [of l now] by (simp add: link_local_def server_link_disconnect_def Let_def)

lemma ended_local: "link_ok l \<Longrightarrow> link_local l (link_ended l)"
  unfolding link_local_def
  by (intro conjI link_progress_same) (auto simp: link_ended_def same_books_def link_ok_def)

lemma send_local: "link_ok l \<Longrightarrow> 0 \<le> gc_tcp_fd (gw_context (ln_gateway l)) \<Longrightarrow> link_local l (snd (server_link_send os now l))"
  using send_progress [of l os now]
  by (auto simp: link_local_def server_link_send_def server_link_disconnect_def Let_def split: option.splits prod.splits)

lemma received_local:
  assumes "link_ok l" "link_received bytes l = (ls, l')" shows "link_local l l'"
proof -
  have "length (the (fst (line_parser_feed (Some (ln_buffer l @ bytes)) SERVER_LINK_BUFFER_SIZE (Some (\<lambda>line ls. ls @ [line])) [])))
      \<le> length (ln_buffer l @ bytes)" by (rule line_parser_rest_length)
  then have "link_ok l'" and same: "\<exists>b. l' = l\<lparr>ln_buffer := b\<rparr>"
    using assms by (auto simp: link_received_def link_ok_def split: if_splits prod.splits)
  from same \<open>link_ok l'\<close> show ?thesis
    unfolding link_local_def by (intro conjI link_progress_same assms(1)) (auto simp: same_books_def)
qed

section \<open>Every step keeps the invariant\<close>

lemma push_inv:
  assumes inv: "system_inv s" and w: "sy_workers s t = Some w" "wk_outbox w = m # ms"
    and p: "message_queue_push (sy_queue s) (Some m) = (Some r, q)"
  defines "s' \<equiv> s\<lparr>sy_link := (sy_link s)\<lparr>ln_queue := q\<rparr>, sy_workers := (sy_workers s)(t \<mapsto> w\<lparr>wk_outbox := ms\<rparr>),
     sy_accepted := sy_accepted s @ (if r = MESSAGE_QUEUE_OK then [(t, m)] else []),
     sy_refused := sy_refused s @ (if r = MESSAGE_QUEUE_OK then [] else [(t, m)])\<rparr>"
  shows "system_inv s'"
proof -
  note i = inv [unfolded system_invs]
  have "list_all fits (m # ms)" using i w by metis
  then have fits: "msg_length m \<le> GATEWAY_MESSAGE_MAX_SIZE" "list_all fits ms" by (simp_all add: fits_def)
  have q: "mq_inv (sy_queue s)" using i by (simp add: link_ok_def)
  have qs: "(r = MESSAGE_QUEUE_OK \<and> \<not> mq_shutting_down (sy_queue s) \<and> mq_inv q \<and> mq_contents q = mq_contents (sy_queue s) @ [m])
      \<or> (r \<noteq> MESSAGE_QUEUE_OK \<and> mq_shutting_down (sy_queue s) \<and> q = sy_queue s)"
  proof (cases "mq_shutting_down (sy_queue s)")
    case True
    then show ?thesis using p fits by (auto simp: message_queue_push_def split: if_splits)
  next
    case False
    then have "r = MESSAGE_QUEUE_OK" "q = mq_put m (sy_queue s)" "mq_count (sy_queue s) < MESSAGE_QUEUE_CAPACITY"
      using p fits q by (auto simp: message_queue_push_def mq_inv_def split: if_splits)
    then show ?thesis using False mq_put_inv [OF q] mq_put_contents [OF q] by simp
  qed
  have shut: "mq_shutting_down q = mq_shutting_down (sy_queue s)"
    using p fits by (auto simp: message_queue_push_def mq_put_def split: if_splits)
  have out: "outbox s u = (if u = t then m # ms else outbox s' u)" "outbox s' t = ms" for u
    using w by (auto simp: outbox_def s'_def)
  have "upstream_ok s'"
  proof -
    have "of_thread u (sy_produced s') = of_thread u (sy_accepted s') @ of_thread u (sy_refused s') @ outbox s' u" for u
      using i qs out(1) [of u] out(2) by (auto simp: s'_def)
    then show ?thesis using i qs shut by (auto simp: upstream_ok_def s'_def link_messages_def)
  qed
  moreover have "link_ok (sy_link s')" using i qs by (auto simp: link_ok_def s'_def)
  moreover have "workers_ok s'" using i w fits(2) by (auto simp: workers_ok_def worker_ok_def s'_def)
  moreover have "offline_empty (gw_devices (sy_gateway s'))" using i by (simp add: s'_def)
  moreover have "all_served s'" using i w unfolding all_served_def
    by (force simp: served_def s'_def split: option.splits)
  moreover have "phase_ok s'" using i by (simp add: phase_ok_def s'_def)
  ultimately show ?thesis by (simp add: system_inv_def)
qed

lemma keep_lines:
  "sy_lines s = [] \<Longrightarrow> s\<lparr>sy_link := l, sy_phase := ph, sy_lines := []\<rparr> = s\<lparr>sy_link := l, sy_phase := ph\<rparr>"
  "sy_lines s = [] \<Longrightarrow> s\<lparr>sy_phase := ph, sy_lines := []\<rparr> = s\<lparr>sy_phase := ph\<rparr>"
  by (cases s; simp)+

lemma step_inv:
  assumes "system_step s s'" "system_inv s"
  shows "system_inv s' \<and> (\<exists>es. effect (sy_gateway s) es (sy_gateway s')) \<and> sy_ip s' = sy_ip s"
  using assms
proof (cases rule: system_step.cases)
  case (connect t fd tr)
  note i = assms(2) [unfolded system_invs]
  have same: "same_books (sy_gateway s) (sy_gateway s')" "server_side (sy_gateway s') = server_side (sy_gateway s)"
    by (simp_all add: connect connect_worker_def same_books_def server_side_def)
  have "outbox s' u = outbox s u" for u using connect(2) by (auto simp: connect(1) outbox_def connect_worker_def)
  moreover have "served s' n v" if "served s n v" for n v
    using that connect(2) by (auto simp: connect(1) served_def connect_worker_def split: option.splits)
  ultimately have "system_inv s'"
    using i same connect(3) unfolding system_invs
    by (auto simp: connect(1) connect_worker_def same_books_def server_side_def link_ok_def link_messages_def)
  then show ?thesis using same_books_effect [OF same(1)] i same(2) by (auto simp: link_ok_def server_side_def sy_ip_def)
next
  case (report t w frame line now)
  have inv: "dm_inv (gw_devices (sy_gateway s))" using assms(2) by (simp add: system_inv_def link_ok_def)
  obtain g up where r: "worker_report now frame line (sy_gateway s, wk_up w) = (g, up)" by fastforce
  have "ran (sy_gateway s, wk_up w) (g, up)" using report_ran [OF inv] r worker_report_cases by metis
  then show ?thesis using worker_ran_inv [OF assms(2) report(2,4) _ _, of g up Serving] report r by simp
next
  case (try_send t w os r g up)
  have inv: "dm_inv (gw_devices (sy_gateway s))" using assms(2) by (simp add: system_inv_def link_ok_def)
  from worker_try_send_ran [OF inv try_send(5)] show ?thesis
    using worker_ran_inv [OF assms(2) try_send(2,4) _, of g up "if r = Worker_Error then Lost else Serving"] try_send(1,3)
    by (simp split: if_splits)
next
  case (hang_up t w)
  note i = assms(2) [unfolded system_invs]
  have inv: "dm_inv (gw_devices (sy_gateway s))" using assms(2) by (simp add: system_inv_def link_ok_def)
  have w: "up_thread (wk_up w) = t" "0 \<le> up_device_fd (wk_up w)" using i hang_up(2) by auto
  let ?g = "link_hang_up (up_device_fd (wk_up w)) (sy_gateway s, wk_up w)"
  have gone: "nv_thread_id v \<noteq> t" if v: "dm_abs (gw_devices ?g) n = Some v" "nv_online v" for n v
  proof -
    have "nv_thread_id v \<noteq> up_thread (wk_up w)"
    proof (rule hang_up_gone [OF inv w(2) _ v])
      fix v' assume v': "dm_abs (gw_devices (sy_gateway s)) n = Some v'" "nv_online v'" "nv_thread_id v' = up_thread (wk_up w)"
      then have "served s n v'" using i by blast
      then show "up_bound_node_id (wk_up w) = n \<and> nv_fd v' = up_device_fd (wk_up w)"
        using v'(3) w(1) hang_up(2) by (simp add: served_def)
    qed
    then show ?thesis using w(1) by simp
  qed
  have r: "ran (sy_gateway s, wk_up w) (?g, wk_up w)" by (rule hang_up_ran [OF inv])
  show ?thesis
    using worker_ran_inv [OF assms(2) hang_up(2,4,3) r, of Leaving] gone hang_up(1) by (simp add: worker_disconnect_link)
next
  case (close_fd t w)
  note i = assms(2) [unfolded system_invs]
  have same: "same_books (sy_gateway s) (sy_gateway s')" "server_side (sy_gateway s') = server_side (sy_gateway s)"
    by (simp_all add: close_fd remove_worker_def same_books_def server_side_def)
  have "outbox s' u = outbox s u" for u using close_fd(2,4) by (auto simp: close_fd(1) outbox_def remove_worker_def)
  moreover have "served s' n v" if "served s n v" for n v
    using that close_fd(2,3) by (auto simp: close_fd(1) served_def remove_worker_def split: option.splits)
  ultimately have "system_inv s'"
    using i same unfolding system_invs
    by (auto simp: close_fd(1) remove_worker_def same_books_def server_side_def link_ok_def link_messages_def)
  then show ?thesis using same_books_effect [OF same(1)] i same(2) by (auto simp: link_ok_def server_side_def sy_ip_def)
next
  case (push t w m ms r q)
  have "dm_inv (gw_devices (sy_gateway s))" using assms(2) by (simp add: system_inv_def link_ok_def)
  with push_inv [OF assms(2) push(2-4)] effect_refl show ?thesis by (auto simp: push(1) sy_ip_def)
next
  case shutdown
  have inv: "dm_inv (gw_devices (sy_gateway s))" using assms(2) by (simp add: system_inv_def link_ok_def)
  have "system_inv s'"
    using assms(2)
    by (simp add: shutdown system_invs message_queue_shutdown_def link_ok_def mq_inv_def mq_contents_def link_messages_def
        outbox_def served_def)
  moreover have "effect (sy_gateway s) [] (sy_gateway s')" "sy_ip s' = sy_ip s" using effect_refl [OF inv] by (simp_all add: shutdown sy_ip_def)
  ultimately show ?thesis by blast
next
  case (link_pop go l)
  have ok: "link_ok (sy_link s)" using assms(2) by (simp add: system_inv_def)
  have l: "link_local (sy_link s) l" using pop_local [OF ok] link_pop(3) by simp
  then have e: "link_local (sy_link s) (link_ended l)"
    by (rule link_local_trans) (rule ended_local [OF link_local_ok [OF l]])
  have ls: "sy_lines s = []" using assms(2) link_pop(2) by (simp add: system_invs)
  show ?thesis
    using link_local_inv [OF assms(2) l, of At_Connect "[]"] link_local_inv [OF assms(2) e, of Link_Ended "[]"] ls
    by (simp add: link_pop(1) keep_lines sy_ip_def)
next
  case (link_connect turn go l)
  have ok: "link_ok (sy_link s)" using assms(2) by (simp add: system_inv_def)
  have l: "link_local (sy_link s) l" using connect_local [OF ok, of turn] link_connect(3) by simp
  have ls: "sy_lines s = []" using assms(2) link_connect(2) by (simp add: system_invs)
  have "go \<longrightarrow> 0 \<le> gc_tcp_fd (gw_context (ln_gateway l))"
    using link_connect(3) by (auto simp: server_link_connect_def Let_def split: if_splits prod.splits)
  then show ?thesis
    using link_local_inv [OF assms(2) l, of "if go then At_Send else At_Top" "[]"] ls
    by (simp add: link_connect(1) keep_lines sy_ip_def split: if_splits)
next
  case (link_send os now go l)
  have ok: "link_ok (sy_link s)" "0 \<le> gc_tcp_fd (gw_context (sy_gateway s))" using assms(2) link_send(2) by (simp_all add: system_invs)
  have l: "link_local (sy_link s) l" using send_local [OF ok, of os now] link_send(3) by simp
  have ls: "sy_lines s = []" using assms(2) link_send(2) by (simp add: system_invs)
  show ?thesis
    using link_local_inv [OF assms(2) l, of "if go then At_Receive else At_Top" "[]"] ls
    by (simp add: link_send(1) keep_lines sy_ip_def split: if_splits)
next
  case (link_receive bytes ls l)
  have l: "link_local (sy_link s) l" using received_local [OF _ link_receive(4)] assms(2) by (simp add: system_inv_def)
  show ?thesis using link_local_inv [OF assms(2) l, of At_Lines ls] by (simp add: link_receive(1) sy_ip_def)
next
  case (link_line line ls os)
  note i = assms(2) [unfolded system_invs]
  have inv: "dm_inv (gw_devices (sy_gateway s))" using i by (simp add: link_ok_def)
  let ?g = "gateway_app_on_tcp_line os line (sy_gateway s)"
  from tcp_line_accountable inv obtain es where es: "effect (sy_gateway s) es ?g"
    unfolding accountable_by_def explained_def by blast
  note t = tcp_line_shared [OF inv, of os line]
  have "all_served s'"
    unfolding all_served_def
  proof (intro allI impI)
    fix n v' assume v': "dm_abs (gw_devices (sy_gateway s')) n = Some v'" "nv_online v'"
    then obtain v where v: "dm_abs (gw_devices (sy_gateway s)) n = Some v" "same_connection v v'"
      using t(1) by (auto simp: link_line(1) connections_def)
    then have "served s n v" using i by (simp add: same_connection_def)
    then show "served s' n v'" using v(2) by (simp add: served_def same_connection_def link_line(1) split: option.splits)
  qed
  moreover have "offline_empty (gw_devices ?g)" using t(1) i by (simp add: connections_def)
  moreover have "upstream_ok s'" using i t(2) by (simp add: upstream_ok_def link_line(1) link_messages_def outbox_def)
  moreover have "link_ok (sy_link s')" using i effect_inv [OF es] by (simp add: link_line(1) link_ok_def)
  moreover have "workers_ok s'" "phase_ok s'" using i link_line(2) by (simp_all add: workers_ok_def worker_ok_def phase_ok_def link_line(1))
  ultimately show ?thesis using es t(3) by (auto simp: system_inv_def link_line(1) sy_ip_def server_side_def)
next
  case link_next
  have ok: "link_ok (sy_link s)" using assms(2) by (simp add: system_inv_def)
  then have "link_local (sy_link s) (sy_link s)" by (simp add: link_local_def link_progress_refl)
  from link_local_inv [OF assms(2) this, of At_Top "[]"] show ?thesis using link_next(3) by (simp add: link_next(1) keep_lines sy_ip_def)
next
  case (link_lost now)
  have ok: "link_ok (sy_link s)" using assms(2) by (simp add: system_inv_def)
  from link_local_inv [OF assms(2) disconnect_local [OF this, of now], of At_Top "[]"] show ?thesis
    using link_lost(3) by (simp add: link_lost(1) keep_lines sy_ip_def)
next
  case link_stop
  have ok: "link_ok (sy_link s)" using assms(2) by (simp add: system_inv_def)
  have "sy_lines s = []" using assms(2) link_stop(2) by (simp add: system_invs)
  with link_local_inv [OF assms(2) ended_local [OF ok], of Link_Ended "[]"] show ?thesis
    by (simp add: link_stop(1) keep_lines sy_ip_def)
qed

lemma steps_inv:
  assumes "system_steps s s'" "system_inv s"
  shows "system_inv s' \<and> (\<exists>es. effect (sy_gateway s) es (sy_gateway s')) \<and> sy_ip s' = sy_ip s"
  using assms(1)
proof (induction rule: rtranclp_induct)
  case base
  have "dm_inv (gw_devices (sy_gateway s))" using assms(2) by (simp add: system_inv_def link_ok_def)
  with assms(2) effect_refl show ?case by blast
next
  case (step s1 s2)
  from step(3) have i: "system_inv s1" "sy_ip s1 = sy_ip s" by auto
  from step(3) obtain es where "effect (sy_gateway s) es (sy_gateway s1)" by blast
  with step_inv [OF step(2) i(1)] i(2) effect_trans show ?case by metis
qed

lemma start_inv:
  assumes "length items = 32" shows "system_inv (system_start ip port items)"
proof -
  have "mq_inv (sy_queue (system_start ip port items))" "mq_count (sy_queue (system_start ip port items)) = 0"
    using assms by (simp_all add: system_start_def message_queue_init_def mq_inv_def mq_consts Let_def)
  then show ?thesis
    by (auto simp: system_start_def system_invs link_ok_def device_manager_init_def dm_inv_def link_messages_def outbox_def
        mq_contents_def ring_contents_def dm_abs_def table_map_def dm_consts offline_empty_def)
qed

lemma reachable_inv: "length items = 32 \<Longrightarrow> system_steps (system_start ip port items) s \<Longrightarrow> system_inv s"
  using steps_inv start_inv by blast

section \<open>What holds in every reachable state\<close>

text \<open>C8: The registry knows no ghost: however the threads of the gateway interleave, whatever connects,
  hangs up, is taken over or comes back under the same thread, an entry that is online belongs to a
  worker that serves this very connection: it has the thread and the open descriptor of the entry, is
  bound to this node, and has not hung up. (So it does no harm that
  \<open>device_manager_try_dequeue_command\<close> does not look at the descriptor.)\<close>
theorem no_ghost_connections:
  assumes "length items = 32" "system_steps (system_start ip port items) s"
    and "dm_abs (gw_devices (sy_gateway s)) node = Some v" "nv_online v"
  shows "\<exists>w. sy_workers s (nv_thread_id v) = Some w \<and> wk_phase w \<noteq> Leaving \<and> up_bound_node_id (wk_up w) = node
     \<and> up_thread (wk_up w) = nv_thread_id v \<and> up_device_fd (wk_up w) = nv_fd v \<and> 0 \<le> nv_fd v
     \<and> up_transport (wk_up w) = nv_transport v"
proof -
  note i = reachable_inv [OF assms(1,2), unfolded system_invs]
  then have "served s node v" using assms(3,4) by blast
  then obtain w where w: "sy_workers s (nv_thread_id v) = Some w" "wk_phase w \<noteq> Leaving" "up_bound_node_id (wk_up w) = node"
    "up_device_fd (wk_up w) = nv_fd v" "up_transport (wk_up w) = nv_transport v"
    by (auto simp: served_def split: option.splits)
  with i have "up_thread (wk_up w) = nv_thread_id v \<and> 0 \<le> up_device_fd (wk_up w)" by blast
  with w show ?thesis by auto
qed

theorem no_ghost_connections_witness:
  "\<exists>s w. system_steps example_start s \<and> dom (dm_abs (gw_devices (sy_gateway s))) = {''N1''} \<and> sy_workers s 1 = Some w
     \<and> up_bound_node_id (wk_up w) = ''N1'' \<and> up_device_fd (wk_up w) = 5"
proof -
  obtain s w where s: "system_steps example_start s"
    "dm_abs (gw_devices (sy_gateway s)) = [''N1'' \<mapsto> (fresh_view DEVICE_TRANSPORT_BLUETOOTH 5 True 1 20)\<lparr>nv_pending := [example_command 1]\<rparr>]"
    by (rule system_example_run)
  from no_ghost_connections [OF example_items s(1), of "''N1''"] s(2) obtain w' where
    "sy_workers s 1 = Some w'" "up_bound_node_id (wk_up w') = ''N1''" "up_device_fd (wk_up w') = 5" by (auto simp: fresh_view_def)
  with s show ?thesis by (intro exI [of _ s] exI [of _ w']) simp
qed

text \<open>C5: No report is lost on its way through the gateway: in every reachable state, what a thread has
  wanted to push is, in this order, what the queue has accepted, what it has refused, and what the
  thread still has to push; what the queue has accepted is, in order, what the server thread has sent,
  the message it holds, and the contents of the queue; nothing is refused before the shutdown.\<close>
theorem upstream_conserved:
  assumes "length items = 32" "system_steps (system_start ip port items) s"
  shows "(\<forall>t. of_thread t (sy_produced s) = of_thread t (sy_accepted s) @ of_thread t (sy_refused s) @ outbox s t)
    \<and> map snd (sy_produced s) = gw_pushed (sy_gateway s)
    \<and> map snd (sy_accepted s) = ln_done (sy_link s)
        @ (case ln_pending (sy_link s) of None \<Rightarrow> [] | Some m \<Rightarrow> [m]) @ mq_contents (sy_queue s)
    \<and> length (mq_contents (sy_queue s)) \<le> 32 \<and> (sy_refused s = [] \<or> mq_shutting_down (sy_queue s))"
proof -
  note i = reachable_inv [OF assms, unfolded system_invs]
  have "length (mq_contents (sy_queue s)) \<le> 32"
    using i mq.size_bound [of "sy_queue s"] mq.size_contents [of "sy_queue s"] by (simp add: link_ok_def mq_consts)
  then show ?thesis using i by (auto simp: link_messages_def)
qed

theorem upstream_conserved_witness:
  "\<exists>s. system_steps example_start s \<and> length (sy_produced s) = 1 \<and> sy_refused s = []
     \<and> length (of_thread 1 (sy_produced s)) = length (of_thread 1 (sy_accepted s)) + length (outbox s 1)"
proof -
  obtain s w where s: "system_steps example_start s" "\<not> mq_shutting_down (sy_queue s)" "length (gw_pushed (sy_gateway s)) = 1"
    by (rule system_example_run)
  from upstream_conserved [OF example_items s(1)] s(2) have u: "sy_refused s = []" "map snd (sy_produced s) = gw_pushed (sy_gateway s)"
    "of_thread 1 (sy_produced s) = of_thread 1 (sy_accepted s) @ of_thread 1 (sy_refused s) @ outbox s 1" by auto
  then have "length (sy_produced s) = 1" using s(3) by (metis length_map)
  with u s(1) show ?thesis by (intro exI [of _ s]) simp
qed

text \<open>C4: No command is lost in the gateway: in any reachable state, the history, that is the events that
  the operations noted where they happened, accounts for everything. Every event is in order: a
  queued command was decoded from a line of the server, a written one was sent in full as the encoding
  of its transport, a refusal has one of the code's reasons, a report is that of a frame or a line.
  For every node the commands queued so far are, in order, those settled (written in full, or
  refused or failed, with exactly one NACK) and then those still pending. The messages the workers
  produced and the sends on the wire are those of the events, one for one and in order.\<close>
theorem commands_accounted_for:
  assumes "length items = 32" "system_steps (system_start ip port items) s"
  shows "let es = gw_history (sy_gateway s) in
       list_all event_ok es \<and> (\<forall>i. queued i es = settled i es @ pending (sy_gateway s) i)
       \<and> map snd (sy_produced s) = pushed_by es \<and> gw_sent (sy_gateway s) = sent_by es"
proof -
  obtain es where es: "effect (sy_gateway (system_start ip port items)) es (sy_gateway s)"
    using steps_inv [OF assms(2) start_inv [OF assms(1)]] by blast
  have "pending (sy_gateway (system_start ip port items)) i = []" for i
    by (simp add: pending_def system_start_def device_manager_init_def dm_abs_def table_map_def)
  moreover have "map snd (sy_produced s) = gw_pushed (sy_gateway s)"
    using reachable_inv [OF assms] by (simp add: system_invs)
  ultimately show ?thesis
    using es by (simp add: effect_def system_start_def Let_def)
qed

theorem commands_accounted_for_witness:
  "\<exists>s. system_steps example_start s
     \<and> queued ''N1'' (gw_history (sy_gateway s)) = settled ''N1'' (gw_history (sy_gateway s)) @ [example_command 1]"
proof -
  obtain s w where s: "system_steps example_start s"
    "dm_abs (gw_devices (sy_gateway s)) = [''N1'' \<mapsto> (fresh_view DEVICE_TRANSPORT_BLUETOOTH 5 True 1 20)\<lparr>nv_pending := [example_command 1]\<rparr>]"
    by (rule system_example_run)
  from commands_accounted_for [OF example_items s(1)]
  have "\<forall>i. queued i (gw_history (sy_gateway s)) = settled i (gw_history (sy_gateway s)) @ pending (sy_gateway s) i"
    by (simp add: Let_def)
  then have "queued ''N1'' (gw_history (sy_gateway s)) = settled ''N1'' (gw_history (sy_gateway s)) @ [example_command 1]"
    by (simp add: pending_def s(2))
  with s(1) show ?thesis by blast
qed

text \<open>A command that is sent goes to the connection of its target.\<close>

lemma try_send_where:
  assumes "link_try_send tr encode os fd (g, up) = (Command_Sent, g', up')"
  shows "\<exists>x. gw_sent g' = gw_sent g @ [x] \<and> sent_fd x = fd"
proof -
  have "\<exists>x. gw_sent g' = gw_sent g @ [x] \<and> sent_fd x = fd" if "link_send tr os fd node c bytes g = (Command_Sent, g')" for node c bytes g g'
    using that by (auto simp: link_send_def send_logged_def Let_def split: option.splits prod.splits if_splits)
  with assms show ?thesis by (fastforce simp: link_try_send_def simp del: dm_exec.simps split: if_splits prod.splits)
qed

context command_link
begin

lemma sent_to_owner:
  assumes inv: "dm_inv (gw_devices g)" and t: "link_try_send transport encode os fd (g, up) = (Command_Sent, g', up')"
  shows "\<exists>v c x. dm_abs (gw_devices g) (up_bound_node_id up) = Some v \<and> nv_online v \<and> nv_thread_id v = up_thread up
     \<and> nv_pending v = c # pending g' (up_bound_node_id up) \<and> cmd_target_node c = up_bound_node_id up
     \<and> gw_sent g' = gw_sent g @ [x] \<and> sent_fd x = fd \<and> sent_count x = length (sent_data x) \<and> sent_data x = command_bytes transport c"
proof -
  let ?i = "up_bound_node_id up"
  have "\<not> (\<not> owner g up \<or> fd < 0 \<or> ?i = [])" using try_send_not_owner [OF inv _ t] by blast
  then have own: "owner g up" "0 \<le> fd" "?i \<noteq> []" by auto
  from own(1) obtain v where v: "dm_abs (gw_devices g) ?i = Some v" "nv_online v" "nv_thread_id v = up_thread up"
    by (auto simp: owner_def split: option.splits)
  have p: "pending g ?i = nv_pending v" using v by (simp add: pending_def)
  note o = try_send_owner [OF inv own(2,3,1) t]
  then obtain c cs where c: "nv_pending v = c # cs" by (cases "nv_pending v") (auto simp: p)
  with o obtain x where e: "effect g [Written transport c x] g'" by (auto simp: p)
  have "cmd_target_node c = ?i" using pending_facts(2) [OF inv, of ?i] by (simp add: p c)
  then have "pending g ?i = c # pending g' ?i" "gw_sent g' = gw_sent g @ [x]" "sent_count x = length (sent_data x)"
    "sent_data x = command_bytes transport c" using e by (auto simp: effect_def event_defs)
  with v p c \<open>cmd_target_node c = ?i\<close> try_send_where [OF t] show ?thesis
    by (intro exI [of _ v] exI [of _ c] exI [of _ x]) auto
qed

end

text \<open>C7: A command goes to the node it is for: when a worker of the running system sends a command, the
  registry has its node online with this worker's thread and this worker's descriptor, the command is
  the oldest of those pending for this node, it is for this node, the bytes that encode it (a CMD frame
  on Bluetooth, a JSON line on Wi-Fi) are written in full to this descriptor, and the commands behind it stay.\<close>
theorem command_reaches_its_node:
  assumes "length items = 32" "system_steps (system_start ip port items) s"
    and "sy_workers s t = Some w" "worker_try_send os (sy_gateway s, wk_up w) = (Command_Sent, g, up)"
  shows "\<exists>v c x. dm_abs (gw_devices (sy_gateway s)) (up_bound_node_id (wk_up w)) = Some v \<and> nv_online v \<and> nv_thread_id v = t
     \<and> nv_fd v = up_device_fd (wk_up w) \<and> nv_pending v = c # pending g (up_bound_node_id (wk_up w))
     \<and> cmd_target_node c = up_bound_node_id (wk_up w) \<and> gw_sent g = gw_sent (sy_gateway s) @ [x]
     \<and> sent_fd x = nv_fd v \<and> sent_count x = length (sent_data x)
     \<and> sent_data x = command_bytes (up_transport (wk_up w)) c"
proof -
  note i = reachable_inv [OF assms(1,2), unfolded system_invs]
  have inv: "dm_inv (gw_devices (sy_gateway s))" using i by (simp add: link_ok_def)
  have th: "up_thread (wk_up w) = t" using i assms(3) by blast
  let ?fd = "up_device_fd (wk_up w)"
  have "(up_transport (wk_up w) = DEVICE_TRANSPORT_BLUETOOTH
        \<and> link_try_send DEVICE_TRANSPORT_BLUETOOTH frame_encoding os ?fd (sy_gateway s, wk_up w) = (Command_Sent, g, up))
      \<or> (up_transport (wk_up w) = DEVICE_TRANSPORT_WIFI
        \<and> link_try_send DEVICE_TRANSPORT_WIFI json_encoding os ?fd (sy_gateway s, wk_up w) = (Command_Sent, g, up))"
    using assms(4) by (simp add: worker_try_send_def bluetooth_try_send_link wifi_try_send_link split: device_transport.splits)
  from this bluetooth.sent_to_owner [OF inv] wifi.sent_to_owner [OF inv]
  obtain v c x where v: "dm_abs (gw_devices (sy_gateway s)) (up_bound_node_id (wk_up w)) = Some v" "nv_online v"
    "nv_thread_id v = up_thread (wk_up w)" "nv_pending v = c # pending g (up_bound_node_id (wk_up w))"
    "cmd_target_node c = up_bound_node_id (wk_up w)" "gw_sent g = gw_sent (sy_gateway s) @ [x]" "sent_fd x = ?fd"
    "sent_count x = length (sent_data x)" "sent_data x = command_bytes (up_transport (wk_up w)) c"
    by (elim disjE conjE) (metis (no_types, lifting))+
  have "served s (up_bound_node_id (wk_up w)) v" using i v(1,2) by blast
  then have "nv_fd v = ?fd" using v(3) th assms(3) by (simp add: served_def)
  with v th show ?thesis by (intro exI [of _ v] exI [of _ c] exI [of _ x]) auto
qed

theorem command_reaches_its_node_witness:
  "\<exists>s w g up x. system_steps example_start s \<and> sy_workers s 1 = Some w \<and> worker_try_send (\<lambda>i. 1000) (sy_gateway s, wk_up w) = (Command_Sent, g, up)
     \<and> gw_sent g = gw_sent (sy_gateway s) @ [x] \<and> sent_fd x = 5 \<and> sent_data x = command_bytes DEVICE_TRANSPORT_BLUETOOTH (example_command 1)"
proof -
  obtain s w where s: "system_steps example_start s" "sy_workers s 1 = Some w"
    "wk_up w = \<lparr>up_transport = DEVICE_TRANSPORT_BLUETOOTH, up_device_fd = 5, up_bound_node_id = ''N1'', up_thread = 1\<rparr>"
    "dm_abs (gw_devices (sy_gateway s)) = [''N1'' \<mapsto> (fresh_view DEVICE_TRANSPORT_BLUETOOTH 5 True 1 20)\<lparr>nv_pending := [example_command 1]\<rparr>]"
    by (rule system_example_run)
  have inv: "dm_inv (gw_devices (sy_gateway s))" using reachable_inv [OF example_items s(1)] by (simp add: system_inv_def link_ok_def)
  obtain q devs out where e: "dm_exec (Try_Dequeue (Some ''N1'') 5 1) (gw_devices (sy_gateway s)) = (q, devs, out)"
    by (cases "dm_exec (Try_Dequeue (Some ''N1'') 5 1) (gw_devices (sy_gateway s))")
  have q: "q = DEVICE_MANAGER_OK" "out = [example_command 1]"
    using dm_exec_step(1) [OF inv e] by (auto simp: s(4) no_node_id_def fresh_view_def)
  obtain b where b: "frame_encoding (example_command 1) = Some b" "length b \<le> 1000" using example_frame by blast
  have "\<exists>g. worker_try_send (\<lambda>i. 1000) (sy_gateway s, wk_up w) = (Command_Sent, g, wk_up w)"
    using e q b
    by (simp add: worker_try_send_def s(3) bluetooth_try_send_link link_try_send_def link_send_def send_logged_def send_call_def Let_def
        del: dm_exec.simps)
  then obtain g where g: "worker_try_send (\<lambda>i. 1000) (sy_gateway s, wk_up w) = (Command_Sent, g, wk_up w)" by blast
  from command_reaches_its_node [OF example_items s(1,2) g] obtain v c x where
    "dm_abs (gw_devices (sy_gateway s)) ''N1'' = Some v" "nv_pending v = c # pending g ''N1''" "gw_sent g = gw_sent (sy_gateway s) @ [x]"
    "sent_fd x = nv_fd v" "sent_data x = command_bytes DEVICE_TRANSPORT_BLUETOOTH c" by (auto simp: s(3))
  then have "gw_sent g = gw_sent (sy_gateway s) @ [x] \<and> sent_fd x = 5 \<and> sent_data x = command_bytes DEVICE_TRANSPORT_BLUETOOTH (example_command 1)"
    by (auto simp: s(4) fresh_view_def)
  with g s(1,2) show ?thesis by (intro exI [of _ s] exI [of _ w] exI [of _ g] exI [of _ "wk_up w"] exI [of _ x]) simp
qed

end
