(* ===== verification/System_Progress.thy ===== *)
theory System_Progress
  imports System_Invariant "HOL-Library.Multiset"
begin

text \<open>
  What can still happen from every reachable state of the gateway: as long as the queue is not shut down
  and the server thread runs, everything produced so far can be delivered; after the shutdown every
  thread can end, and then nothing is pending. So no reachable state is a deadlock.
\<close>

section \<open>Everything can be delivered\<close>

text \<open>Steps during which the workers only push: they produce nothing new.\<close>

definition calm :: "system \<Rightarrow> system \<Rightarrow> bool" where
  "calm s s' = (system_steps s s' \<and> sy_produced s' = sy_produced s \<and> mq_shutting_down (sy_queue s') = mq_shutting_down (sy_queue s)
     \<and> sy_ip s' = sy_ip s)"

definition link_idle :: "system \<Rightarrow> bool" where "link_idle s = (sy_phase s = At_Top \<and> sy_lines s = [])"

definition upstream_empty :: "system \<Rightarrow> bool" where
  "upstream_empty s = (ln_pending (sy_link s) = None \<and> mq_contents (sy_queue s) = [])"

lemma calm_refl [simp]: "calm s s" by (simp add: calm_def)

lemma calm_trans: "calm s s' \<Longrightarrow> calm s' s'' \<Longrightarrow> calm s s''"
  unfolding calm_def using rtranclp_trans [of system_step s s' s''] by simp

lemma calm_inv: "calm s s' \<Longrightarrow> system_inv s \<Longrightarrow> system_inv s'"
  using steps_inv unfolding calm_def by blast

lemma lines_calm:
  assumes "system_inv s" "sy_phase s = At_Lines"
  shows "\<exists>s'. calm s s' \<and> sy_workers s' = sy_workers s \<and> sy_phase s' = At_Lines \<and> sy_lines s' = []"
  using assms
proof (induction "sy_lines s" arbitrary: s)
  case Nil
  then show ?case by (intro exI [of _ s]) simp
next
  case (Cons line ls)
  let ?s = "s\<lparr>sy_link := (sy_link s)\<lparr>ln_gateway := gateway_app_on_tcp_line (\<lambda>i. 0) line (sy_gateway s)\<rparr>, sy_lines := ls\<rparr>"
  have st: "system_step s ?s" by (rule system_step.link_line) (use Cons in simp_all)
  have "dm_inv (gw_devices (sy_gateway s))" using Cons.prems by (simp add: system_invs link_ok_def)
  from tcp_line_shared(3) [OF this, of "\<lambda>i. 0" line] have c: "calm s ?s"
    using st by (simp add: calm_def server_side_def sy_ip_def r_into_rtranclp)
  have "\<exists>s'. calm ?s s' \<and> sy_workers s' = sy_workers ?s \<and> sy_phase s' = At_Lines \<and> sy_lines s' = []"
    by (rule Cons.hyps(1)) (use Cons.prems calm_inv [OF c] in simp_all)
  then show ?case using calm_trans [OF c] by auto
qed

lemma reach_idle:
  assumes inv: "system_inv s" and live: "sy_phase s \<noteq> Link_Ended"
  shows "\<exists>s'. calm s s' \<and> sy_workers s' = sy_workers s \<and> link_idle s'"
proof -
  have next_top: "\<exists>s'. calm s s' \<and> sy_workers s' = sy_workers s \<and> link_idle s'"
    if "sy_phase s \<in> {At_Receive, At_Lines}" "sy_lines s = []" for s
    using system_step.link_next [OF that] that by (intro exI [of _ "s\<lparr>sy_phase := At_Top\<rparr>"]) (auto simp: calm_def link_idle_def sy_ip_def)
  have send: "\<exists>s'. calm s s' \<and> sy_workers s' = sy_workers s \<and> link_idle s'"
    if p: "sy_phase s = At_Send" and inv: "system_inv s" for s
  proof -
    obtain go l where l: "server_link_send (\<lambda>i. 0) 0 (sy_link s) = (go, l)" by fastforce
    let ?s = "s\<lparr>sy_link := l, sy_phase := (if go then At_Receive else At_Top)\<rparr>"
    have "link_local (sy_link s) l" using send_local [of "sy_link s" "\<lambda>i. 0" 0] inv p l by (simp add: system_invs)
    then have c: "calm s ?s" using system_step.link_send [OF p l] by (auto simp: calm_def link_local_def sy_ip_def)
    have "sy_lines ?s = []" using inv p by (simp add: system_invs)
    then have "\<exists>s'. calm ?s s' \<and> sy_workers s' = sy_workers ?s \<and> link_idle s'"
      using next_top [of ?s] calm_refl [of ?s] by (cases go) (simp, fastforce simp: link_idle_def)
    then show ?thesis using calm_trans [OF c] by auto
  qed
  have conn: "\<exists>s'. calm s s' \<and> sy_workers s' = sy_workers s \<and> link_idle s'"
    if p: "sy_phase s = At_Connect" and inv: "system_inv s" for s
  proof -
    define t where "t = \<lparr>lt_others = (\<lambda>s. s), lt_now = -1, lt_connect = (-1, False, False), lt_poll = Poll_Timeout,
       lt_recv = Read_Failed, lt_later = -1\<rparr>"
    obtain go l where l: "server_link_connect t (sy_link s) = (go, l)" by fastforce
    let ?s = "s\<lparr>sy_link := l, sy_phase := (if go then At_Send else At_Top)\<rparr>"
    have "link_local (sy_link s) l" using connect_local [of "sy_link s" t] inv l by (simp add: system_invs)
    then have c: "calm s ?s" using system_step.link_connect [OF p l] by (auto simp: calm_def link_local_def sy_ip_def)
    have "sy_lines ?s = []" using inv p by (simp add: system_invs)
    then have "\<exists>s'. calm ?s s' \<and> sy_workers s' = sy_workers ?s \<and> link_idle s'"
      using send [of ?s] calm_inv [OF c inv] calm_refl [of ?s] by (cases go) (simp, fastforce simp: link_idle_def)
    then show ?thesis using calm_trans [OF c] by auto
  qed
  show ?thesis
  proof (cases "sy_phase s")
    case At_Lines
    from lines_calm [OF inv this] obtain s1 where s1: "calm s s1" "sy_workers s1 = sy_workers s" "sy_phase s1 = At_Lines" "sy_lines s1 = []"
      by blast
    from next_top [of s1] s1 obtain s2 where "calm s1 s2" "sy_workers s2 = sy_workers s" "link_idle s2" by auto
    then show ?thesis using calm_trans [OF s1(1)] by blast
  next
    case At_Top
    then show ?thesis using inv by (intro exI [of _ s]) (simp add: system_invs link_idle_def)
  qed (use live inv send conn next_top [of s] in \<open>auto simp: system_invs\<close>)
qed

definition link_rest :: "server_link \<Rightarrow> gateway_message list" where
  "link_rest l = (case ln_pending l of None \<Rightarrow> [] | Some m \<Rightarrow> [m]) @ mq_contents (ln_queue l)"

lemma upstream_empty_rest: "upstream_empty s = (link_rest (sy_link s) = [])"
  by (auto simp: upstream_empty_def link_rest_def split: option.splits)

lemma pop_takes:
  assumes "link_ok l" "link_rest l \<noteq> []"
  obtains m l' where "server_link_pop l = (True, l')" "ln_pending l' = Some m" "ln_done l' = ln_done l"
proof (cases "ln_pending l")
  case (Some m)
  then show ?thesis using that [of l m] by (simp add: server_link_pop_def)
next
  case None
  then have "mq_count (ln_queue l) \<noteq> 0"
    using assms mq.size_contents [of "ln_queue l"] by (auto simp: link_rest_def link_ok_def)
  then show ?thesis
    using None
    by (intro that [of "l\<lparr>ln_queue := snd (mq_take (ln_queue l)), ln_pending := Some (fst (mq_take (ln_queue l)))\<rparr>"
          "fst (mq_take (ln_queue l))"])
      (simp_all add: server_link_pop_def message_queue_try_pop_def case_prod_beta)
qed

lemma connect_succeeds:
  assumes "gc_server_ip (gw_context (ln_gateway l)) = Some ip" "ip \<noteq> []"
  obtains l' where "server_link_connect (good_turn l) l = (True, l')" "ln_pending l' = ln_pending l" "ln_done l' = ln_done l"
    "0 \<le> gc_tcp_fd (gw_context (ln_gateway l'))"
  using assms
  by (intro that [of "snd (server_link_connect (good_turn l) l)"])
    (auto simp: server_link_connect_def good_turn_def gateway_app_try_tcp_connect_def tcp_client_connect_def opened_def Let_def)

lemma send_succeeds:
  assumes "ln_pending l = Some m" "0 \<le> gc_tcp_fd (gw_context (ln_gateway l))"
  obtains l' where "server_link_send (\<lambda>i. length (message_bytes m)) 0 l = (True, l')" "ln_done l' = ln_done l @ [m]"
  using assms
  by (intro that [of "snd (server_link_send (\<lambda>i. length (message_bytes m)) 0 l)"])
    (simp_all add: server_link_send_def send_logged_def send_call_def Let_def)

lemma deliver_one:
  assumes inv: "system_inv s" and idle: "link_idle s" and ip: "sy_ip s = Some ip" "ip \<noteq> []" and rest: "link_rest (sy_link s) \<noteq> []"
  shows "\<exists>s'. calm s s' \<and> sy_workers s' = sy_workers s \<and> link_idle s'
     \<and> length (link_rest (sy_link s')) < length (link_rest (sy_link s))"
proof -
  have ok: "link_ok (sy_link s)" using inv by (simp add: system_inv_def)
  from pop_takes [OF ok rest] obtain m l1 where l1: "server_link_pop (sy_link s) = (True, l1)" "ln_pending l1 = Some m"
    "ln_done l1 = ln_done (sy_link s)" .
  have p: "link_local (sy_link s) l1" using pop_local [OF ok] l1(1) by simp
  then have "gc_server_ip (gw_context (ln_gateway l1)) = Some ip" using ip(1) by (simp add: link_local_def sy_ip_def)
  from connect_succeeds [OF this ip(2)] obtain l2 where l2: "server_link_connect (good_turn l1) l1 = (True, l2)"
    "ln_pending l2 = Some m" "ln_done l2 = ln_done (sy_link s)" "0 \<le> gc_tcp_fd (gw_context (ln_gateway l2))" using l1(2,3) by metis
  have c: "link_local l1 l2" using connect_local [OF link_local_ok [OF p]] l2(1) by (metis snd_conv)
  from send_succeeds [OF l2(2,4)] obtain l3 where l3: "server_link_send (\<lambda>i. length (message_bytes m)) 0 l2 = (True, l3)"
    "ln_done l3 = ln_done (sy_link s) @ [m]" using l2(3) by metis
  have "link_local l2 l3" using send_local [OF link_local_ok [OF c] l2(4)] l3(1) by (metis snd_conv)
  then have l: "link_local (sy_link s) l3" using link_local_trans p c by blast
  let ?s = "\<lambda>l phase. s\<lparr>sy_link := l, sy_phase := phase\<rparr>"
  have top: "sy_phase s = At_Top" "sy_lines s = []" using idle by (simp_all add: link_idle_def)
  have "system_steps s (?s l1 At_Connect)" using system_step.link_pop [OF top(1) l1(1)] by auto
  also have "system_steps (?s l1 At_Connect) (?s l2 At_Send)"
    using system_step.link_connect [of "?s l1 At_Connect" "good_turn l1" True l2] l2(1) by auto
  also have "system_steps (?s l2 At_Send) (?s l3 At_Receive)"
    using system_step.link_send [of "?s l2 At_Send" _ 0 True l3] l3(1) by auto
  also have "system_steps (?s l3 At_Receive) (?s l3 At_Top)"
    using system_step.link_next [of "?s l3 At_Receive"] top(2) by auto
  finally have st: "system_steps s (?s l3 At_Top)" .
  have "link_messages l3 = link_messages (sy_link s)" using l by (simp add: link_local_def link_progress_def)
  then have "length (link_rest l3) < length (link_rest (sy_link s))"
    using l3(2) by (simp add: link_messages_def link_rest_def [symmetric]) (metis length_Cons lessI)
  then show ?thesis
    using st l top(2) by (intro exI [of _ "?s l3 At_Top"]) (simp add: calm_def link_local_def link_idle_def sy_ip_def)
qed

lemma deliver_all:
  assumes "system_inv s" "link_idle s" "sy_ip s = Some ip" "ip \<noteq> []"
  shows "\<exists>s'. calm s s' \<and> sy_workers s' = sy_workers s \<and> link_idle s' \<and> upstream_empty s'"
  using assms
proof (induction "length (link_rest (sy_link s))" arbitrary: s rule: less_induct)
  case less
  show ?case
  proof (cases "link_rest (sy_link s) = []")
    case True
    then show ?thesis using less.prems by (intro exI [of _ s]) (simp add: upstream_empty_rest)
  next
    case False
    from deliver_one [OF less.prems False] obtain s1 where s1: "calm s s1" "sy_workers s1 = sy_workers s" "link_idle s1"
      "length (link_rest (sy_link s1)) < length (link_rest (sy_link s))" by blast
    have "sy_ip s1 = Some ip" using s1(1) less.prems(3) by (simp add: calm_def)
    from less.hyps [OF s1(4) calm_inv [OF s1(1) less.prems(1)] s1(3) this less.prems(4)]
    show ?thesis using calm_trans [OF s1(1)] s1(2) by auto
  qed
qed

text \<open>How many messages the workers still have to push.\<close>

definition outbox_total :: "system \<Rightarrow> nat" where
  "outbox_total s = (\<Sum>t \<in> dom (sy_workers s). length (outbox s t))"

lemma push_one:
  assumes inv: "system_inv s" and e: "upstream_empty s" and live: "\<not> mq_shutting_down (sy_queue s)" and t: "outbox s t \<noteq> []"
    and idle: "link_idle s"
  shows "\<exists>s'. calm s s' \<and> link_idle s' \<and> outbox_total s' < outbox_total s"
proof -
  obtain w m ms where w: "sy_workers s t = Some w" "wk_outbox w = m # ms"
    using t by (auto simp: outbox_def neq_Nil_conv split: option.splits)
  have fits: "msg_length m \<le> GATEWAY_MESSAGE_MAX_SIZE"
  proof -
    have "list_all fits (wk_outbox w)" using inv w(1) by (auto simp: system_invs)
    then show ?thesis by (simp add: w(2) fits_def)
  qed
  have "mq_count (sy_queue s) = 0"
    using inv e mq.size_contents [of "sy_queue s"] by (simp add: system_invs link_ok_def upstream_empty_def)
  then have p: "message_queue_push (sy_queue s) (Some m) = (Some MESSAGE_QUEUE_OK, mq_put m (sy_queue s))"
    using fits live by (simp add: message_queue_push_def mq_consts)
  define s' where "s' = s\<lparr>sy_link := (sy_link s)\<lparr>ln_queue := mq_put m (sy_queue s)\<rparr>,
     sy_workers := (sy_workers s)(t \<mapsto> w\<lparr>wk_outbox := ms\<rparr>), sy_accepted := sy_accepted s @ [(t, m)], sy_refused := sy_refused s @ []\<rparr>"
  have "system_step s s'" using system_step.push [OF w p] by (simp add: s'_def)
  then have "calm s s'" by (simp add: calm_def s'_def mq_put_def sy_ip_def r_into_rtranclp)
  moreover have "link_idle s'" using idle by (simp add: link_idle_def s'_def)
  moreover have "outbox_total s' < outbox_total s"
  proof -
    have d: "dom (sy_workers s') = dom (sy_workers s)" "finite (dom (sy_workers s))" "t \<in> dom (sy_workers s)"
      using w inv by (auto simp: s'_def system_invs)
    show ?thesis unfolding outbox_total_def d(1)
      by (rule sum_strict_mono_ex1 [OF d(2)], use w d in \<open>auto simp: outbox_def s'_def\<close>)
  qed
  ultimately show ?thesis by blast
qed

lemma drain:
  assumes "system_inv s" "link_idle s" "sy_ip s = Some ip" "ip \<noteq> []" "\<not> mq_shutting_down (sy_queue s)"
  shows "\<exists>s'. calm s s' \<and> upstream_empty s' \<and> (\<forall>t. outbox s' t = [])"
  using assms
proof (induction "outbox_total s" arbitrary: s rule: less_induct)
  case less
  from deliver_all [OF less.prems(1-4)] obtain s1 where s1: "calm s s1" "sy_workers s1 = sy_workers s" "link_idle s1" "upstream_empty s1"
    by blast
  have o: "outbox_total s1 = outbox_total s" using s1(2) by (simp add: outbox_total_def outbox_def)
  show ?case
  proof (cases "\<forall>t. outbox s1 t = []")
    case True
    then show ?thesis using s1 by blast
  next
    case False
    then obtain t where t: "outbox s1 t \<noteq> []" by blast
    note i1 = calm_inv [OF s1(1) less.prems(1)]
    have "\<not> mq_shutting_down (sy_queue s1)" using s1(1) less.prems(5) by (simp add: calm_def)
    from push_one [OF i1 s1(4) this t s1(3)] obtain s2 where s2: "calm s1 s2" "link_idle s2" "outbox_total s2 < outbox_total s1" by blast
    have "sy_ip s2 = Some ip" "\<not> mq_shutting_down (sy_queue s2)" using s1(1) s2(1) less.prems(3,5) by (simp_all add: calm_def)
    from less.hyps [OF _ calm_inv [OF s2(1) i1] s2(2) this(1) less.prems(4) this(2)] s2(3) o
    show ?thesis using calm_trans [OF s1(1)] calm_trans [OF s2(1)] by (metis calm_trans)
  qed
qed

lemma of_thread_mset:
  assumes "\<And>t. of_thread t xs = of_thread t ys" shows "mset xs = mset ys"
proof (rule multiset_eqI)
  fix x :: "nat \<times> gateway_message"
  obtain t m where x: "x = (t, m)" by fastforce
  have "count (mset zs) x = count (mset (of_thread t zs)) m" for zs
    by (induction zs) (auto simp: x)
  with assms show "count (mset xs) x = count (mset ys) x" by simp
qed

lemma delivery:
  assumes "length items = 32" "ip \<noteq> []" "system_steps (system_start ip port items) s"
    and "\<not> mq_shutting_down (sy_queue s)" "sy_phase s \<noteq> Link_Ended"
  shows "\<exists>s'. system_steps s s' \<and> (\<forall>t. outbox s' t = []) \<and> gw_pushed (sy_gateway s') = gw_pushed (sy_gateway s)
     \<and> ln_done (sy_link s') = map snd (sy_accepted s') \<and> mset (ln_done (sy_link s')) = mset (gw_pushed (sy_gateway s))
     \<and> (\<forall>t. of_thread t (sy_accepted s') = of_thread t (sy_produced s))"
proof -
  note i = reachable_inv [OF assms(1,3)]
  have ip: "sy_ip s = Some ip"
    using steps_inv [OF assms(3) start_inv [OF assms(1)]] by (simp add: sy_ip_def system_start_def gateway_app_init_def)
  from reach_idle [OF i assms(5)] obtain s1 where s1: "calm s s1" "link_idle s1" by blast
  have c1: "sy_ip s1 = Some ip" "\<not> mq_shutting_down (sy_queue s1)" using s1(1) ip assms(4) by (simp_all add: calm_def)
  from drain [OF calm_inv [OF s1(1) i] s1(2) c1(1) assms(2) c1(2)] obtain s2 where
    s2: "calm s1 s2" "upstream_empty s2" "\<forall>t. outbox s2 t = []" by blast
  have c: "calm s s2" by (rule calm_trans [OF s1(1) s2(1)])
  note i2 = calm_inv [OF c i, unfolded system_invs]
  have "\<not> mq_shutting_down (sy_queue s2)" using c assms(4) by (simp add: calm_def)
  with i2 have "sy_refused s2 = []" by blast
  with i2 s2(3) c have t: "of_thread t (sy_accepted s2) = of_thread t (sy_produced s)" for t
    by (simp add: calm_def)
  have "ln_done (sy_link s2) = map snd (sy_accepted s2)"
    using i2 s2(2) by (simp add: link_messages_def upstream_empty_def)
  moreover have "gw_pushed (sy_gateway s2) = gw_pushed (sy_gateway s)"
    using i2 i c by (simp add: system_invs calm_def)
  moreover have "mset (map snd (sy_accepted s2)) = mset (gw_pushed (sy_gateway s))"
    using of_thread_mset [OF t] i by (simp add: system_invs) (metis mset_map)
  ultimately show ?thesis using c s2(3) t by (intro exI [of _ s2]) (simp add: calm_def)
qed

lemma example_delivered:
  obtains s where "system_steps example_start s" "length (ln_done (sy_link s)) = 1"
proof -
  obtain s w where s: "system_steps example_start s" "\<not> mq_shutting_down (sy_queue s)" "sy_phase s = At_Lines"
    "length (gw_pushed (sy_gateway s)) = 1" by (rule system_example_run)
  from delivery [OF example_items _ s(1,2)] s(3) obtain s' where
    s': "system_steps s s'" "mset (ln_done (sy_link s')) = mset (gw_pushed (sy_gateway s))" by auto
  from arg_cong [OF s'(2), of size] s(4) have "length (ln_done (sy_link s')) = 1" by simp
  with rtranclp_trans [OF s(1) s'(1)] show ?thesis by (rule that)
qed

text \<open>C9: The upstream path cannot get stuck: from every reachable state in which the queue is not shut
  down and the server thread has not ended, whatever its phase, however full the queue and however
  many workers wait in \<open>message_queue_push\<close>, there are further steps (the server becomes reachable, the
  workers only push) after which nothing waits anywhere and the server has got every message that was
  ever produced, each exactly once, and those of each thread in the order it produced them.\<close>
theorem everything_can_be_delivered:
  assumes "length items = 32" "ip \<noteq> []" "system_steps (system_start ip port items) s"
    and "\<not> mq_shutting_down (sy_queue s)" "sy_phase s \<noteq> Link_Ended"
  shows "\<exists>s'. system_steps s s' \<and> (\<forall>t. outbox s' t = []) \<and> gw_pushed (sy_gateway s') = gw_pushed (sy_gateway s)
     \<and> ln_done (sy_link s') = map snd (sy_accepted s') \<and> mset (ln_done (sy_link s')) = mset (gw_pushed (sy_gateway s))
     \<and> (\<forall>t. of_thread t (sy_accepted s') = of_thread t (sy_produced s))"
  by (rule delivery [OF assms])

theorem everything_can_be_delivered_witness:
  "\<exists>s. system_steps example_start s \<and> length (ln_done (sy_link s)) = 1 \<and> (\<forall>t. outbox s t = [])"
proof -
  obtain s w where s: "system_steps example_start s" "\<not> mq_shutting_down (sy_queue s)" "sy_phase s = At_Lines"
    "length (gw_pushed (sy_gateway s)) = 1" by (rule system_example_run)
  from everything_can_be_delivered [OF example_items _ s(1,2)] s(3) obtain s' where
    s': "system_steps s s'" "\<forall>t. outbox s' t = []" "mset (ln_done (sy_link s')) = mset (gw_pushed (sy_gateway s))" by auto
  from arg_cong [OF s'(3), of size] s(4) have "length (ln_done (sy_link s')) = 1" by simp
  with s'(2) rtranclp_trans [OF s(1) s'(1)] show ?thesis by blast
qed

section \<open>Everything can end\<close>

lemma flush_outbox:
  assumes "system_inv s" "mq_shutting_down (sy_queue s)" "sy_workers s t = Some w"
  shows "\<exists>s'. system_steps s s' \<and> sy_workers s' = (sy_workers s)(t \<mapsto> w\<lparr>wk_outbox := []\<rparr>) \<and> sy_phase s' = sy_phase s
    \<and> mq_shutting_down (sy_queue s')"
  using assms
proof (induction "wk_outbox w" arbitrary: s w)
  case Nil
  have "w\<lparr>wk_outbox := []\<rparr> = w" using Nil.hyps by (cases w) simp
  then show ?case using Nil.prems by (intro exI [of _ s]) (simp add: fun_upd_idem)
next
  case (Cons m ms)
  have "list_all fits (wk_outbox w)" using Cons.prems by (auto simp: system_invs)
  then have fits: "msg_length m \<le> GATEWAY_MESSAGE_MAX_SIZE" by (simp add: Cons.hyps(2) [symmetric] fits_def)
  then have p: "message_queue_push (sy_queue s) (Some m) = (Some MESSAGE_QUEUE_SHUTDOWN, sy_queue s)"
    using Cons.prems(2) by (simp add: message_queue_push_def)
  define s1 where "s1 = s\<lparr>sy_link := (sy_link s)\<lparr>ln_queue := sy_queue s\<rparr>,
     sy_workers := (sy_workers s)(t \<mapsto> w\<lparr>wk_outbox := ms\<rparr>), sy_accepted := sy_accepted s @ [], sy_refused := sy_refused s @ [(t, m)]\<rparr>"
  have st: "system_step s s1" using system_step.push [OF Cons.prems(3) Cons.hyps(2) [symmetric] p] by (simp add: s1_def)
  have "\<exists>s'. system_steps s1 s' \<and> sy_workers s' = (sy_workers s1)(t \<mapsto> (w\<lparr>wk_outbox := ms\<rparr>)\<lparr>wk_outbox := []\<rparr>)
      \<and> sy_phase s' = sy_phase s1 \<and> mq_shutting_down (sy_queue s')"
    by (rule Cons.hyps(1)) (use Cons.prems step_inv [OF st] in \<open>simp_all add: s1_def\<close>)
  then obtain s' where "system_steps s1 s'" "sy_workers s' = (sy_workers s1)(t \<mapsto> w\<lparr>wk_outbox := []\<rparr>)"
    "sy_phase s' = sy_phase s" "mq_shutting_down (sy_queue s')" by (auto simp: s1_def)
  then show ?case using converse_rtranclp_into_rtranclp [of system_step, OF st] by (intro exI [of _ s']) (simp add: s1_def)
qed

lemma finish_worker:
  assumes inv: "system_inv s" and shut: "mq_shutting_down (sy_queue s)" and w: "sy_workers s t = Some w"
  shows "\<exists>s'. system_steps s s' \<and> sy_workers s' = (sy_workers s)(t := None) \<and> sy_phase s' = sy_phase s
    \<and> mq_shutting_down (sy_queue s')"
proof -
  have leave: "\<exists>s'. system_steps s s' \<and> sy_workers s' = (sy_workers s)(t := None) \<and> sy_phase s' = sy_phase s
      \<and> mq_shutting_down (sy_queue s')"
    if "system_inv s" "mq_shutting_down (sy_queue s)" "sy_workers s t = Some w" "wk_phase w = Leaving" for s w
  proof -
    from flush_outbox [OF that(1-3)] obtain s1 where s1: "system_steps s s1"
      "sy_workers s1 = (sy_workers s)(t \<mapsto> w\<lparr>wk_outbox := []\<rparr>)" "sy_phase s1 = sy_phase s" "mq_shutting_down (sy_queue s1)" by blast
    have "system_step s1 (remove_worker t (up_transport (wk_up w)) s1)"
      using system_step.close_fd [of s1 t "w\<lparr>wk_outbox := []\<rparr>"] s1(2) that(4) by simp
    from rtranclp.rtrancl_into_rtrancl [OF s1(1) this] s1 show ?thesis
      by (intro exI [of _ "remove_worker t (up_transport (wk_up w)) s1"]) (simp add: remove_worker_def)
  qed
  show ?thesis
  proof (cases "wk_phase w = Leaving")
    case True
    then show ?thesis using leave [OF inv shut w] by simp
  next
    case False
    from flush_outbox [OF inv shut w] obtain s1 where s1: "system_steps s s1"
      "sy_workers s1 = (sy_workers s)(t \<mapsto> w\<lparr>wk_outbox := []\<rparr>)" "sy_phase s1 = sy_phase s" "mq_shutting_down (sy_queue s1)" by blast
    let ?w = "w\<lparr>wk_outbox := []\<rparr>"
    let ?s2 = "worker_ran t Leaving (worker_disconnect (sy_gateway s1, wk_up ?w), wk_up ?w) s1"
    have st: "system_step s1 ?s2" by (rule system_step.hang_up) (use s1(2) False in simp_all)
    have i2: "system_inv ?s2" using step_inv [OF st] steps_inv [OF s1(1) inv] by blast
    obtain w2 where w2: "sy_workers ?s2 = (sy_workers s)(t \<mapsto> w2)" "wk_phase w2 = Leaving"
      using s1(2) by (simp add: worker_ran_def Let_def)
    have s2: "sy_phase ?s2 = sy_phase s" "mq_shutting_down (sy_queue ?s2)" using s1(3,4) by (simp_all add: worker_ran_def Let_def)
    from leave [OF i2 s2(2) _ w2(2)] w2(1) obtain s3 where "system_steps ?s2 s3" "sy_workers s3 = (sy_workers s)(t := None)"
      "sy_phase s3 = sy_phase s" "mq_shutting_down (sy_queue s3)" using s2(1) by auto
    moreover have "system_steps s ?s2" by (rule rtranclp.rtrancl_into_rtrancl [OF s1(1) st])
    ultimately show ?thesis using rtranclp_trans by metis
  qed
qed

lemma finish_workers:
  assumes "system_inv s" "mq_shutting_down (sy_queue s)"
  shows "\<exists>s'. system_steps s s' \<and> sy_workers s' = Map.empty \<and> sy_phase s' = sy_phase s"
  using assms
proof (induction "card (dom (sy_workers s))" arbitrary: s)
  case 0
  then have "dom (sy_workers s) = {}" by (simp add: system_invs)
  then show ?case by (intro exI [of _ s]) simp
next
  case (Suc n)
  then obtain t w where w: "sy_workers s t = Some w" by (metis card.empty domIff equals0I nat.simps(3) option.exhaust)
  from finish_worker [OF Suc.prems w] obtain s1 where s1: "system_steps s s1" "sy_workers s1 = (sy_workers s)(t := None)"
    "sy_phase s1 = sy_phase s" "mq_shutting_down (sy_queue s1)" by blast
  have i1: "system_inv s1" using steps_inv [OF s1(1) Suc.prems(1)] by blast
  have "finite (dom (sy_workers s))" "t \<in> dom (sy_workers s)" using Suc.prems(1) w by (auto simp: system_invs)
  then have "n = card (dom (sy_workers s1))" using Suc.hyps(2) s1(2) by simp
  from Suc.hyps(1) [OF this i1 s1(4)] show ?case using rtranclp_trans [OF s1(1)] s1(3) by auto
qed

text \<open>After the shutdown the server thread can finish its turn and end.\<close>

lemma link_can_end:
  assumes i: "system_inv s" and shut: "mq_shutting_down (sy_queue s)"
  obtains s1 where "system_steps s s1" "sy_phase s1 = Link_Ended" "mq_shutting_down (sy_queue s1)"
proof (cases "sy_phase s = Link_Ended")
  case True
  then show ?thesis using shut by (intro that [of s]) simp_all
next
  case False
  from reach_idle [OF i this] obtain s0 where s0: "calm s s0" "link_idle s0" by blast
  let ?s = "s0\<lparr>sy_link := link_ended (sy_link s0), sy_phase := Link_Ended\<rparr>"
  have "system_step s0 ?s" by (rule system_step.link_stop) (use s0(2) in \<open>simp add: link_idle_def\<close>)
  moreover have "system_steps s s0" "mq_shutting_down (sy_queue s0)" using s0(1) shut by (simp_all add: calm_def)
  ultimately show ?thesis by (intro that [of ?s]) (auto simp: link_ended_def)
qed

text \<open>C26: After the shutdown everybody can leave: from every reachable state in which the queue is shut
  down, there are further steps after which every worker has ended, and the server thread as well;
  then no node is online, no command is pending, and by the history, which accounts for all pushes
  and sends and extends that of the state of the shutdown, the commands ever queued for a node are, in
  order, those written in full or refused with a NACK.\<close>
theorem everybody_can_leave:
  assumes "length items = 32" "system_steps (system_start ip port items) s" "mq_shutting_down (sy_queue s)"
  shows "\<exists>s'. system_steps s s' \<and> (\<forall>t. sy_workers s' t = None) \<and> sy_phase s' = Link_Ended
     \<and> (\<forall>i. (case dm_abs (gw_devices (sy_gateway s')) i of None \<Rightarrow> True | Some v \<Rightarrow> \<not> nv_online v \<and> nv_pending v = []))
     \<and> (let es = gw_history (sy_gateway s') in
          (\<exists>fs. es = gw_history (sy_gateway s) @ fs) \<and> list_all event_ok es \<and> (\<forall>i. queued i es = settled i es)
          \<and> gw_pushed (sy_gateway s') = pushed_by es \<and> gw_sent (sy_gateway s') = sent_by es)"
proof -
  note i = reachable_inv [OF assms(1,2)]
  obtain s1 where s1: "system_steps s s1" "sy_phase s1 = Link_Ended" "mq_shutting_down (sy_queue s1)"
    by (rule link_can_end [OF i assms(3)])
  from finish_workers [OF _ s1(3)] steps_inv [OF s1(1) i] obtain s2 where
    s2: "system_steps s1 s2" "sy_workers s2 = Map.empty" "sy_phase s2 = Link_Ended" using s1(2) by auto
  have st: "system_steps s s2" by (rule rtranclp_trans [OF s1(1) s2(1)])
  have start: "system_steps (system_start ip port items) s2" by (rule rtranclp_trans [OF assms(2) st])
  note i2 = reachable_inv [OF assms(1) start, unfolded system_invs]
  have gone: "\<not> nv_online v \<and> nv_pending v = []" if v: "dm_abs (gw_devices (sy_gateway s2)) n = Some v" for n v
  proof -
    have "\<not> nv_online v"
    proof
      assume "nv_online v"
      then have "served s2 n v" using i2 v by blast
      then show False by (simp add: served_def s2(2))
    qed
    then show ?thesis using i2 v by (auto simp: offline_empty_def)
  qed
  obtain es where es: "effect (sy_gateway (system_start ip port items)) es (sy_gateway s2)"
    using steps_inv [OF start start_inv [OF assms(1)]] by blast
  have "pending (sy_gateway s2) n = []" for n using gone [of n] by (auto simp: pending_def split: option.splits)
  moreover have "pending (sy_gateway (system_start ip port items)) n = []" for n
    by (simp add: pending_def system_start_def device_manager_init_def dm_abs_def table_map_def)
  ultimately have "\<forall>n. queued n es = settled n es" using es by (simp add: effect_def)
  moreover have "list_all event_ok es" "gw_history (sy_gateway s2) = es" "gw_pushed (sy_gateway s2) = pushed_by es"
    "gw_sent (sy_gateway s2) = sent_by es" using es by (simp_all add: effect_def system_start_def)
  moreover have "\<exists>fs. gw_history (sy_gateway s2) = gw_history (sy_gateway s) @ fs"
    using steps_inv [OF st i] by (auto simp: effect_def)
  ultimately show ?thesis using st s2 gone
    by (intro exI [of _ s2]) (auto simp: Let_def split: option.splits)
qed

theorem everybody_can_leave_witness:
  "\<exists>s. system_steps example_start s \<and> (\<forall>t. sy_workers s t = None) \<and> sy_phase s = Link_Ended
     \<and> queued ''N1'' (gw_history (sy_gateway s)) = settled ''N1'' (gw_history (sy_gateway s))"
proof -
  obtain s w where s: "system_steps example_start s" "sy_workers s 1 = Some w" by (rule system_example_run)
  let ?s = "s\<lparr>sy_link := (sy_link s)\<lparr>ln_queue := message_queue_shutdown (sy_queue s)\<rparr>\<rparr>"
  have st: "system_steps example_start ?s" by (rule rtranclp.rtrancl_into_rtrancl [OF s(1) system_step.shutdown])
  have "mq_shutting_down (sy_queue ?s)" by (simp add: message_queue_shutdown_def)
  from everybody_can_leave [OF example_items st this, unfolded Let_def] obtain s' where
    "system_steps ?s s'" "\<forall>t. sy_workers s' t = None" "sy_phase s' = Link_Ended"
    "queued ''N1'' (gw_history (sy_gateway s')) = settled ''N1'' (gw_history (sy_gateway s'))" by blast
  with rtranclp_trans [OF st this(1)] show ?thesis by blast
qed

end
