(* ===== verification/Line_Safety.thy ===== *)
theory Line_Safety
  imports Gateway_App
begin

text \<open>
  What a node sends cannot leave its line: the frames that the parser delivers have no line feed, the
  decoders copy out of what they get, and so a message built from a frame or a line has its only line
  feed at the end. \<open>System_Framing\<close> uses this for the stream to the server.
\<close>

section \<open>Texts on one line\<close>

definition one_line :: "string \<Rightarrow> bool" where "one_line s = (LF \<notin> set s)"

definition fields_one_line :: "frame_kv list \<Rightarrow> bool" where
  "fields_one_line fs = list_all (\<lambda>f. one_line (kv_key f) \<and> one_line (kv_value f)) fs"

definition message_line :: "string \<Rightarrow> bool" where "message_line t = (\<exists>b. t = b @ ''}'' @ [LF] \<and> one_line b)"

lemma one_line_simps [simp]:
  "one_line []" "one_line (c # s) = (c \<noteq> LF \<and> one_line s)" "one_line (s @ t) = (one_line s \<and> one_line t)"
  by (auto simp: one_line_def)

lemma fields_one_line_simps [simp]:
  "fields_one_line []" "fields_one_line (f # fs) = (one_line (kv_key f) \<and> one_line (kv_value f) \<and> fields_one_line fs)"
  "fields_one_line (fs @ gs) = (fields_one_line fs \<and> fields_one_line gs)"
  by (simp_all add: fields_one_line_def)

lemma one_line_subset: "one_line s \<Longrightarrow> set t \<subseteq> set s \<Longrightarrow> one_line t" by (auto simp: one_line_def)

lemma one_line_cstr [simp]: "one_line s \<Longrightarrow> one_line (cstr s)"
  using set_cstr_subset [of s] by (auto simp: one_line_def)

lemma one_line_part [simp]: "one_line s \<Longrightarrow> one_line (take n s)" "one_line s \<Longrightarrow> one_line (drop n s)"
  by (auto simp: one_line_def dest: in_set_takeD in_set_dropD)

lemma one_line_print_u [simp]: "one_line (print_u n)"
proof -
  have "\<not> is_digit LF" by (simp add: is_digit_def)
  then show ?thesis using print_u_digits unfolding one_line_def by metis
qed

lemma one_line_print_d [simp]: "one_line (print_d v)" by (simp add: print_d_def)

text \<open>What the builders write.\<close>

lemma one_line_quoted [simp]: "one_line (json_quoted s) = one_line s"
  by (simp add: json_quoted_def)

lemma one_line_fields_text: "fields_one_line fs \<Longrightarrow> one_line (json_fields_text fs)"
  by (induction fs rule: json_fields_text.induct) (simp_all add: json_field_text_def json_string_text_def)

lemma device_text_line:
  assumes "one_line type" "one_line node" "fields_one_line fs"
  shows "message_line (json_device_text type node sequence fs)"
  unfolding message_line_def json_device_text_def
  by (rule exI [of _ "''{'' @ json_string_text ''node'' node @ '','' @ json_seq_text sequence @ '',''
     @ json_string_text ''type'' type @ '','' @ json_fields_member fs"])
    (simp add: assms json_string_text_def json_seq_text_def json_fields_member_def one_line_fields_text)

lemma nack_text_line:
  assumes "one_line (nack_node_id a)" "one_line (nack_error a)"
  shows "message_line (json_nack_text a)"
  unfolding message_line_def json_nack_text_def
  by (rule exI [of _ "''{'' @ json_string_text ''node'' (nack_node_id a) @ '','' @ json_seq_text (nack_sequence a) @ '',''
     @ json_string_text ''type'' ''NACK'' @ '','' @ json_string_text ''error'' (nack_error a)"])
    (simp add: assms json_string_text_def json_seq_text_def)

section \<open>Frames\<close>

text \<open>The parser delivers no frame with a line feed in its payload.\<close>

lemma validated_payload:
  assumes "validate_frame (b @ [LF]) = Frame_Ok f" "one_line b" shows "one_line (payload f)"
proof -
  obtain k where k: "strrchr_index (CHR ''*'') (cstr (b @ [LF])) = Some k" "k + 7 = length (b @ [LF])"
    "payload f = take (k - 1) (drop 1 (b @ [LF]))" "1 < k"
    using assms(1) by (auto simp: validate_frame_def Let_def split: if_splits option.splits)
  then have "payload f = take (k - 1) (drop 1 b)" by simp
  then have "set (payload f) \<subseteq> set b" by (metis order_trans set_drop_subset set_take_subset)
  with assms(2) show ?thesis by (rule one_line_subset)
qed

lemma frame_parser_byte_payload:
  assumes "parser_inv p" "frame_parser_byte log_frame ch (p, log, n) = (p', log', n')" "list_all (\<lambda>f. one_line (payload f)) log"
  shows "list_all (\<lambda>f. one_line (payload f)) log'"
proof (cases "Frame_Parser.collecting p \<and> ch = LF \<and> length (buffer p) < FRAME_MAX_LEN - 1")
  case True
  then have b: "one_line (buffer p)" using assms(1) by (auto simp: parser_inv_def one_line_def)
  from True have "frame_parser_byte log_frame ch (p, log, n) = finish_line log_frame (p\<lparr>buffer := buffer p @ [LF]\<rparr>, log, n)"
    by (simp add: frame_parser_byte_def)
  with assms(2,3) show ?thesis
    by (auto simp: finish_line_def validated_payload [OF _ b] split: validate_result.splits)
next
  case False
  with assms(2,3) show ?thesis by (auto simp: frame_parser_byte_def Let_def split: if_splits)
qed

lemma delivered_frames_one_line:
  assumes "parser_inv p"
  shows "list_all (\<lambda>f. one_line (payload f)) (fst (snd (frame_parser_feed log_frame p data [])))"
proof -
  have "list_all (\<lambda>f. one_line (payload f)) (fst (snd (fold (frame_parser_byte log_frame) bs (p, log, n))))"
    if "parser_inv p" "list_all (\<lambda>f. one_line (payload f)) log" for bs p log n
    using that
  proof (induction bs arbitrary: p log n)
    case (Cons b bs)
    obtain p1 log1 n1 where 1: "frame_parser_byte log_frame b (p, log, n) = (p1, log1, n1)" by (metis prod_cases3)
    have "parser_inv p1" using frame_parser_byte_inv [of "(p, log, n)" log_frame b] Cons.prems(1) 1 by simp
    with Cons.IH [of p1 log1 n1] frame_parser_byte_payload [OF Cons.prems(1) 1 Cons.prems(2)] 1 show ?case by simp
  qed simp
  then show ?thesis using assms by (simp add: frame_parser_feed_def split: option.split)
qed

text \<open>The decoders.\<close>

lemma kv_token_one_line: "parse_kv_token t = Some f \<Longrightarrow> one_line t \<Longrightarrow> one_line (kv_key f) \<and> one_line (kv_value f)"
  by (auto simp: parse_kv_token_def Let_def split: option.splits if_splits)

lemma kv_tokens_one_line: "parse_kv_tokens ts = Some fs \<Longrightarrow> list_all one_line ts \<Longrightarrow> fields_one_line fs"
  by (induction ts arbitrary: fs) (auto split: option.splits dest: kv_token_one_line)

lemma tokens_one_line: "one_line s \<Longrightarrow> list_all one_line (strtok_all d (cstr s))"
  using set_cstr_subset [of s] by (auto simp: list_all_iff one_line_def dest!: strtok_all_parts)

lemma payload_one_line:
  assumes "parse_kv_payload f type [] cap = (True, i, n, fs)" "one_line (payload f)"
  shows "one_line i" "fields_one_line fs"
proof -
  define ts where "ts = strtok_all (CHR '','') (cstr (payload f))"
  have ts: "list_all one_line ts" unfolding ts_def by (rule tokens_one_line [OF assms(2)])
  have *: "4 \<le> length ts \<and> i = ts ! 1 \<and> parse_kv_tokens (drop 4 ts) = Some fs"
    using assms(1) by (auto simp: parse_kv_payload_def Let_def ts_def [symmetric] split: if_splits option.splits)
  then show "one_line i" using ts by (auto simp: list_all_iff)
  have "list_all one_line (drop 4 ts)" using ts by (meson in_set_dropD list_all_iff)
  with * show "fields_one_line fs" by (blast intro: kv_tokens_one_line)
qed

lemma frame_report_one_line:
  assumes "frame_report f = Some (node, t)" "one_line (payload f)"
  shows "one_line node \<and> message_line t"
proof (cases "frame_get_message_type (Some f)")
  case FRAME_MESSAGE_DATA
  then obtain d where d: "frame_decode_data (Some f) (Some zero_frame_data) = (True, Some d)" "node = data_node_id d" "t = json_data_text d"
    using assms(1) decode_out_Some(1) by (fastforce simp: frame_report_def split: prod.splits if_splits)
  then show ?thesis using payload_one_line [of f "''DATA''" 32] assms(2)
    by (auto simp: frame_decode_data_def json_data_text_def split: prod.splits if_splits intro: device_text_line)
next
  case FRAME_MESSAGE_ACK
  then obtain d where d: "frame_decode_ack (Some f) (Some zero_frame_ack) = (True, Some d)" "node = ack_node_id d" "t = json_ack_text d"
    using assms(1) decode_out_Some(2) by (fastforce simp: frame_report_def split: prod.splits if_splits)
  then show ?thesis using payload_one_line [of f "''ACK''" 32] assms(2)
    by (auto simp: frame_decode_ack_def json_ack_text_def split: prod.splits if_splits intro: device_text_line)
next
  case FRAME_MESSAGE_NACK
  then obtain d where d: "frame_decode_nack (Some f) (Some zero_frame_nack) = (True, Some d)" "node = nack_node_id d" "t = json_nack_text d"
    using assms(1) decode_out_Some(3) by (fastforce simp: frame_report_def split: prod.splits if_splits)
  define ts where "ts = strtok_all (CHR '','') (cstr (payload f))"
  have "list_all one_line ts" unfolding ts_def by (rule tokens_one_line [OF assms(2)])
  moreover have "length ts = 5 \<and> nack_node_id d = ts ! 1 \<and> nack_error d = drop 4 (ts ! 4)"
    using d(1) by (auto simp: frame_decode_nack_def Let_def ts_def [symmetric] split: if_splits option.splits)
  ultimately show ?thesis using d(2,3)
    by (auto simp: list_all_iff intro!: nack_text_line)
qed (use assms(1) in \<open>simp_all add: frame_report_def\<close>)

section \<open>Lines\<close>

text \<open>The scanners copy out of the text and leave a part of it.\<close>

lemma scan_string_one_line: "json_scan_string p = Some (t, r) \<Longrightarrow> one_line p \<Longrightarrow> one_line t \<and> one_line r"
proof (induction p arbitrary: t r rule: json_scan_string.induct)
  case (2 c cs)
  then show ?case by (auto split: if_splits list.splits)
qed simp

lemma skip_whitespace_one_line: "one_line p \<Longrightarrow> one_line (json_skip_whitespace p)"
  by (rule one_line_subset) (auto simp: json_skip_whitespace_def dest: set_dropWhileD)

lemma digits_one_line: "one_line p \<Longrightarrow> one_line (dropWhile is_digit p)"
  by (rule one_line_subset) (auto dest: set_dropWhileD)

lemma drop_char_one_line: "drop_char c p = Some r \<Longrightarrow> one_line p \<Longrightarrow> one_line r"
  by (auto simp: drop_char_def split: list.splits if_splits)

lemma opt_drop_one_line: "one_line p \<Longrightarrow> one_line (case drop_char c p of None \<Rightarrow> p | Some r \<Rightarrow> r)"
  by (auto split: option.split dest: drop_char_one_line)

lemma drop_sign_one_line: "one_line p \<Longrightarrow> one_line (drop_sign p)"
  by (auto simp: drop_sign_def split: list.splits)

lemma exponent_one_line: "drop_exponent_mark p = Some r \<Longrightarrow> one_line p \<Longrightarrow> one_line r"
  by (auto simp: drop_exponent_mark_def split: list.splits if_splits)

lemmas scan_one_line = skip_whitespace_one_line digits_one_line opt_drop_one_line drop_sign_one_line

lemma key_one_line: "json_key p = Some (k, v) \<Longrightarrow> one_line p \<Longrightarrow> one_line k \<and> one_line v"
proof -
  assume "json_key p = Some (k, v)" and p: "one_line p"
  then obtain r c r' where 1: "json_scan_string p = Some (k, r)" "json_skip_whitespace r = c # r'"
    "json_skip_whitespace r' = v"
    by (auto simp: json_key_def split: option.splits list.splits if_splits)
  then have "one_line k" "one_line r" using scan_string_one_line p by blast+
  moreover from this have "one_line r'" using skip_whitespace_one_line [of r] by (simp add: 1(2))
  ultimately show "one_line k \<and> one_line v" using skip_whitespace_one_line [of r'] by (simp add: 1(3))
qed

lemma after_value_one_line: "json_after_value p = Some (b, r) \<Longrightarrow> one_line p \<Longrightarrow> one_line r"
  using skip_whitespace_one_line [of p] by (auto simp: json_after_value_def split: list.splits if_splits)

lemma skip_number_one_line: "json_skip_number p = Some r \<Longrightarrow> one_line p \<Longrightarrow> one_line r"
proof -
  assume a: "json_skip_number p = Some r" and p: "one_line p"
  define p2 where "p2 = dropWhile is_digit (case drop_char (CHR ''-'') p of None \<Rightarrow> p | Some r \<Rightarrow> r)"
  have 2: "one_line p2" unfolding p2_def by (intro scan_one_line p)
  from a obtain p3 where p3: "(case drop_char (CHR ''.'') p2 of None \<Rightarrow> Some p2
      | Some r \<Rightarrow> if \<not> starts_digit r then None else Some (dropWhile is_digit r)) = Some p3"
    and r: "(case drop_exponent_mark p3 of None \<Rightarrow> Some p3
      | Some r \<Rightarrow> (let r' = drop_sign r in if \<not> starts_digit r' then None else Some (dropWhile is_digit r'))) = Some r"
    unfolding json_skip_number_def Let_def p2_def by (auto split: if_splits option.splits)
  have 3: "one_line p3" using p3 2 by (auto split: option.splits if_splits intro: scan_one_line drop_char_one_line)
  show "one_line r" using r 3 by (auto simp: Let_def split: option.splits if_splits intro: scan_one_line exponent_one_line)
qed

lemma field_value_one_line: "json_field_value p = Some (v, r) \<Longrightarrow> one_line p \<Longrightarrow> one_line v \<and> one_line r"
  by (auto simp: json_field_value_def json_number_text_def split: option.splits
      dest: scan_string_one_line drop_char_one_line skip_number_one_line)

lemma uint_one_line: "json_uint v p = Some (n, r) \<Longrightarrow> one_line p \<Longrightarrow> one_line r"
  by (induction v p rule: json_uint.induct) (auto split: if_splits)

lemma skip_fraction_one_line: "one_line p \<Longrightarrow> one_line (json_skip_fraction p)"
proof -
  assume p: "one_line p"
  define p1 where "p1 = (case drop_char (CHR ''.'') p of None \<Rightarrow> p | Some r \<Rightarrow> dropWhile is_digit r)"
  have "one_line p1" using p by (auto simp: p1_def split: option.split intro: scan_one_line drop_char_one_line)
  then show ?thesis unfolding json_skip_fraction_def p1_def [symmetric]
    by (auto simp: Let_def split: option.split intro: scan_one_line exponent_one_line)
qed

lemma kv_add_one_line: "kv_array_add kvs k v = Some kvs' \<Longrightarrow> fields_one_line kvs \<Longrightarrow> one_line k \<Longrightarrow> one_line v \<Longrightarrow> fields_one_line kvs'"
  by (auto simp: kv_array_add_def split: if_splits)

text \<open>The object parser.\<close>

lemma fields_loop_one_line:
  "json_fields_loop p kvs = Some (kvs', q) \<Longrightarrow> one_line p \<Longrightarrow> fields_one_line kvs \<Longrightarrow> fields_one_line kvs' \<and> one_line q"
proof (induction p kvs rule: json_fields_loop.induct)
  case (1 p kvs)
  note IH = 1(1) and eq = 1(2) and p = 1(3) and kvs = 1(4)
  obtain c r where w: "json_skip_whitespace p = c # r" using eq
    by (subst (asm) json_fields_loop.simps) (auto split: list.splits)
  have r: "one_line r" using skip_whitespace_one_line [OF p] w by simp
  show ?case
  proof (cases "c = CHR ''}''")
    case True
    with eq w r kvs show ?thesis by (subst (asm) json_fields_loop.simps) simp
  next
    case False
    with eq w obtain key v vl v' kvs1 again q1 where
      s: "c = QUOTE" "json_key r = Some (key, v)" "json_field_value v = Some (vl, v')"
        "kv_array_add kvs key vl = Some kvs1" "json_after_value v' = Some (again, q1)"
      and res: "(if again then json_fields_loop q1 kvs1 else Some (kvs1, q1)) = Some (kvs', q)"
      by (subst (asm) json_fields_loop.simps) (auto split: option.splits prod.splits if_splits)
    have "fields_one_line kvs1" "one_line q1"
      using key_one_line [OF s(2) r] field_value_one_line [OF s(3)] kv_add_one_line [OF s(4) kvs] after_value_one_line [OF s(5)] by auto
    then show ?thesis
      using res IH [OF w False _ s(2) refl s(3) refl s(4) s(5) refl] s(1) by (cases again) auto
  qed
qed

definition object_one_line :: "json_object \<Rightarrow> bool" where
  "object_one_line obj = (pred_option one_line (jo_node_id obj) \<and> pred_option one_line (jo_error obj) \<and> fields_one_line (jo_fields obj))"

lemma string_member_one_line:
  "json_string_member key v obj = Some obj' \<Longrightarrow> one_line v \<Longrightarrow> object_one_line obj \<Longrightarrow> object_one_line obj'"
  by (auto simp: json_string_member_def object_one_line_def split: if_splits)

lemma number_member_one_line:
  assumes "json_number_member key p obj = Some (obj', q)" "one_line p" "object_one_line obj"
  shows "object_one_line obj' \<and> one_line q"
proof -
  have "one_line (case drop_char (CHR ''-'') p of None \<Rightarrow> p | Some r \<Rightarrow> r)" by (rule opt_drop_one_line [OF assms(2)])
  then show ?thesis
    using assms(1,3) by (auto simp: json_number_member_def object_one_line_def Let_def split: if_splits option.splits
        intro!: skip_fraction_one_line dest: uint_one_line)
qed

lemma member_one_line:
  assumes "json_member key p obj = Some (obj', q)" "one_line p" "object_one_line obj"
  shows "object_one_line obj' \<and> one_line q"
proof (cases "key = ''fields''")
  case True
  then show ?thesis using assms
    by (auto simp: json_member_def object_one_line_def split: option.splits dest!: fields_loop_one_line dest: drop_char_one_line)
next
  case False
  show ?thesis
  proof (cases "drop_char QUOTE p")
    case None
    then show ?thesis using False assms number_member_one_line by (simp add: json_member_def)
  next
    case (Some r)
    then have "one_line r" using drop_char_one_line assms(2) by blast
    then show ?thesis using False assms(1,3) Some
      by (auto simp: json_member_def split: option.splits dest: scan_string_one_line string_member_one_line)
  qed
qed

lemma members_loop_one_line:
  "json_members_loop p obj = Some (obj', q) \<Longrightarrow> one_line p \<Longrightarrow> object_one_line obj \<Longrightarrow> object_one_line obj'"
proof (induction p obj rule: json_members_loop.induct)
  case (1 p obj)
  note IH = 1(1) and eq = 1(2) and p = 1(3) and obj = 1(4)
  obtain c r where w: "json_skip_whitespace p = c # r" using eq
    by (subst (asm) json_members_loop.simps) (auto split: list.splits)
  have r: "one_line r" using skip_whitespace_one_line [OF p] w by simp
  show ?case
  proof (cases "c = CHR ''}''")
    case True
    with eq w obj show ?thesis by (subst (asm) json_members_loop.simps) simp
  next
    case False
    with eq w obtain key v obj1 v' again q1 where
      s: "c = QUOTE" "json_key r = Some (key, v)" "json_member key v obj = Some (obj1, v')"
        "json_after_value v' = Some (again, q1)"
      and res: "(if again then json_members_loop q1 obj1 else Some (obj1, q1)) = Some (obj', q)"
      by (subst (asm) json_members_loop.simps) (auto split: option.splits prod.splits if_splits)
    have "object_one_line obj1" "one_line q1"
      using key_one_line [OF s(2) r] member_one_line [OF s(3) _ obj] after_value_one_line [OF s(4)] by auto
    then show ?thesis
      using res IH [OF w False _ s(2) refl s(3) refl s(4) refl] s(1) by (cases again) auto
  qed
qed

lemma object_fields_one_line: "object_one_line obj \<Longrightarrow> fields_one_line (object_fields obj)"
  by (auto simp: object_one_line_def object_fields_def split: option.split)

lemma parse_object_one_line:
  assumes "json_parse_object (Some t) = Some (obj, n)" "one_line t"
  shows "object_one_line obj"
proof -
  from assms(1) obtain p q where p: "drop_char (CHR ''{'') (json_skip_whitespace t) = Some p"
    "json_members_loop p zero_json_object = Some (obj, q)"
    by (auto simp: json_parse_object_def split: if_splits option.splits)
  have "object_one_line zero_json_object" by (simp add: object_one_line_def zero_json_object_def)
  with members_loop_one_line [OF p(2)] drop_char_one_line [OF p(1) skip_whitespace_one_line [OF assms(2)]] show ?thesis by simp
qed

text \<open>The decoder of DATA messages.\<close>

definition data_one_line :: "frame_data \<Rightarrow> bool" where
  "data_one_line d = (one_line (data_node_id d) \<and> fields_one_line (data_fields d))"

abbreviation rest_one_line :: "string option \<Rightarrow> bool" where "rest_one_line \<equiv> pred_option one_line"

lemma data_add_one_line:
  "json_data_add_field d key v = Some d' \<Longrightarrow> data_one_line d \<Longrightarrow> one_line key \<Longrightarrow> one_line v \<Longrightarrow> data_one_line d'"
  by (auto simp: json_data_add_field_def data_one_line_def dest: kv_add_one_line)

lemma data_fields_loop_one_line:
  "json_data_fields_loop p d = (d', q) \<Longrightarrow> one_line p \<Longrightarrow> data_one_line d \<Longrightarrow> data_one_line d' \<and> rest_one_line q"
proof (induction p d rule: json_data_fields_loop.induct)
  case (1 p d)
  note IH = 1(1) and eq = 1(2) and p = 1(3) and d = 1(4)
  show ?case
  proof (cases "json_skip_whitespace p")
    case Nil
    with eq d show ?thesis by (subst (asm) json_data_fields_loop.simps) auto
  next
    case w: (Cons c r)
    have r: "one_line r" using skip_whitespace_one_line [OF p] w by simp
    show ?thesis
    proof (cases "c = CHR ''}'' \<or> c \<noteq> QUOTE \<or> json_key r = None")
      case True
      with eq w r d show ?thesis by (subst (asm) json_data_fields_loop.simps) (auto split: if_splits)
    next
      case False
      then obtain key v where k: "c \<noteq> CHR ''}''" "c = QUOTE" "json_key r = Some (key, v)" by auto
      have kv: "one_line key" "one_line v" using key_one_line [OF k(3) r] by auto
      show ?thesis
      proof (cases "key = [] \<or> FRAME_KV_KEY_MAX \<le> length key \<or> FRAME_DATA_MAX_FIELDS \<le> length (data_fields d) \<or> json_field_value v = None")
        case True
        with eq w k d show ?thesis by (subst (asm) json_data_fields_loop.simps) (auto split: if_splits)
      next
        case False
        then obtain vl v' where f: "\<not> (key = [] \<or> FRAME_KV_KEY_MAX \<le> length key \<or> FRAME_DATA_MAX_FIELDS \<le> length (data_fields d))"
          "json_field_value v = Some (vl, v')" by auto
        have vl: "one_line vl" "one_line v'" using field_value_one_line [OF f(2) kv(2)] by auto
        show ?thesis
        proof (cases "json_data_add_field d key vl")
          case None
          with eq w k f d show ?thesis by (subst (asm) json_data_fields_loop.simps) auto
        next
          case a: (Some d1)
          have d1: "data_one_line d1" by (rule data_add_one_line [OF a d kv(1) vl(1)])
          show ?thesis
          proof (cases "json_after_value v'")
            case None
            with eq w k f a d1 show ?thesis by (subst (asm) json_data_fields_loop.simps) auto
          next
            case (Some bq)
            then obtain again q1 where q1: "json_after_value v' = Some (again, q1)" by (cases bq) auto
            with eq w k f a have res: "(if again then json_data_fields_loop q1 d1 else (d1, Some q1)) = (d', q)"
              by (subst (asm) json_data_fields_loop.simps) auto
            show ?thesis
              using res IH [OF w k(1) _ k(3) refl f(1,2) refl a q1 refl] k(2) d1 after_value_one_line [OF q1 vl(2)] by (cases again) auto
          qed
        qed
      qed
    qed
  qed
qed

lemma x10_one_line: "json_parse_x10 p = Some (v, q) \<Longrightarrow> one_line p \<Longrightarrow> one_line q"
proof -
  assume a: "json_parse_x10 p = Some (v, q)" and p: "one_line p"
  define p1 where "p1 = (case drop_char (CHR ''-'') p of None \<Rightarrow> p | Some r \<Rightarrow> r)"
  from a obtain n p2 where 2: "x10_digits 0 p1 = Some (n, p2)"
    by (cases "x10_digits 0 p1") (auto simp: json_parse_x10_def Let_def p1_def split: if_splits)
  have q: "q = (case drop_char (CHR ''.'') p2 of None \<Rightarrow> p2 | Some r \<Rightarrow> dropWhile is_digit r)"
    using a 2 by (cases "drop_char (CHR ''.'') p2")
      (simp_all add: json_parse_x10_def Let_def p1_def [symmetric] split: if_split_asm)
  have "one_line t" if "x10_digits k s = Some (n, t)" "one_line s" for k s t
    using that by (induction k s rule: x10_digits.induct) (auto split: if_splits)
  with 2 have "one_line p2" using opt_drop_one_line [OF p] by (auto simp: p1_def)
  then show "one_line q" unfolding q by (auto split: option.split intro: scan_one_line drop_char_one_line)
qed

lemma data_number_member_one_line:
  assumes eq: "json_data_number_member key p st = (st', q)" and p: "one_line p" and st: "data_one_line (jd_data st)"
  shows "data_one_line (jd_data st') \<and> rest_one_line q"
proof -
  consider (x10) "key = ''temperature'' \<or> key = ''humidity''"
    | (seq) "key = ''seq''"
    | (other) "\<not> (key = ''temperature'' \<or> key = ''humidity'')" "key \<noteq> ''seq''" by blast
  then show ?thesis
  proof cases
    case x10
    have "one_line q1" if "json_parse_x10 p = Some (v, q1)" for v q1 using x10_one_line [OF that p] .
    moreover have "data_one_line d" if "json_data_add_field (jd_data st) k (print_d v) = Some d" "one_line k" for k v d
      using data_add_one_line [OF that(1) st that(2)] by simp
    ultimately show ?thesis
      using eq st unfolding json_data_number_member_def if_P [OF x10]
      by (auto split: option.splits if_splits)
  next
    case seq
    then show ?thesis
      using eq st p by (auto simp: json_data_number_member_def split: option.splits if_splits
          dest: uint_one_line intro!: skip_fraction_one_line)
  next
    case other
    then have "q = Some (json_skip_fraction (dropWhile is_digit (case drop_char (CHR ''-'') p of None \<Rightarrow> p | Some r \<Rightarrow> r)))" "st' = st"
      using eq by (simp_all add: json_data_number_member_def)
    then show ?thesis using st by (simp add: skip_fraction_one_line digits_one_line opt_drop_one_line [OF p])
  qed
qed

lemma data_member_one_line:
  assumes eq: "json_data_member key p st = (st', q)" and p: "one_line p" and st: "data_one_line (jd_data st)"
  shows "data_one_line (jd_data st') \<and> rest_one_line q"
proof (cases "key = ''fields''")
  case True
  show ?thesis
    using eq st p unfolding json_data_member_def if_P [OF True]
    by (auto split: option.splits prod.splits dest: drop_char_one_line data_fields_loop_one_line)
next
  case False
  show ?thesis
  proof (cases "drop_char QUOTE p")
    case None
    then show ?thesis using False data_number_member_one_line [OF _ p st] eq by (simp add: json_data_member_def)
  next
    case (Some r)
    have r: "one_line r" by (rule drop_char_one_line [OF Some p])
    have "data_one_line (jd_data st1)" if "json_data_string_member key v st = Some st1" "one_line v" for v st1
      using that st by (auto simp: json_data_string_member_def data_one_line_def split: if_splits)
    moreover have "one_line a \<and> one_line b" if "json_scan_string r = Some (a, b)" for a b
      using scan_string_one_line [OF that r] .
    ultimately show ?thesis
      using eq st Some False by (auto simp: json_data_member_def split: option.splits)
  qed
qed

lemma data_members_loop_one_line:
  "json_data_members_loop p st = (st', q) \<Longrightarrow> one_line p \<Longrightarrow> data_one_line (jd_data st) \<Longrightarrow> data_one_line (jd_data st')"
proof (induction p st rule: json_data_members_loop.induct)
  case (1 p st)
  note IH = 1(1) and eq = 1(2) and p = 1(3) and st = 1(4)
  show ?case
  proof (cases "json_skip_whitespace p")
    case Nil
    with eq st show ?thesis by (subst (asm) json_data_members_loop.simps) auto
  next
    case w: (Cons c r)
    have r: "one_line r" using skip_whitespace_one_line [OF p] w by simp
    show ?thesis
    proof (cases "c = CHR ''}'' \<or> c \<noteq> QUOTE \<or> json_key r = None")
      case True
      with eq w st show ?thesis by (subst (asm) json_data_members_loop.simps) (auto split: if_splits)
    next
      case False
      then obtain key v where k: "c \<noteq> CHR ''}''" "c = QUOTE" "json_key r = Some (key, v)" by auto
      obtain st1 o1 where m: "json_data_member key v st = (st1, o1)" by fastforce
      have st1: "data_one_line (jd_data st1)" "rest_one_line o1"
        using data_member_one_line [OF m _ st] key_one_line [OF k(3) r] by auto
      show ?thesis
      proof (cases "o1 = None \<or> json_after_value (the o1) = None")
        case True
        then show ?thesis using eq w k m st1
          by (subst (asm) json_data_members_loop.simps) (cases o1, auto)
      next
        case False
        then obtain v' again q1 where a: "o1 = Some v'" "json_after_value v' = Some (again, q1)" by auto
        have res: "(if again then json_data_members_loop q1 st1 else (st1, Some q1)) = (st', q)"
          using eq w k m a by (subst (asm) json_data_members_loop.simps) auto
        show ?thesis
          using res IH [OF w k(1) _ k(3) refl m [symmetric] a(1) a(2) refl] k(2) st1 after_value_one_line [OF a(2)] a(1) by (cases again) auto
      qed
    qed
  qed
qed

lemma decode_data_one_line:
  assumes "message_json_decode_data (Some t) (Some zero_frame_data) = (Some n, Some d)" "one_line t" shows "data_one_line d"
proof -
  obtain p st q where p: "drop_char (CHR ''{'') (json_skip_whitespace t) = Some p"
    "json_data_members_loop p json_data_start = (st, Some q)" "d = (jd_data st)\<lparr>data_sequence := jd_sequence st\<rparr>"
    using assms(1) by (auto simp: message_json_decode_data_def split: if_splits option.splits prod.splits)
  have "data_one_line (jd_data json_data_start)" by (simp add: json_data_start_def data_one_line_def zero_frame_data_def)
  with data_members_loop_one_line [OF p(2)] drop_char_one_line [OF p(1) skip_whitespace_one_line [OF assms(2)]]
  show ?thesis by (simp add: p(3) data_one_line_def)
qed

lemma line_report_one_line:
  assumes "line_report line = Some (node, t)" "one_line line"
  shows "one_line node \<and> message_line t"
proof -
  obtain ok ty where ty: "message_json_peek_type (Some line) (Some []) 8 = (ok, ty)" by fastforce
  note r = assms(1) [unfolded line_report_def ty]
  have ok using r by (cases ok) simp_all
  then consider (ack) "ok" "ty = Some ''ACK''" | (nack) "ok" "ty = Some ''NACK''"
    | (data) "ok" "ty \<noteq> Some ''ACK''" "ty \<noteq> Some ''NACK''" by blast
  then show ?thesis
  proof cases
    case ack
    obtain m a where ma: "message_json_decode_ack (Some line) (Some zero_frame_ack) = (m, a)" by fastforce
    with ack r obtain n where d: "message_json_decode_ack (Some line) (Some zero_frame_ack) = (Some n, a)" "node = ack_node_id (the a)" "t = json_ack_text (the a)"
      by (cases m) (auto split: if_splits)
    then show ?thesis using parse_object_one_line [OF _ assms(2)]
      by (auto simp: message_json_decode_ack_def json_ack_text_def object_one_line_def split: option.splits if_splits
          intro!: device_text_line object_fields_one_line)
  next
    case nack
    obtain m a where ma: "message_json_decode_nack (Some line) (Some zero_frame_nack) = (m, a)" by fastforce
    with nack r obtain n where d: "message_json_decode_nack (Some line) (Some zero_frame_nack) = (Some n, a)" "node = nack_node_id (the a)" "t = json_nack_text (the a)"
      by (cases m) (auto split: if_splits)
    then show ?thesis using parse_object_one_line [OF _ assms(2)]
      by (auto simp: message_json_decode_nack_def object_one_line_def split: option.splits if_splits intro!: nack_text_line)
  next
    case data
    obtain m a where ma: "message_json_decode_data (Some line) (Some zero_frame_data) = (m, a)" by fastforce
    with data r obtain n where d: "message_json_decode_data (Some line) (Some zero_frame_data) = (Some n, a)" "node = data_node_id (the a)" "t = json_data_text (the a)"
      by (cases m) (auto split: if_splits)
    then obtain x where "a = Some x" by (auto simp: message_json_decode_data_def split: if_splits option.splits prod.splits)
    then show ?thesis using decode_data_one_line [of line n x] assms(2) d
      by (auto simp: data_one_line_def json_data_text_def intro!: device_text_line)
  qed
qed

end
