(* ===== verification/System_Framing.thy ===== *)
theory System_Framing
  imports System_Progress Line_Safety Report_Path
begin

text \<open>
  The stream to the server: in every reachable state of the gateway each message that a worker produces
  is one line, whatever its node has sent. So the line parser of the server takes the stream apart into exactly
  the messages that were delivered: a node can neither smuggle in a second message nor spoil the messages of
  other nodes.
\<close>

section \<open>Only lines are pushed\<close>

definition line_message :: "gateway_message \<Rightarrow> bool" where
  "line_message m = (message_line (msg_data m) \<and> msg_length m = length (msg_data m))"

text \<open>The messages are lines, and the names of the nodes, which NACKs repeat, are on one line.\<close>

definition gateway_lines :: "gateway \<Rightarrow> bool" where
  "gateway_lines g = (list_all line_message (gw_pushed g) \<and> (\<forall>i \<in> dom (dm_abs (gw_devices g)). one_line i))"

lemma gateway_lines_same:
  "gw_pushed g' = gw_pushed g \<Longrightarrow> dom (dm_abs (gw_devices g')) = dom (dm_abs (gw_devices g)) \<Longrightarrow> gateway_lines g' = gateway_lines g"
  by (simp add: gateway_lines_def)

lemma gateway_lines_logs [simp]:
  "gateway_lines (g\<lparr>gw_sent := log\<rparr>) = gateway_lines g" "gateway_lines (g\<lparr>gw_history := es\<rparr>) = gateway_lines g"
  by (rule gateway_lines_same; simp)+

lemma enqueue_lines: "message_line t \<Longrightarrow> gateway_lines g \<Longrightarrow> gateway_lines (enqueue_built (json_written 256 t) g)"
  by (simp add: enqueue_json_written gateway_lines_def line_message_def to_message_def)

lemma report_note_lines: "gateway_lines g \<Longrightarrow> gateway_lines (note_report node built g)"
  by (simp add: note_report_def split: option.split prod.split)

lemma enqueue_nack_lines:
  "one_line node \<Longrightarrow> one_line error \<Longrightarrow> gateway_lines g \<Longrightarrow> gateway_lines (gateway_app_enqueue_nack (Some node) n (Some error) g)"
  by (simp add: gateway_app_enqueue_nack_def csimps nack_text_line enqueue_lines del: enqueue_json_written)

lemma nack_commands_lines:
  "list_all (\<lambda>c. one_line (cmd_target_node c)) cs \<Longrightarrow> one_line error \<Longrightarrow> gateway_lines g \<Longrightarrow> gateway_lines (nack_commands error cs g)"
  by (induction cs arbitrary: g) (simp_all add: enqueue_nack_lines)

lemma devices_lines:
  assumes "gateway_lines g" "\<forall>i \<in> dom (dm_abs m) - dom (dm_abs (gw_devices g)). one_line i"
  shows "gateway_lines (g\<lparr>gw_devices := m\<rparr>)"
  using assms unfolding gateway_lines_def by auto

lemma devices_lines_same [simp]:
  "dom (dm_abs m) = dom (dm_abs (gw_devices g)) \<Longrightarrow> gateway_lines (g\<lparr>gw_devices := m\<rparr>) = gateway_lines g"
  by (rule gateway_lines_same) simp_all

text \<open>The commands taken out of the queue of a node are for this node.\<close>

lemma taken_lines:
  assumes inv: "dm_inv (gw_devices g)" and g: "gateway_lines g" and v: "dm_abs (gw_devices g) i = Some v"
  shows "list_all (\<lambda>c. one_line (cmd_target_node c)) (nv_pending v)"
proof -
  have "pending g i = nv_pending v" using v by (simp add: pending_def)
  moreover have "one_line i" using g v by (auto simp: gateway_lines_def)
  ultimately show ?thesis using pending_facts(2) [OF inv, of i] by (auto simp: list_all_iff)
qed

lemma touch_lines:
  assumes inv: "dm_inv (gw_devices g)" and t: "gateway_app_touch_device now node (g, up) = (ok, g', up')"
    and l: "gateway_lines g" "one_line node" "one_line (up_bound_node_id up)"
  shows "gateway_lines g' \<and> one_line (up_bound_node_id up')"
proof -
  consider (bind) "node \<noteq> []" "up_bound_node_id up = []" "length node < 32"
    | (seen) "node \<noteq> []" "up_bound_node_id up = node"
    | (other) "node = [] \<or> up_bound_node_id up = [] \<and> 32 \<le> length node \<or> up_bound_node_id up \<notin> {[], node}" by force
  then show ?thesis
  proof cases
    case bind
    let ?op = "Bind (Some node) (up_transport up) (up_device_fd up) (up_thread up) (Some 8) now"
    obtain r devs out where e: "dm_exec ?op (gw_devices g) = (r, devs, out)" by (cases "dm_exec ?op (gw_devices g)")
    note s = dm_exec_step(1) [OF inv e]
    have out: "out = [] \<or> (\<exists>v. dm_abs (gw_devices g) node = Some v \<and> out = nv_pending v)"
      and "dom (dm_abs devs) \<subseteq> insert node (dom (dm_abs (gw_devices g)))"
      using s by (auto split: if_splits option.splits)
    then have "gateway_lines (g\<lparr>gw_devices := devs\<rparr>)" using l by (intro devices_lines) auto
    moreover have "list_all (\<lambda>c. one_line (cmd_target_node c)) out" using out taken_lines [OF inv l(1)] by auto
    ultimately show ?thesis
      using t e bind l(2) by (auto simp: gateway_app_touch_device_def dm_consts nack_commands_lines split: if_splits)
  next
    case seen
    obtain r devs where e: "device_manager_update_last_seen (gw_devices g) (Some node) now = (r, devs)" by fastforce
    then have "dm_exec (Update_Last_Seen (Some node) now) (gw_devices g) = (r, devs, [])" by simp
    from dm_exec_step(1) [OF inv this] have "dom (dm_abs devs) = dom (dm_abs (gw_devices g))"
      by (auto split: if_splits option.splits)
    with e seen t l show ?thesis by (auto simp: gateway_app_touch_device_def)
  qed (use t l in \<open>auto simp: gateway_app_touch_device_def dm_consts split: if_splits\<close>)
qed

lemma report_lines:
  assumes inv: "dm_inv (gw_devices g)" and l: "gateway_lines g" "one_line (up_bound_node_id up)"
    and r: "\<And>node t. r = Some (node, t) \<Longrightarrow> one_line node \<and> message_line t"
    and h: "handle_report now r (g, up) = (g', up')"
  shows "gateway_lines g' \<and> one_line (up_bound_node_id up')"
proof (cases r)
  case None
  then show ?thesis using h l by (auto simp: handle_report_def decode_error_def gateway_lines_def)
next
  case (Some nt)
  obtain node t where nt: "r = Some (node, t)" using Some by (cases nt) auto
  obtain ok g1 up1 where d: "gateway_app_touch_device now node (g, up) = (ok, g1, up1)"
    by (cases "gateway_app_touch_device now node (g, up)")
  from touch_lines [OF inv d l(1) _ l(2)] r [OF nt] h show ?thesis
    by (auto simp: nt handle_report_def touch_and_enqueue_def d simp del: enqueue_json_written split: if_splits
        intro: report_note_lines enqueue_lines)
qed

lemma try_send_lines:
  assumes inv: "dm_inv (gw_devices g)" and l: "gateway_lines g" "one_line (up_bound_node_id up)"
    and t: "link_try_send tr encode os fd (g, up) = (r, g', up')"
  shows "gateway_lines g'"
proof -
  let ?op = "Try_Dequeue (Some (up_bound_node_id up)) fd (up_thread up)"
  obtain q devs out where e: "dm_exec ?op (gw_devices g) = (q, devs, out)" by (cases "dm_exec ?op (gw_devices g)")
  have "dom (dm_abs devs) = dom (dm_abs (gw_devices g))"
    using dm_exec_step(1) [OF inv e] by (auto split: if_splits option.splits list.splits)
  then have d: "gateway_lines (g\<lparr>gw_devices := devs\<rparr>)" using l(1) by simp
  have "gateway_lines g2" if "link_send tr os fd (up_bound_node_id up) c bytes g1 = (r1, g2)" "gateway_lines g1" for c bytes g1 r1 g2
    using that l(2) by (auto simp: link_send_def enqueue_nack_lines split: option.splits prod.splits if_splits)
  then show ?thesis using t d l(1) e
    by (auto simp: link_try_send_def simp del: dm_exec.simps split: if_splits prod.splits)
qed

lemma hang_up_lines:
  assumes inv: "dm_inv (gw_devices g)" and l: "gateway_lines g"
  shows "gateway_lines (link_hang_up fd (g, up))"
proof -
  let ?op = "Disconnect (Some (up_bound_node_id up)) fd (up_thread up) (Some DEVICE_COMMAND_QUEUE_CAPACITY)"
  obtain r devs out where e: "dm_exec ?op (gw_devices g) = (r, devs, out)" by (cases "dm_exec ?op (gw_devices g)")
  have out: "out = [] \<or> (\<exists>v. dm_abs (gw_devices g) (up_bound_node_id up) = Some v \<and> out = nv_pending v)"
    and "dom (dm_abs devs) = dom (dm_abs (gw_devices g))"
    using dm_exec_step(1) [OF inv e] by (auto split: if_splits option.splits)
  then have "gateway_lines (g\<lparr>gw_devices := devs\<rparr>)" "list_all (\<lambda>c. one_line (cmd_target_node c)) out"
    using l taken_lines [OF inv l] by auto
  then show ?thesis using l e by (simp add: link_hang_up_def nack_commands_lines del: dm_exec.simps)
qed

lemma tcp_line_nodes:
  assumes inv: "dm_inv (gw_devices g)"
  shows "dom (dm_abs (gw_devices (gateway_app_on_tcp_line os line g))) = dom (dm_abs (gw_devices g))"
proof -
  have nack: "gw_devices (snd (gateway_app_send_route_nack os command error g)) = gw_devices g" for command error g
    by (auto simp: gateway_app_send_route_nack_def send_logged_def Let_def split: option.splits prod.splits)
  obtain n c where d: "message_json_decode_command (Some line) (Some zero_frame_command) = (n, c)" by fastforce
  obtain r devs where e: "device_manager_enqueue_command (gw_devices g) (Some (cmd_target_node (the c))) c = (r, devs)" by fastforce
  have "dom (dm_abs devs) = dom (dm_abs (gw_devices g))"
    using dm_exec_step(1) [OF inv, of "Enqueue (Some (cmd_target_node (the c))) c"] e by (auto split: if_splits option.splits)
  then show ?thesis by (auto simp: gateway_app_on_tcp_line_def d e nack decode_error_def split: option.splits)
qed

section \<open>Every reachable state\<close>

definition lines_ok :: "system \<Rightarrow> bool" where
  "lines_ok s = (gateway_lines (sy_gateway s) \<and> (\<forall>t w. sy_workers s t = Some w \<longrightarrow> one_line (up_bound_node_id (wk_up w))))"

lemma worker_ran_lines:
  "lines_ok s \<Longrightarrow> gateway_lines g \<Longrightarrow> one_line (up_bound_node_id up) \<Longrightarrow> lines_ok (worker_ran t phase (g, up) s)"
  by (simp add: lines_ok_def worker_ran_def Let_def)

lemma link_local_lines: "lines_ok s \<Longrightarrow> link_local (sy_link s) l \<Longrightarrow> lines_ok (s\<lparr>sy_link := l, sy_phase := ph, sy_lines := ls\<rparr>)"
  by (auto simp: lines_ok_def link_local_def gateway_lines_def)

lemma server_thread_lines:
  assumes "lines_ok s" "link_local (sy_link s) l"
  shows "lines_ok (s\<lparr>sy_link := l\<rparr>)" "lines_ok (s\<lparr>sy_link := l, sy_phase := ph\<rparr>)"
  using assms by (auto simp: lines_ok_def link_local_def gateway_lines_def)

lemma step_lines:
  assumes "system_step s s'" "system_inv s" "lines_ok s" shows "lines_ok s'"
  using assms(1)
proof (cases rule: system_step.cases)
  case (report t w frame line now)
  have inv: "dm_inv (gw_devices (sy_gateway s))" using assms(2) by (simp add: system_inv_def link_ok_def)
  have l: "gateway_lines (sy_gateway s)" "one_line (up_bound_node_id (wk_up w))" using assms(3) report(2) by (auto simp: lines_ok_def)
  let ?r = "if up_transport (wk_up w) = DEVICE_TRANSPORT_BLUETOOTH then frame_report frame else line_report line"
  have r: "one_line node \<and> message_line t" if "?r = Some (node, t)" for node t
    using that report(5,6) frame_report_one_line [of frame node t] line_report_one_line [of line node t]
    by (auto simp: one_line_def split: if_splits)
  obtain g up where h: "handle_report now ?r (sy_gateway s, wk_up w) = (g, up)" by fastforce
  from report_lines [OF inv l r h] worker_ran_lines [OF assms(3)] show ?thesis
    by (simp only: report(1) worker_report_handle h)
next
  case (try_send t w os r g up)
  have inv: "dm_inv (gw_devices (sy_gateway s))" using assms(2) by (simp add: system_inv_def link_ok_def)
  have l: "gateway_lines (sy_gateway s)" "one_line (up_bound_node_id (wk_up w))" using assms(3) try_send(2) by (auto simp: lines_ok_def)
  have "up = wk_up w" using worker_try_send_ran(1) [OF inv try_send(5)] .
  moreover have "\<exists>tr encode. link_try_send tr encode os (up_device_fd (wk_up w)) (sy_gateway s, wk_up w) = (r, g, up)"
    using try_send(5) by (cases "up_transport (wk_up w)")
      (auto simp: worker_try_send_def bluetooth_try_send_link wifi_try_send_link)
  ultimately show ?thesis using try_send_lines [OF inv l] worker_ran_lines [OF assms(3)] l(2) by (auto simp: try_send(1))
next
  case (hang_up t w)
  have inv: "dm_inv (gw_devices (sy_gateway s))" using assms(2) by (simp add: system_inv_def link_ok_def)
  have l: "gateway_lines (sy_gateway s)" "one_line (up_bound_node_id (wk_up w))" using assms(3) hang_up(2) by (auto simp: lines_ok_def)
  then show ?thesis using hang_up_lines [OF inv l(1)] worker_ran_lines [OF assms(3)] by (simp add: hang_up(1) worker_disconnect_link)
next
  case (link_line line ls os)
  have inv: "dm_inv (gw_devices (sy_gateway s))" using assms(2) by (simp add: system_inv_def link_ok_def)
  note t = tcp_line_shared [OF inv, of os line]
  show ?thesis
    using assms(3) t(2) tcp_line_nodes [OF inv, of os line] by (auto simp: link_line(1) lines_ok_def gateway_lines_def)
next
  case (connect t fd tr)
  then show ?thesis using assms(3) by (auto simp: lines_ok_def connect_worker_def gateway_lines_def)
next
  case (close_fd t w)
  then show ?thesis using assms(3) by (auto simp: lines_ok_def remove_worker_def gateway_lines_def)
next
  case (push t w m ms r q)
  then show ?thesis using assms(3) by (auto simp: lines_ok_def)
next
  case shutdown
  then show ?thesis using assms(3) by (simp add: lines_ok_def)
next
  case (link_pop go l)
  have ok: "link_ok (sy_link s)" using assms(2) by (simp add: system_inv_def)
  have l: "link_local (sy_link s) l" using pop_local [OF ok] link_pop(3) by simp
  then have "link_local (sy_link s) (link_ended l)"
    by (rule link_local_trans) (rule ended_local [OF link_local_ok [OF l]])
  with l show ?thesis using server_thread_lines(2) [OF assms(3)] by (simp add: link_pop(1))
next
  case (link_connect turn go l)
  have ok: "link_ok (sy_link s)" using assms(2) by (simp add: system_inv_def)
  show ?thesis using server_thread_lines(2) [OF assms(3)] connect_local [OF ok, of turn] link_connect(3) by (simp add: link_connect(1))
next
  case (link_send os now go l)
  have ok: "link_ok (sy_link s)" "0 \<le> gc_tcp_fd (gw_context (sy_gateway s))" using assms(2) link_send(2) by (simp_all add: system_invs)
  show ?thesis using server_thread_lines(2) [OF assms(3)] send_local [OF ok, of os now] link_send(3) by (simp add: link_send(1))
next
  case (link_receive bytes ls l)
  have "link_local (sy_link s) l" using received_local [OF _ link_receive(4)] assms(2) by (simp add: system_inv_def)
  then show ?thesis using server_thread_lines(2) [OF assms(3)] by (simp add: link_receive(1) lines_ok_def)
next
  case link_next
  then show ?thesis using assms(3) by (simp add: lines_ok_def)
next
  case (link_lost now)
  have ok: "link_ok (sy_link s)" using assms(2) by (simp add: system_inv_def)
  show ?thesis using server_thread_lines(2) [OF assms(3) disconnect_local [OF ok]] by (simp add: link_lost(1))
next
  case link_stop
  have ok: "link_ok (sy_link s)" using assms(2) by (simp add: system_inv_def)
  show ?thesis using server_thread_lines(2) [OF assms(3) ended_local [OF ok]] by (simp add: link_stop(1))
qed

lemma reachable_lines:
  assumes "length items = 32" "system_steps (system_start ip port items) s" shows "lines_ok s"
  using assms(2)
proof (induction rule: rtranclp_induct)
  case base
  show ?case
    by (simp add: lines_ok_def gateway_lines_def system_start_def device_manager_init_def dm_abs_def table_map_def)
next
  case (step s1 s2)
  show ?case by (rule step_lines [OF step(2) reachable_inv [OF assms(1) step(1)] step(3)])
qed

text \<open>What the server has got was produced by a worker.\<close>

lemma done_produced:
  assumes "length items = 32" "system_steps (system_start ip port items) s"
  shows "set (ln_done (sy_link s)) \<subseteq> set (gw_pushed (sy_gateway s))"
proof
  have "upstream_ok s" using reachable_inv [OF assms] by (simp add: system_inv_def)
  then have u: "of_thread t (sy_produced s) = of_thread t (sy_accepted s) @ of_thread t (sy_refused s) @ outbox s t"
    "map snd (sy_produced s) = gw_pushed (sy_gateway s)" "map snd (sy_accepted s) = link_messages (sy_link s)" for t
    unfolding upstream_ok_def by blast+
  fix m assume "m \<in> set (ln_done (sy_link s))"
  then have "m \<in> set (link_messages (sy_link s))" by (simp add: link_messages_def)
  then have "m \<in> set (map snd (sy_accepted s))" unfolding u(3) .
  then obtain t where "m \<in> set (of_thread t (sy_accepted s))" by (force simp: of_thread_def)
  then have "m \<in> set (of_thread t (sy_produced s))" unfolding u(1) by simp
  then have "m \<in> set (map snd (sy_produced s))" by (force simp: of_thread_def)
  then show "m \<in> set (gw_pushed (sy_gateway s))" unfolding u(2) .
qed

lemma message_stream:
  assumes "list_all line_message ms"
  shows "line_parser_loop (Some f) (concat (map msg_data ms)) u n = ([], fold (\<lambda>m. f (butlast (msg_data m))) ms u, n + length ms)"
proof -
  have m: "msg_data m = butlast (msg_data m) @ [LF]" "LF \<notin> set (butlast (msg_data m))" "strip_cr (butlast (msg_data m)) = butlast (msg_data m)"
    if "line_message m" for m
    using that by (auto simp: line_message_def message_line_def one_line_def strip_cr_def butlast_append)
  have t: "concat (map msg_data ms) = concat (map (\<lambda>l. l @ [LF]) (map (butlast \<circ> msg_data) ms))"
    using assms m(1) by (induction ms) auto
  have "list_all (\<lambda>l. LF \<notin> set l) (map (butlast \<circ> msg_data) ms)" using assms m(2) by (auto simp: list_all_iff)
  from split_lines [OF this, of "[]"] have p: "split_on LF (concat (map msg_data ms)) = map (butlast \<circ> msg_data) ms @ [[]]"
    unfolding t by simp
  have "fold (line_call (Some f)) (map (butlast \<circ> msg_data) ms) u = fold (\<lambda>m. f (butlast (msg_data m))) ms u"
    using assms m(3) by (induction ms arbitrary: u) (simp_all add: line_call_def)
  then show ?thesis by (simp add: line_parser_loop_pieces p)
qed

text \<open>C6: The server gets what the nodes said, message by message: in every reachable state of the gateway,
  whatever bytes the nodes have sent and however the threads interleave, the messages delivered to the server,
  sent one after the other and cut by TCP in any way, make the line parser of the server call \<open>on_line\<close> exactly
  once for every message, in order, with exactly its text, and nothing is left over. So no node can
  put a second message on the wire, or break the messages of another node.\<close>
theorem server_reads_every_message:
  assumes "length items = 32" "system_steps (system_start ip port items) s"
    and "concat reads = concat (map message_bytes (ln_done (sy_link s)))"
  shows "foldl (line_receive (Some (on_line now))) ([], ctx, 0) reads =
     ([], fold (\<lambda>m. on_line now (butlast (msg_data m))) (ln_done (sy_link s)) ctx, length (ln_done (sy_link s)))"
proof -
  have l: "list_all line_message (ln_done (sy_link s))"
    using reachable_lines [OF assms(1,2)] done_produced [OF assms(1,2)] by (auto simp: lines_ok_def gateway_lines_def list_all_iff)
  have "map message_bytes (ln_done (sy_link s)) = map msg_data (ln_done (sy_link s))"
    using l by (intro map_cong) (auto simp: list_all_iff line_message_def)
  then have "concat reads = concat (map msg_data (ln_done (sy_link s)))" using assms(3) by (simp only:)
  moreover have "line_ready ([], ctx, 0)" by (simp add: line_ready_def)
  ultimately show ?thesis
    using line_stream.feed_chunks [of "([], ctx, 0)" "Some (on_line now)" reads] message_stream [OF l, of "on_line now" ctx 0] by simp
qed

theorem server_reads_every_message_witness:
  "\<exists>s ctx'. system_steps example_start s \<and> foldl (line_receive (Some (on_line 5))) ([], (\<lparr>ns_entries = [], ns_capacity = 64\<rparr>, cm_start), 0)
     (map message_bytes (ln_done (sy_link s))) = ([], ctx', 1)"
proof -
  obtain s where s: "system_steps example_start s" "length (ln_done (sy_link s)) = 1" by (rule example_delivered)
  from server_reads_every_message [OF example_items s(1) refl, of 5] s show ?thesis by auto
qed

end
