(* ===== verification/System_Threads.thy ===== *)
theory System_Threads
  imports System_Progress Line_Safety Round_Trip
begin

text \<open>
  The threads of the other theories are runs of the system: what \<open>bluetooth_worker\<close> and
  \<open>wifi_client_worker\<close> do with the gateway, from their first connection to their last descriptor
  closed, interleaved with what the other threads do, the steps of \<open>Gateway_System\<close> can do from the
  same state. So what holds in every reachable state of the system covers the code of the workers.
  The server thread has its \<open>link_turn_is_steps\<close> in \<open>Gateway_System\<close>.

  The code's model has an unknown function for what others do before a turn. The schedule of a run
  says that each of them is what some steps of the others do to the gateway: any number of steps of
  any other worker and of the server thread. Between two such points a turn of the worker runs
  without interruption, as it does in the code's model. A push that finds the queue full waits for the
  server thread, so the schedule also says that the queue has room for what the turn pushes, or is
  shut down; the steps of the others before the turn can make the room.
\<close>

section \<open>Runs of one worker\<close>

text \<open>Nobody moves but \<open>t\<close>, and the queue has got at most what was pushed.\<close>

definition alone :: "nat \<Rightarrow> system \<Rightarrow> system \<Rightarrow> bool" where
  "alone t s s' =
     (system_steps s s' \<and> (\<forall>u. u \<noteq> t \<longrightarrow> sy_workers s' u = sy_workers s u) \<and> sy_phase s' = sy_phase s
      \<and> mq_shutting_down (sy_queue s') = mq_shutting_down (sy_queue s)
      \<and> mq_count (sy_queue s') + length (gw_pushed (sy_gateway s)) \<le> mq_count (sy_queue s) + length (gw_pushed (sy_gateway s')))"

text \<open>The queue takes without waiting what is pushed until the gateway is \<open>g\<close>.\<close>

definition room :: "system \<Rightarrow> gateway \<Rightarrow> bool" where
  "room s g = (mq_shutting_down (sy_queue s)
     \<or> mq_count (sy_queue s) + length (gw_pushed g) \<le> MESSAGE_QUEUE_CAPACITY + length (gw_pushed (sy_gateway s)))"

definition worker_at :: "system \<Rightarrow> nat \<Rightarrow> gateway \<times> upstream_context \<Rightarrow> worker_phase \<Rightarrow> bool" where
  "worker_at s t x ph = (case x of (g, up) \<Rightarrow>
     sy_gateway s = g \<and> sy_workers s t = Some \<lparr>wk_up = up, wk_phase = ph, wk_outbox = []\<rparr>)"

text \<open>The worker can go from one state to another in the system.\<close>

definition runs :: "nat \<Rightarrow> (gateway \<times> upstream_context) \<times> worker_phase \<Rightarrow> (gateway \<times> upstream_context) \<times> worker_phase \<Rightarrow> bool" where
  "runs t x y =
     (only_pushes (fst (fst x)) (fst (fst y))
      \<and> (\<forall>s. system_inv s \<longrightarrow> worker_at s t (fst x) (snd x) \<longrightarrow> room s (fst (fst y))
           \<longrightarrow> (\<exists>s'. alone t s s' \<and> worker_at s' t (fst y) (snd y))))"

lemma alone_refl [simp]: "alone t s s" by (simp add: alone_def)





lemma runs_refl [simp]: "runs t x x"
  by (simp add: runs_def) (use alone_refl in blast)


section \<open>What a worker pushes gets through\<close>




section \<open>The handlers run in the system\<close>













section \<open>The turns run in the system\<close>







text \<open>A turn of a Wi-Fi worker; the result says whether the loop goes on.\<close>

definition wifi_turn_goes_on :: "(nat \<Rightarrow> nat) \<Rightarrow> int \<Rightarrow> wifi_turn \<Rightarrow> wifi_state \<Rightarrow> bool" where
  "wifi_turn_goes_on os fd x s =
     (case s of (g, up, buf) \<Rightarrow>
       fst (wifi_client_try_send_command os fd (g, up)) \<noteq> Worker_Error
       \<and> (case wt_poll x of
            Poll_Failed \<Rightarrow> False
          | Poll_Ready ev \<Rightarrow>
              let hung_up = (pollhup ev \<or> pollerr ev \<or> pollnval ev) in
              if pollin ev
              then (case wt_recv x of
                      Bytes bytes \<Rightarrow> bytes \<noteq> []
                    | Read_Would_Block \<Rightarrow> True
                    | Read_Interrupted \<Rightarrow> \<not> hung_up
                    | Read_Failed \<Rightarrow> False)
              else \<not> hung_up
          | _ \<Rightarrow> True))"

abbreviation wifi_turn :: "(nat \<Rightarrow> nat) \<Rightarrow> int \<Rightarrow> wifi_turn \<Rightarrow> wifi_state \<Rightarrow> wifi_state" where
  "wifi_turn os fd x \<equiv> wifi_client_loop os fd [x\<lparr>wt_others := \<lambda>g. g\<rparr>]"



section \<open>A connection from its start to its end\<close>





section \<open>Schedules\<close>

text \<open>
  Steps of the others do to the gateway what \<open>f\<close> says. Then \<open>t\<close> runs until its gateway and context are
  \<open>x\<close>, with room for what it pushes on the way; whatever state the run ends in, it goes on with \<open>P\<close>.
\<close>

definition others_act :: "nat \<Rightarrow> (gateway \<Rightarrow> gateway) \<Rightarrow> system \<Rightarrow> system \<Rightarrow> bool" where
  "others_act t f s s' = (system_steps s s' \<and> sy_workers s' t = sy_workers s t \<and> sy_gateway s' = f (sy_gateway s))"

definition worker_in :: "system \<Rightarrow> nat \<Rightarrow> gateway \<times> upstream_context \<Rightarrow> bool" where
  "worker_in s t x = (\<exists>ph. ph \<noteq> Leaving \<and> worker_at s t x ph)"

definition then_runs :: "nat \<Rightarrow> system \<Rightarrow> gateway \<times> upstream_context \<Rightarrow> (system \<Rightarrow> bool) \<Rightarrow> bool" where
  "then_runs t s x P = (room s (fst x) \<and> (\<forall>s'. alone t s s' \<and> worker_in s' t x \<longrightarrow> P s'))"


fun wifi_scheduled :: "(nat \<Rightarrow> nat) \<Rightarrow> nat \<Rightarrow> int \<Rightarrow> (upstream_context \<Rightarrow> system \<Rightarrow> bool)
    \<Rightarrow> wifi_turn list \<Rightarrow> upstream_context \<times> string \<Rightarrow> system \<Rightarrow> bool" where
  "wifi_scheduled os t fd K [] (up, buf) s = K up s"
| "wifi_scheduled os t fd K (x # xs) (up, buf) s =
     (\<exists>s1. others_act t (wt_others x) s s1
        \<and> (case wifi_turn os fd x (sy_gateway s1, up, buf) of
             (g2, up2, buf2) \<Rightarrow>
               then_runs t s1 (g2, up2) (\<lambda>s2.
                 if wifi_turn_goes_on os fd x (sy_gateway s1, up, buf)
                 then wifi_scheduled os t fd K xs (up2, buf2) s2 else K up2 s2)))"



section \<open>Scheduled runs are runs of the system\<close>











section \<open>Whole connections\<close>



lemma serial_port_opens: "fst (serial_port_open device baud fd a b c d) \<in> {fd, -1}"
  by (simp add: serial_port_open_def no_call_def not_opened_def given_up_def opened_def)


section \<open>Schedules exist\<close>

text \<open>When the queue is shut down no push waits, and every script in which the others do nothing has a schedule.\<close>

abbreviation shut_down :: "system \<Rightarrow> bool" where "shut_down s \<equiv> mq_shutting_down (sy_queue s)"

lemma others_nothing: "others_act t (\<lambda>g. g) s s" by (simp add: others_act_def)

lemma then_runs_shut_down: "shut_down s \<Longrightarrow> (\<And>s'. shut_down s' \<Longrightarrow> P s') \<Longrightarrow> then_runs t s x P"
  by (auto simp: then_runs_def room_def alone_def)




lemma wifi_step:
  "others_act t (wt_others x) s s1 \<Longrightarrow> wifi_turn os fd x (sy_gateway s1, up, buf) = (g2, up2, buf2)
    \<Longrightarrow> then_runs t s1 (g2, up2) (\<lambda>s2. if wifi_turn_goes_on os fd x (sy_gateway s1, up, buf)
         then wifi_scheduled os t fd K xs (up2, buf2) s2 else K up2 s2)
    \<Longrightarrow> wifi_scheduled os t fd K (x # xs) (up, buf) s"
  unfolding wifi_scheduled.simps by (intro exI [of _ s1] conjI) (simp_all only: prod.case)

lemma wifi_shut_down:
  "list_all (\<lambda>x. wt_others x = (\<lambda>g. g)) xs \<Longrightarrow> shut_down s \<Longrightarrow> (\<And>up s'. shut_down s' \<Longrightarrow> K up s')
    \<Longrightarrow> wifi_scheduled os t fd K xs (up, buf) s"
proof (induction xs arbitrary: up buf s)
  case (Cons x xs)
  obtain g2 up2 buf2 where t: "wifi_turn os fd x (sy_gateway s, up, buf) = (g2, up2, buf2)" by (metis prod_cases3)
  show ?case
    by (rule wifi_step [OF _ t]) (use Cons in \<open>auto intro!: then_runs_shut_down simp: others_nothing\<close>)
qed simp





section \<open>The workers of the code are runs of the system\<close>





end
