(* ===== verification/Spec2Isabelle.thy ===== *)
theory Spec2Isabelle
  imports CBase Interfaces Crc16 Line_Parser Frame Frame_Parser Message_Json Message_Json_Spec
    Message_Queue Device_Manager Command_Manager Node_Store Io_Loops Gateway_App Command_Fate Device_Link
    Bluetooth_Worker Wifi_Client Worker_Settlement Server_Link Gateway_Loop Server_Main Report_Path Command_Path
    Mock_Node Round_Trip Gateway_System System_Run System_Invariant System_Progress
    Line_Safety System_Framing System_Threads
begin

text \<open>
  \<^bold>\<open>SmartGateway: a verification library.\<close>

  The program is a gateway between sensor nodes and a server. Nodes speak \<^emph>\<open>frames\<close>
  (\<open>@1,NODE01,000007,DATA,T=253,H=601*9C42\r\n\<close>) over Bluetooth serial lines or Wi-Fi sockets; the
  gateway and the server exchange one-line JSON messages over TCP. Readings travel
  node, frame parser, gateway application, message queue, server link, server, node store; commands
  travel the other way through the command manager (which repeats them until they are answered) and
  the command queue that the device manager keeps for every node.

  \<^bold>\<open>Theories.\<close>
  \<^item> \<open>CBase\<close>: how C data is read in HOL and the shared lemmas (C strings, printed numbers, the parts
    of the C library that are used, rings in arrays, table look-up).
  \<^item> \<open>Interfaces\<close>: the contracts that several components share, as locales: a receiver that is fed
    a stream in chunks (\<open>chunked\<close>) and a bounded FIFO (\<open>bounded_fifo\<close>).
  \<^item> \<open>Crc16\<close> (\<^verbatim>\<open>common/crc16.c\<close>): the checksum at 16 bits; it detects bursts of two bytes.
  \<^item> \<open>Line_Parser\<close> (\<^verbatim>\<open>common/line_parser.c\<close>): cutting a TCP stream into lines.
  \<^item> \<open>Frame\<close> (\<^verbatim>\<open>common/frame.c\<close>): building frames; when it succeeds and what it writes.
  \<^item> \<open>Frame_Parser\<close> (\<^verbatim>\<open>common/frame_parser.c\<close>): the byte state machine, validation, statistics,
    and the decoders. Resynchronisation after noise, rejection of corrupted frames, independence of
    the chunking, round trips with the builders, array bounds.
  \<^item> \<open>Message_Json\<close> (\<^verbatim>\<open>common/message_json.c\<close>): JSON builders, the object parser and the decoders;
    \<open>Message_Json_Spec\<close>: the text the builders write, the round trips, array bounds, the scaling of
    numeric readings.
  \<^item> \<open>Message_Queue\<close> (\<^verbatim>\<open>gateway/message_queue.c\<close>): the ring between the workers and the sender, and
    the step relation of any number of threads on it with condition variables: no loss, no lost
    wake-up, release on shutdown.
  \<^item> \<open>Device_Manager\<close> (\<^verbatim>\<open>gateway/device_manager.c\<close>): the registry of nodes, connections and pending
    commands. \<open>dm_spec\<close> is its abstract specification on a map from node ids; every operation
    refines it; commands are conserved; stale workers are refused.
  \<^item> \<open>Command_Manager\<close> (\<^verbatim>\<open>server/command_manager.c\<close>): the table of commands, their answers, retries
    and time-outs.
  \<^item> \<open>Node_Store\<close> (\<^verbatim>\<open>server/node_store.c\<close>): the server's last report of every node, with eviction.
  \<^item> \<open>Io_Loops\<close> (\<^verbatim>\<open>gateway/tcp_client.c\<close>, \<^verbatim>\<open>gateway/serial_port.c\<close>, \<^verbatim>\<open>gateway/wifi_server.c\<close>,
    \<^verbatim>\<open>server/tcp_server.c\<close> and the sending functions of \<^verbatim>\<open>gateway/wifi_client.c\<close> and \<^verbatim>\<open>server/main.c\<close>):
    the loops around system calls. They send a prefix of their data, return, and leak no descriptor.
  \<^item> \<open>Gateway_App\<close> (\<^verbatim>\<open>gateway/gateway_app.c\<close>): configuration, connecting to the server, and the handlers of
    frames, Wi-Fi lines and server lines. Routing of commands, binding of connections, take-over.
  \<^item> \<open>Command_Fate\<close> and \<open>Device_Link\<close>: the specification across the threads of the gateway. Every operation
    notes what it does, where it does it, in the history of the gateway: a command queued, written, failed or
    refused, a report pushed, an answer or a message sent. \<open>effect\<close> says that the events a history gains
    account for every command that is queued, every message that is pushed and every sending;
    operations of which this holds (\<open>accountable_by\<close>) compose and interleave. The locale \<open>command_link\<close> has the
    laws of a worker for any encoding of commands.
  \<^item> \<open>Bluetooth_Worker\<close> (\<^verbatim>\<open>gateway/bluetooth_worker.c\<close>) and \<open>Wifi_Client\<close> (\<^verbatim>\<open>gateway/wifi_client.c\<close>): the
    threads of the nodes, each an interpretation of \<open>command_link\<close>; \<open>Worker_Settlement\<close>: no command is stuck.
  \<^item> \<open>Server_Link\<close> (\<^verbatim>\<open>gateway/server_link.c\<close>): the thread that sends the queue to the server and receives
    commands. Messages leave in order and are never dropped; reconnection is throttled.
  \<^item> \<open>Gateway_Loop\<close> (\<^verbatim>\<open>gateway/gateway_loop.c\<close>, \<^verbatim>\<open>gateway/main.c\<close>): start, accept loop and stop, checked
    against a ledger of what is alive.
  \<^item> \<open>Server_Main\<close> (\<^verbatim>\<open>server/main.c\<close>): lines from the gateway, operator commands, repetition, the main
    loop and its invariant, and an account of the memory and the descriptors it holds.
  \<^item> \<open>Report_Path\<close> and \<open>Command_Path\<close>: properties across both programs, from the frame of a node to the
    tables of the server, and from the operator to the node.
  \<^item> \<open>Mock_Node\<close> (\<^verbatim>\<open>tools/mock_node_app.c\<close>, \<^verbatim>\<open>tools/mock_node.c\<close>, \<^verbatim>\<open>tools/mock_wifi_node.c\<close>): the nodes;
    \<open>Round_Trip\<close>: their answers settle the commands.
  \<^item> \<open>Gateway_System\<close>: the gateway as one system of interleaved steps: the workers of any number of nodes,
    each with the messages it still has to push, the queue, the thread of the server connection and the shared
    registry. The steps call the definitions of the other theories; a turn of the server thread is a
    sequence of its steps. \<open>System_Run\<close> is one run of it from start to end, evaluated.
    \<open>System_Invariant\<close>: what holds in every reachable state: the registry has only live connections, no
    report is lost between a worker and the server, every command is written, refused or pending, and is
    written to its own node. \<open>System_Progress\<close>: from every reachable state all messages can still be
    delivered, and after the shutdown every thread can end with no command left over.
  \<^item> \<open>Line_Safety\<close>: parsers and decoders never let a line feed through, so every message is one line;
    \<open>System_Framing\<close>: the server therefore reads exactly the messages that the gateway has delivered.
  \<^item> \<open>System_Threads\<close>: whole runs of \<open>bluetooth_worker\<close> and \<open>wifi_client_worker\<close>, interleaved with steps of
    the other threads, are runs of the system, so its theorems are about the code of the threads.

  \<^bold>\<open>Conventions.\<close> Definitions carry the names of the C functions. A struct is a record, an enumeration or
  a set of return codes a datatype, a pointer that the code compares with NULL an option; pointers
  to the state of a component are never NULL in the model, because the state is an argument. Output
  parameters are passed in and returned. A \<open>char\<close> array is the C string in it; an array with a count is
  the list of its live entries. Callbacks are functions on the caller's state. The clock, the thread
  and the answers of the operating system (allocation, initialisation of locks) are arguments of the
  definitions. \<open>uint32_t\<close> and \<open>unsigned long\<close> counters are words of 32 and 64 bits, and \<open>unsigned\<close>
  arithmetic that may leave a width is written out; platforms are LP64. An operation that runs under
  a mutex is one atomic step. Loops over data are recursions on the data; the scanning loops of the
  JSON parser are recursions that shorten the text. No fuel is needed for these.

  \<^bold>\<open>Loops around the operating system.\<close> A loop that polls, reads or sends is a recursion on a script of
  answers, one entry per turn: what \<open>poll\<close>, \<open>recv\<close>, \<open>accept\<close> and the clock return in it. The running flag is
  true until the script is exhausted, so a theorem about all scripts is one about all finite runs. A
  turn of a gateway thread has a function that stands for what other threads do before it (\<open>bt_others\<close>,
  \<open>wt_others\<close>, \<open>lt_others\<close>); the theorems assume of it only that it keeps the invariants of the shared
  state, or accounts for what it does. Inside a handler a call that sends is one step (\<open>send_logged\<close>): \<open>os i\<close> is the number
  of bytes that the system takes in the \<open>i\<close>-th call, and everything sent is logged; \<open>Io_Loops\<close> shows that
  the sending functions behave like that. What the gateway pushes to its queue is a log as well
  (\<open>gw_pushed\<close>), and \<open>Message_Queue\<close> and \<open>Server_Link\<close> say what becomes of it. A third log, the history
  \<open>gw_history\<close>, has no counterpart in the code: no definition reads it, and the definitions append to it the
  event of a branch where the code takes that branch. Theorems tie it to the real state: to the queues of
  the registry, to \<open>gw_pushed\<close> and to \<open>gw_sent\<close>. The server asks the clock
  several times in a turn; the model uses one value for the turn.

  \<^bold>\<open>Threads.\<close> Two views of the threads are kept. In the theories of the single threads the others are an
  unknown function between any two turns. In \<open>Gateway_System\<close> nobody is unknown: a step is what a thread does
  between two points where it may have to wait, so a handler with its one call of the device manager is a
  step, and so is each \<open>message_queue_push\<close>, which is possible only when the queue has room or is shut
  down. Taking a command and writing it to the worker's own descriptor is one step. The counters of
  \<open>gateway_context_t\<close> are updated in the step that counts; the code updates them without a lock, so a real
  counter may miss an event. \<open>System_Threads\<close> joins the two views: a run of a worker whose others do what steps of the
  system do is a run of the system. The others act between the turns of the worker, as in its own theory, and
  the queue must have room for what a turn pushes or be shut down; runs in which a worker waits for room, or is
  interrupted, inside a turn are runs of the system that no run of the single thread describes.

  \<^bold>\<open>Not modelled.\<close> The terminal settings of serial ports and the addresses of sockets; what \<open>sigaction\<close>
  does (only the result of each call is used); the texts that are printed, other than the statistics line;
  sleeping; the destructors of the queue, the registry and the group of workers release OS objects only, and are
  actions of \<open>Gateway_Loop\<close>. The test programs are not part of
  the implementation.
\<close>

end
